(* ===== verification/Storage_Prelude.thy ===== *)
theory Storage_Prelude
  imports Main "HOL-Library.Multiset" "HOL-Library.Word"
begin

text \<open>
  Shared ground of the development: how a piece of C++ code can stop other than by
  returning, the result type built on it, the checked accesses of the standard containers,
  decimal printing, and the collections of facts the component theories add to.
\<close>

section \<open>Ways to stop, and results\<close>

text \<open>
  \<open>Undefined_Behaviour\<close> is an access the C++ standard gives no meaning to (a vector or a
  string indexed out of range, an empty optional dereferenced). \<open>Terminate\<close> is an exception
  that leaves a \<^verbatim>\<open>noexcept\<close> function, which ends the whole process. \<open>Diverges\<close> is
  a loop that never ends. \<open>Would_Block\<close> is a blocking read with nothing to read: the thread
  waits there.
\<close>

datatype exn = Out_Of_Range | Length_Error | System_Error | Bad_Address_Cast

datatype stop =
    Undefined_Behaviour
  | Terminate exn
  | Diverges
  | Would_Block

type_synonym 'a result = "stop + 'a"

definition and_then :: "'e + 'a \<Rightarrow> ('a \<Rightarrow> 'e + 'b) \<Rightarrow> 'e + 'b" where
  "and_then m f = (case m of Inl e \<Rightarrow> Inl e | Inr x \<Rightarrow> f x)"

lemma and_then_simps [simp]:
  "and_then (Inl e) f = Inl e"
  "and_then (Inr x) f = f x"
  by (simp_all add: and_then_def)

lemma and_then_eq_Inr: "and_then m f = Inr y \<longleftrightarrow> (\<exists>x. m = Inr x \<and> f x = Inr y)"
  by (cases m) auto

lemma and_then_split:
  "P (and_then r f) \<longleftrightarrow> (\<forall>e. r = Inl e \<longrightarrow> P (Inl e)) \<and> (\<forall>x. r = Inr x \<longrightarrow> P (f x))"
  by (cases r) simp_all

lemma and_then_assoc: "and_then (and_then m f) g = and_then m (\<lambda>x. and_then (f x) g)"
  by (cases m) simp_all

lemma and_then_cong [fundef_cong]:
  "m = m' \<Longrightarrow> (\<And>x. m' = Inr x \<Longrightarrow> f x = g x) \<Longrightarrow> and_then m f = and_then m' g"
  by (cases m') simp_all

text \<open>\<^verbatim>\<open>v[i]\<close> on a vector: no bound check, so out of range has no meaning.\<close>

definition vector_at :: "'a list \<Rightarrow> nat \<Rightarrow> 'a result" where
  "vector_at xs i = (if i < length xs then Inr (xs ! i) else Inl Undefined_Behaviour)"

lemma vector_at_simps [simp]:
  "vector_at [] i = Inl Undefined_Behaviour"
  "vector_at (x # xs) 0 = Inr x"
  "vector_at (x # xs) (Suc i) = vector_at xs i"
  "vector_at (x # y # ys) 1 = Inr y"
  "vector_at [x] 1 = Inl Undefined_Behaviour"
  by (simp_all add: vector_at_def)

lemma vector_at_eq_Inr: "vector_at xs i = Inr x \<longleftrightarrow> i < length xs \<and> xs ! i = x"
  by (simp add: vector_at_def)

text \<open>
  \<^verbatim>\<open>std::string::resize\<close> throws when the size passes \<^verbatim>\<open>max_size()\<close>, which is
  \<^verbatim>\<open>PTRDIFF_MAX\<close> on the 64-bit platforms the program names. Running out of memory below
  that bound is not modelled.
\<close>

definition string_max_size :: nat where
  "string_max_size = 2 ^ 63 - 1"

section \<open>Decimal numerals\<close>

text \<open>\<^verbatim>\<open>std::to_string\<close> on a number that is not negative.\<close>

definition digit :: "nat \<Rightarrow> char" where
  "digit d = char_of (48 + d)"

fun to_string :: "nat \<Rightarrow> string" where
  "to_string n = (if n < 10 then [digit n] else to_string (n div 10) @ [digit (n mod 10)])"

declare to_string.simps [simp del]

definition is_digit :: "char \<Rightarrow> bool" where
  "is_digit c \<longleftrightarrow> 48 \<le> (of_char c :: nat) \<and> (of_char c :: nat) \<le> 57"

definition digit_val :: "char \<Rightarrow> nat" where
  "digit_val c = of_char c - 48"

definition read_dec :: "string \<Rightarrow> nat" where
  "read_dec s = foldl (\<lambda>n c. 10 * n + digit_val c) 0 s"

lemma is_digit_digit [simp]: "d < 10 \<Longrightarrow> is_digit (digit d)"
  by (simp add: is_digit_def digit_def)

lemma digit_val_digit [simp]: "d < 10 \<Longrightarrow> digit_val (digit d) = d"
  by (simp add: digit_val_def digit_def)

lemma read_dec_snoc: "read_dec (s @ [c]) = 10 * read_dec s + digit_val c"
  by (simp add: read_dec_def)

lemma to_string_digits: "list_all is_digit (to_string n)"
proof (induction n rule: to_string.induct)
  case (1 n)
  then show ?case by (subst to_string.simps) auto
qed

lemma to_string_nonempty [simp]: "to_string n \<noteq> []"
  by (subst to_string.simps) simp

lemma read_dec_to_string [simp]: "read_dec (to_string n) = n"
proof (induction n rule: to_string.induct)
  case (1 n)
  show ?case
  proof (cases "n < 10")
    case True
    then show ?thesis by (subst to_string.simps) (simp add: read_dec_def)
  next
    case False
    with 1 have "read_dec (to_string (n div 10)) = n div 10" by simp
    with False show ?thesis by (subst to_string.simps) (simp add: read_dec_snoc)
  qed
qed

lemma to_string_inject [simp]: "to_string m = to_string n \<longleftrightarrow> m = n"
  by (metis read_dec_to_string)

section \<open>Messages on a byte stream\<close>

text \<open>
  What the program's serialisers (\<^verbatim>\<open>protocol/iserialize.hpp\<close>) promise the reader at the other
  end. A \<open>codec\<close> is read back from exactly its own bytes; a \<open>stream_codec\<close> is read back
  from the front of a stream, with the rest of the stream left over, so that messages sent
  one behind the other are told apart.
\<close>

locale codec =
  fixes enc :: "'a \<Rightarrow> string"
    and dec :: "string \<Rightarrow> 'a option"
    and wf :: "'a \<Rightarrow> bool"
  assumes dec_enc: "wf x \<Longrightarrow> dec (enc x) = Some x"
begin

lemma enc_inject: "wf x \<Longrightarrow> wf y \<Longrightarrow> enc x = enc y \<longleftrightarrow> x = y"
  by (metis dec_enc option.inject)

end

text \<open>Reading \<open>n\<close> messages off a stream.\<close>

fun read_messages :: "(string \<Rightarrow> ('a \<times> string) option) \<Rightarrow> nat \<Rightarrow> string \<Rightarrow> ('a list \<times> string) option" where
  "read_messages rd 0 s = Some ([], s)"
| "read_messages rd (Suc n) s =
     (case rd s of
        None \<Rightarrow> None
      | Some (x, s') \<Rightarrow> map_option (\<lambda>(xs, r). (x # xs, r)) (read_messages rd n s'))"

definition whole :: "(string \<Rightarrow> ('a \<times> string) option) \<Rightarrow> string \<Rightarrow> 'a option" where
  "whole rd s = (case rd s of Some (x, []) \<Rightarrow> Some x | _ \<Rightarrow> None)"

locale stream_codec =
  fixes enc :: "'a \<Rightarrow> string"
    and rd :: "string \<Rightarrow> ('a \<times> string) option"
    and wf :: "'a \<Rightarrow> bool"
  assumes rd_enc: "wf x \<Longrightarrow> rd (enc x @ rest) = Some (x, rest)"
begin

lemma read_all:
  "list_all wf xs \<Longrightarrow>
     read_messages rd (length xs) (concat (map enc xs) @ rest) = Some (xs, rest)"
  by (induction xs) (simp_all add: rd_enc)

lemma whole_enc: "wf x \<Longrightarrow> whole rd (enc x) = Some x"
  using rd_enc [of x "[]"] by (simp add: whole_def)

end

sublocale stream_codec \<subseteq> alone: codec enc "whole rd" wf
  by unfold_locales (rule whole_enc)

section \<open>Collections\<close>

text \<open>
  \<open>handler_defs\<close> unfolds the request handlers and the helpers they share;
  \<open>session_frames\<close> says which fields of a session a helper leaves alone.
\<close>

named_theorems handler_defs
named_theorems session_frames

end
