(* ===== verification/Memory_Fs.thy ===== *)
theory Memory_Fs
  imports Storage_Prelude
begin

text \<open>
  \<^verbatim>\<open>filesystem/ifilesystem.hpp\<close> and \<^verbatim>\<open>filesystem/memory_fs/src\<close>. The interface is the locale
  \<open>object_store\<close>: an abstraction to a map from paths to files and what each operation does to
  it. The hash table behind \<open>MemoryFs\<close> is an association list in iteration order.
\<close>

datatype Status = Success | FileNotFound | AlreadyExists

type_synonym File = string

section \<open>The interface\<close>

text \<open>
  \<open>get\<close> returns a reference: \<open>Some\<close> the file it refers to, or \<open>None\<close> for the reference to a
  temporary that no longer lives, which comes with \<open>FileNotFound\<close> and must not be read.
\<close>

datatype fs_op = FsGet string | FsAdd string File | FsList | FsRemove string

datatype fs_answer = FoundFile "Status \<times> File option" | Done Status | Paths "string set"

text \<open>The abstract store: a map, and the answer to each operation.\<close>

fun abstract_step :: "fs_op \<Rightarrow> (string \<rightharpoonup> File) \<Rightarrow> fs_answer \<times> (string \<rightharpoonup> File)" where
  "abstract_step (FsGet p) m =
     (FoundFile (if p \<in> dom m then Success else FileNotFound, m p), m)"
| "abstract_step (FsAdd p f) m =
     (if p \<in> dom m then (Done AlreadyExists, m) else (Done Success, m(p \<mapsto> f)))"
| "abstract_step FsList m = (Paths (dom m), m)"
| "abstract_step (FsRemove p) m =
     (if p \<in> dom m then (Done Success, m(p := None)) else (Done FileNotFound, m))"

fun abstract_run :: "fs_op list \<Rightarrow> (string \<rightharpoonup> File) \<Rightarrow> fs_answer list \<times> (string \<rightharpoonup> File)" where
  "abstract_run [] m = ([], m)"
| "abstract_run (x # xs) m =
     (case abstract_step x m of (a, m') \<Rightarrow>
      case abstract_run xs m' of (as, m'') \<Rightarrow> (a # as, m''))"

locale object_store =
  fixes get :: "'fs \<Rightarrow> string \<Rightarrow> Status \<times> File option"
    and add :: "'fs \<Rightarrow> string \<Rightarrow> File \<Rightarrow> Status \<times> 'fs"
    and list :: "'fs \<Rightarrow> string list"
    and remove :: "'fs \<Rightarrow> string \<Rightarrow> Status \<times> 'fs"
    and abs :: "'fs \<Rightarrow> string \<rightharpoonup> File"
    and inv :: "'fs \<Rightarrow> bool"
  assumes get_abs: "inv s \<Longrightarrow>
      get s p = (if p \<in> dom (abs s) then Success else FileNotFound, abs s p)"
    and add_status: "inv s \<Longrightarrow> fst (add s p f) = (if p \<in> dom (abs s) then AlreadyExists else Success)"
    and add_abs: "inv s \<Longrightarrow> abs (snd (add s p f)) = (if p \<in> dom (abs s) then abs s else (abs s)(p \<mapsto> f))"
    and list_abs: "inv s \<Longrightarrow> distinct (list s) \<and> set (list s) = dom (abs s)"
    and remove_status: "inv s \<Longrightarrow> fst (remove s p) = (if p \<in> dom (abs s) then Success else FileNotFound)"
    and remove_abs: "inv s \<Longrightarrow> abs (snd (remove s p)) = (abs s)(p := None)"
    and add_inv: "inv s \<Longrightarrow> inv (snd (add s p f))"
    and remove_inv: "inv s \<Longrightarrow> inv (snd (remove s p))"
begin

lemma get_added:
  "inv s \<Longrightarrow> abs s p = None \<Longrightarrow> get (snd (add s p f)) p = (Success, Some f)"
  by (simp add: get_abs add_inv add_abs domIff)

lemma get_other:
  "inv s \<Longrightarrow> q \<noteq> p \<Longrightarrow> get (snd (add s p f)) q = get s q"
  by (simp add: get_abs add_inv add_abs domIff)

lemma add_keeps: "inv s \<Longrightarrow> abs s q = Some g \<Longrightarrow> abs (snd (add s p f)) q = Some g"
  by (auto simp: add_abs)

lemma get_removed: "inv s \<Longrightarrow> get (snd (remove s p)) p = (FileNotFound, None)"
  by (simp add: get_abs remove_inv remove_abs domIff)

lemma remove_added:
  "inv s \<Longrightarrow> abs s p = None \<Longrightarrow> abs (snd (remove (snd (add s p f)) p)) = abs s"
  by (auto simp: remove_abs add_inv add_abs fun_eq_iff)

text \<open>The store runs every sequence of operations as the abstract one does.\<close>

primrec step :: "fs_op \<Rightarrow> 'fs \<Rightarrow> fs_answer \<times> 'fs" where
  "step (FsGet p) s = (FoundFile (get s p), s)"
| "step (FsAdd p f) s = (Done (fst (add s p f)), snd (add s p f))"
| "step FsList s = (Paths (set (list s)), s)"
| "step (FsRemove p) s = (Done (fst (remove s p)), snd (remove s p))"

primrec run :: "fs_op list \<Rightarrow> 'fs \<Rightarrow> fs_answer list \<times> 'fs" where
  "run [] s = ([], s)"
| "run (x # xs) s = (case step x s of (a, s') \<Rightarrow> case run xs s' of (as, s'') \<Rightarrow> (a # as, s''))"

lemma step_refines:
  assumes "inv s"
  shows "abstract_step x (abs s) = (fst (step x s), abs (snd (step x s))) \<and> inv (snd (step x s))"
proof (cases x)
  case (FsGet p)
  with assms show ?thesis by (simp add: get_abs)
next
  case (FsAdd p f)
  with assms show ?thesis by (simp add: add_status add_abs add_inv)
next
  case FsList
  with assms show ?thesis by (simp add: list_abs)
next
  case (FsRemove p)
  with assms show ?thesis by (simp add: remove_status remove_abs remove_inv fun_upd_idem domIff)
qed

lemma run_refines:
  "inv s \<Longrightarrow> abstract_run xs (abs s) = (fst (run xs s), abs (snd (run xs s))) \<and> inv (snd (run xs s))"
proof (induction xs arbitrary: s)
  case (Cons x xs)
  have "abstract_step x (abs s) = (fst (step x s), abs (snd (step x s)))" and "inv (snd (step x s))"
    using step_refines [OF Cons.prems] by blast+
  with Cons.IH [of "snd (step x s)"] show ?case by (auto simp: case_prod_beta)
qed simp

end

section \<open>The hash table\<close>

text \<open>
  \<^verbatim>\<open>std::unordered_map\<close> promises nothing about the order in which it lists its entries, and an
  insertion may move all of them (a rehash). A \<open>hash_order\<close> is one way the table may arrange
  them: any function that returns the entries it is given. Everything below holds for all of
  them. Erasing keeps the order of the other entries, as the standard says.
\<close>

type_synonym entries = "(string \<times> File) list"

typedef hash_order = "{f :: entries \<Rightarrow> entries. \<forall>xs. mset (f xs) = mset xs}"
  morphisms arrange hash_order
  by (rule exI [of _ "\<lambda>xs. xs"]) simp

definition front_order :: hash_order where
  "front_order = hash_order (\<lambda>xs. xs)"

lemma mset_arrange [simp]: "mset (arrange h xs) = mset xs"
  using arrange [of h] by simp

lemma arrange_front_order [simp]: "arrange front_order xs = xs"
  by (simp add: front_order_def hash_order_inverse)

lemma set_arrange [simp]: "set (arrange h xs) = set xs"
  by (metis mset_arrange set_mset_mset)

lemma distinct_keys_arrange [simp]:
  "distinct (map fst (arrange h xs)) \<longleftrightarrow> distinct (map fst xs)"
  by (metis mset_arrange mset_map mset_eq_imp_distinct_iff)

lemma map_of_arrange: "distinct (map fst xs) \<Longrightarrow> map_of (arrange h xs) = map_of xs"
  by (intro map_of_inject_set [THEN iffD2]) simp_all

record MemoryFs =
  fs_entries :: entries
  fs_order :: hash_order

definition exists :: "MemoryFs \<Rightarrow> string \<Rightarrow> bool" where
  "exists m path \<longleftrightarrow> map_of (fs_entries m) path \<noteq> None"

definition fs_get :: "MemoryFs \<Rightarrow> string \<Rightarrow> Status \<times> File option" where
  "fs_get m path =
     (if \<not> exists m path then (FileNotFound, None)
      else (Success, map_of (fs_entries m) path))"

definition fs_add :: "MemoryFs \<Rightarrow> string \<Rightarrow> File \<Rightarrow> Status \<times> MemoryFs" where
  "fs_add m path file =
     (if exists m path then (AlreadyExists, m)
      else (Success, m\<lparr>fs_entries := arrange (fs_order m) ((path, file) # fs_entries m)\<rparr>))"

definition fs_list :: "MemoryFs \<Rightarrow> string list" where
  "fs_list m = map fst (fs_entries m)"

definition fs_remove :: "MemoryFs \<Rightarrow> string \<Rightarrow> Status \<times> MemoryFs" where
  "fs_remove m path =
     (let left = filter (\<lambda>e. fst e \<noteq> path) (fs_entries m) in
      (if length (fs_entries m) - length left = 1 then Success else FileNotFound,
       m\<lparr>fs_entries := left\<rparr>))"

definition fs_map :: "MemoryFs \<Rightarrow> string \<rightharpoonup> File" where
  "fs_map m = map_of (fs_entries m)"

definition fs_inv :: "MemoryFs \<Rightarrow> bool" where
  "fs_inv m \<longleftrightarrow> distinct (map fst (fs_entries m))"

definition fs_empty :: "hash_order \<Rightarrow> MemoryFs" where
  "fs_empty h = \<lparr>fs_entries = [], fs_order = h\<rparr>"

lemma exists_iff: "exists m p \<longleftrightarrow> p \<in> dom (fs_map m)"
  by (auto simp: exists_def fs_map_def domIff)

lemma fs_inv_empty [simp]: "fs_inv (fs_empty h)"
  by (simp add: fs_inv_def fs_empty_def)

lemma fs_map_empty [simp]: "fs_map (fs_empty h) = Map.empty"
  by (simp add: fs_map_def fs_empty_def)

lemma map_of_filter_key: "map_of (filter (\<lambda>e. fst e \<noteq> p) xs) = (map_of xs)(p := None)"
  by (induction xs) auto

lemma count_key:
  "distinct (map fst xs) \<Longrightarrow>
     length xs - length (filter (\<lambda>e. fst e \<noteq> p) xs) = (if p \<in> fst ` set xs then 1 else 0)"
proof (induction xs)
  case (Cons x xs)
  have le: "length (filter (\<lambda>e. fst e \<noteq> p) xs) \<le> length xs" by simp
  show ?case
  proof (cases "fst x = p")
    case True
    with Cons.prems have "p \<notin> fst ` set xs" by auto
    then have "filter (\<lambda>e. fst e \<noteq> p) xs = xs" by (intro filter_True) auto
    with True show ?thesis by simp
  next
    case False
    with Cons le show ?thesis by (auto simp: Suc_diff_le)
  qed
qed simp

interpretation memfs: object_store fs_get fs_add fs_list fs_remove fs_map fs_inv
proof unfold_locales
  fix s p f
  assume inv: "fs_inv s"
  then have d: "distinct (map fst (fs_entries s))" by (simp add: fs_inv_def)
  have keys: "fst ` set (fs_entries s) = dom (fs_map s)"
    by (simp add: fs_map_def dom_map_of_conv_image_fst)
  show "fs_get s p = (if p \<in> dom (fs_map s) then Success else FileNotFound, fs_map s p)"
    by (cases "map_of (fs_entries s) p") (auto simp: fs_get_def exists_iff fs_map_def)
  show "fst (fs_add s p f) = (if p \<in> dom (fs_map s) then AlreadyExists else Success)"
    by (simp add: fs_add_def exists_iff)
  show "fs_map (snd (fs_add s p f)) = (if p \<in> dom (fs_map s) then fs_map s else (fs_map s)(p \<mapsto> f))"
    using d keys by (auto simp: fs_add_def exists_iff fs_map_def map_of_arrange)
  show "distinct (fs_list s) \<and> set (fs_list s) = dom (fs_map s)"
    using d keys by (simp add: fs_list_def)
  show "fst (fs_remove s p) = (if p \<in> dom (fs_map s) then Success else FileNotFound)"
    by (simp add: fs_remove_def Let_def count_key [OF d] keys)
  show "fs_map (snd (fs_remove s p)) = (fs_map s)(p := None)"
    by (simp add: fs_remove_def Let_def fs_map_def map_of_filter_key)
  show "fs_inv (snd (fs_add s p f))"
    using d keys by (auto simp: fs_add_def fs_inv_def exists_iff)
  show "fs_inv (snd (fs_remove s p))"
    using d by (simp add: fs_remove_def Let_def fs_inv_def distinct_map_filter)
qed

section \<open>Properties\<close>

text \<open>
  C18. The hash table is a map: whatever sequence of operations is run on it, and however it
  arranges its entries, the answers and the files in it are those of the abstract map.
\<close>

theorem store_runs_as_map:
  assumes "fs_inv m"
  shows "abstract_run xs (fs_map m) = (fst (memfs.run xs m), fs_map (snd (memfs.run xs m)))
    \<and> fs_inv (snd (memfs.run xs m))"
  using memfs.run_refines [OF assms] .

lemma store_runs_as_map_witness:
  "abstract_run [FsAdd ''/a'' ''x'', FsAdd ''/a'' ''y'', FsGet ''/a'', FsRemove ''/a'', FsList] (fs_map (fs_empty front_order))
     = (fst (memfs.run [FsAdd ''/a'' ''x'', FsAdd ''/a'' ''y'', FsGet ''/a'', FsRemove ''/a'', FsList] (fs_empty front_order)),
        fs_map (snd (memfs.run [FsAdd ''/a'' ''x'', FsAdd ''/a'' ''y'', FsGet ''/a'', FsRemove ''/a'', FsList] (fs_empty front_order))))
   \<and> fs_inv (snd (memfs.run [FsAdd ''/a'' ''x'', FsAdd ''/a'' ''y'', FsGet ''/a'', FsRemove ''/a'', FsList] (fs_empty front_order)))"
  by (rule store_runs_as_map) simp

end
