(* ===== verification/Memory_Ref.thy ===== *)
theory Memory_Ref
  imports Memory_Fs
begin

text \<open>
  \<^verbatim>\<open>MemoryFs::get\<close> returns a reference to the stored string and gives up the lock. Here the
  entries of the table have an identity, so that a reference can outlive its entry: a table
  keeps its entries where they are when it grows, and an entry that is erased is gone even if
  its path is added again.
\<close>

section \<open>Entries with an identity\<close>

record RefFs =
  table :: MemoryFs
  node_of :: "string \<rightharpoonup> nat"
  next_node :: nat

definition ref_get :: "RefFs \<Rightarrow> string \<Rightarrow> Status \<times> nat option" where
  "ref_get m path = (if exists (table m) path then (Success, node_of m path) else (FileNotFound, None))"

text \<open>Reading through a reference, after the lock has been released.\<close>

definition deref :: "RefFs \<Rightarrow> nat \<Rightarrow> File result" where
  "deref m n =
     (case find (\<lambda>e. node_of m (fst e) = Some n) (fs_entries (table m)) of
        None \<Rightarrow> Inl Undefined_Behaviour
      | Some e \<Rightarrow> Inr (snd e))"

definition ref_add :: "RefFs \<Rightarrow> string \<Rightarrow> File \<Rightarrow> Status \<times> RefFs" where
  "ref_add m path f =
     (case fs_add (table m) path f of
        (Success, t) \<Rightarrow> (Success, m\<lparr>table := t, node_of := (node_of m)(path \<mapsto> next_node m),
           next_node := Suc (next_node m)\<rparr>)
      | (status, t) \<Rightarrow> (status, m\<lparr>table := t\<rparr>))"

definition ref_remove :: "RefFs \<Rightarrow> string \<Rightarrow> Status \<times> RefFs" where
  "ref_remove m path =
     (case fs_remove (table m) path of
        (status, t) \<Rightarrow> (status, m\<lparr>table := t, node_of := (node_of m)(path := None)\<rparr>))"

text \<open>What other threads do to the table in the meantime.\<close>

fun ref_op :: "fs_op \<Rightarrow> RefFs \<Rightarrow> RefFs" where
  "ref_op (FsGet p) m = m"
| "ref_op (FsAdd p f) m = snd (ref_add m p f)"
| "ref_op FsList m = m"
| "ref_op (FsRemove p) m = snd (ref_remove m p)"

definition ref_empty :: "hash_order \<Rightarrow> RefFs" where
  "ref_empty h = \<lparr>table = fs_empty h, node_of = Map.empty, next_node = 0\<rparr>"

definition ref_inv :: "RefFs \<Rightarrow> bool" where
  "ref_inv m \<longleftrightarrow> fs_inv (table m) \<and> dom (node_of m) = dom (fs_map (table m))
     \<and> inj_on (node_of m) (dom (node_of m)) \<and> (\<forall>n \<in> ran (node_of m). n < next_node m)"

section \<open>References and entries\<close>

lemma ref_op_table: "table (ref_op x m) = snd (memfs.step x (table m))"
  by (cases x) (auto simp: ref_add_def ref_remove_def case_prod_beta split: Status.splits prod.splits)

lemma ref_op_map:
  assumes "ref_inv m"
  shows "fs_inv (table (ref_op x m))" "fs_map (table (ref_op x m)) = snd (abstract_step x (fs_map (table m)))"
  using assms memfs.step_refines [of "table m" x] by (simp_all add: ref_inv_def ref_op_table)

lemma ref_add_nodes:
  assumes "ref_inv m"
  shows "node_of (snd (ref_add m p f)) = (if p \<in> dom (fs_map (table m)) then node_of m
    else (node_of m)(p \<mapsto> next_node m))"
    "next_node (snd (ref_add m p f)) = (if p \<in> dom (fs_map (table m)) then next_node m else Suc (next_node m))"
  by (auto simp: ref_add_def fs_add_def exists_iff)

lemma ref_remove_nodes: "node_of (snd (ref_remove m p)) = (node_of m)(p := None)"
    "next_node (snd (ref_remove m p)) = next_node m"
  by (simp_all add: ref_remove_def case_prod_beta)

lemma ref_inv_op: "ref_inv m \<Longrightarrow> ref_inv (ref_op x m)"
proof -
  assume m: "ref_inv m"
  note t = ref_op_map [OF m, of x]
  show ?thesis
  proof (cases x)
    case (FsAdd p f)
    have "next_node m \<notin> ran (node_of m)" "dom (node_of m) = dom (fs_map (table m))"
      using m by (auto simp: ref_inv_def)
    then show ?thesis
      using m t FsAdd ref_add_nodes [OF m, of p f]
      by (auto simp: ref_inv_def inj_on_def ran_def domIff split: if_splits)
  next
    case (FsRemove p)
    then show ?thesis using m t ref_remove_nodes [of m p]
      by (auto simp: ref_inv_def inj_on_def ran_def domIff split: if_splits)
  qed (use m in simp_all)
qed

lemma ref_inv_empty: "ref_inv (ref_empty h)"
  by (simp add: ref_inv_def ref_empty_def)

text \<open>A reference reads the entry it was made for, as long as there is one.\<close>

lemma deref_live:
  assumes "ref_inv m" "node_of m p = Some n" "fs_map (table m) p = Some f"
  shows "deref m n = Inr f"
proof -
  have "(p, f) \<in> set (fs_entries (table m))" using assms(3) by (simp add: fs_map_def map_of_SomeD)
  moreover have "q = p" if "node_of m q = Some n" for q
    using assms(1,2) that by (auto simp: ref_inv_def inj_on_def domIff)
  moreover have "distinct (map fst (fs_entries (table m)))"
    using assms(1) by (simp add: ref_inv_def fs_inv_def)
  ultimately have "e = (p, f)" if "e \<in> set (fs_entries (table m))" "node_of m (fst e) = Some n" for e
    using that by (metis eq_key_imp_eq_value prod.collapse)
  moreover obtain e where e: "find (\<lambda>e. node_of m (fst e) = Some n) (fs_entries (table m)) = Some e"
    using \<open>(p, f) \<in> _\<close> assms(2)
    by (cases "find (\<lambda>e. node_of m (fst e) = Some n) (fs_entries (table m))") (auto simp: find_None_iff)
  moreover from e have "e \<in> set (fs_entries (table m))" "node_of m (fst e) = Some n"
    by (auto simp: find_Some_iff)
  ultimately have "e = (p, f)" by blast
  with e show ?thesis by (simp add: deref_def)
qed

lemma deref_dead: "n \<notin> ran (node_of m) \<Longrightarrow> deref m n = Inl Undefined_Behaviour"
  by (auto simp: deref_def find_None_iff ran_def split: option.splits dest: find_Some_iff [THEN iffD1])

section \<open>What happens to a reference\<close>

text \<open>An entry that is gone does not come back: its identity is not used again.\<close>

lemma dead_op:
  assumes "ref_inv m" "n \<notin> ran (node_of m)" "n < next_node m"
  shows "n \<notin> ran (node_of (ref_op x m))" "n < next_node (ref_op x m)"
proof -
  show "n < next_node (ref_op x m)"
    using assms(3) by (cases x) (simp_all add: ref_add_nodes [OF assms(1)] ref_remove_nodes)
  show "n \<notin> ran (node_of (ref_op x m))"
    using assms by (cases x) (auto simp: ref_add_nodes [OF assms(1)] ref_remove_nodes ran_def split: if_splits)
qed

lemma dead_run:
  "ref_inv m \<Longrightarrow> n \<notin> ran (node_of m) \<Longrightarrow> n < next_node m \<Longrightarrow> deref (fold ref_op xs m) n = Inl Undefined_Behaviour"
proof (induction xs arbitrary: m)
  case (Cons x xs)
  from Cons.IH [OF ref_inv_op [OF Cons.prems(1)] dead_op [OF Cons.prems]] show ?case by simp
qed (simp add: deref_dead)

lemma live_op:
  assumes "ref_inv m" "node_of m p = Some n" "fs_map (table m) p = Some f" "x \<noteq> FsRemove p"
  shows "node_of (ref_op x m) p = Some n" "fs_map (table (ref_op x m)) p = Some f"
proof -
  have "snd (abstract_step x (fs_map (table m))) p = Some f"
    using assms(3,4) by (cases x) auto
  then show "fs_map (table (ref_op x m)) p = Some f" by (simp only: ref_op_map [OF assms(1)])
  show "node_of (ref_op x m) p = Some n"
    using assms by (cases x) (auto simp: ref_add_nodes [OF assms(1)] ref_remove_nodes)
qed

lemma removed_op:
  assumes "ref_inv m" "node_of m p = Some n"
  shows "n \<notin> ran (node_of (ref_op (FsRemove p) m))" "n < next_node (ref_op (FsRemove p) m)"
  using assms by (auto simp: ref_remove_nodes ref_inv_def inj_on_def ran_def domIff split: if_splits)

lemma reference_run:
  "ref_inv m \<Longrightarrow> node_of m p = Some n \<Longrightarrow> fs_map (table m) p = Some f \<Longrightarrow>
     deref (fold ref_op xs m) n = (if FsRemove p \<in> set xs then Inl Undefined_Behaviour else Inr f)"
proof (induction xs arbitrary: m)
  case Nil
  then show ?case by (simp add: deref_live)
next
  case (Cons x xs)
  show ?case
  proof (cases "x = FsRemove p")
    case True
    with dead_run [OF ref_inv_op [OF Cons.prems(1)] removed_op [OF Cons.prems(1,2)]] show ?thesis by simp
  next
    case False
    with Cons.IH [OF ref_inv_op [OF Cons.prems(1)] live_op [OF Cons.prems False]] show ?thesis by simp
  qed
qed

lemma ref_inv_run: "ref_inv m \<Longrightarrow> ref_inv (fold ref_op xs m)"
  by (induction xs arbitrary: m) (simp_all add: ref_inv_op)

section \<open>Properties\<close>

text \<open>
  C40. What \<open>get\<close> hands out can be read after the lock has been released exactly as long as nobody
  removes the path: whatever else other threads do to the table in between, the reference still
  reads the content that was stored when it was made; after a removal, even if the path has been
  added again, it reads memory that is gone.
\<close>

theorem reference_valid_until_removed:
  assumes "ref_get (fold ref_op before (ref_empty h)) path = (Success, Some n)"
  shows "deref (fold ref_op meanwhile (fold ref_op before (ref_empty h))) n
    = (if FsRemove path \<in> set meanwhile then Inl Undefined_Behaviour
       else Inr (the (fs_map (table (fold ref_op before (ref_empty h))) path)))"
proof -
  let ?m = "fold ref_op before (ref_empty h)"
  have m: "ref_inv ?m" by (rule ref_inv_run [OF ref_inv_empty])
  have g: "path \<in> dom (fs_map (table ?m))" "node_of ?m path = Some n"
    using assms by (auto simp: ref_get_def exists_iff split: if_splits)
  then obtain f where "fs_map (table ?m) path = Some f" by blast
  with reference_run [OF m g(2) this] show ?thesis by simp
qed

lemma reference_valid_until_removed_witness:
  "deref (fold ref_op [FsAdd ''/b'' ''y'', FsList] (fold ref_op [FsAdd ''/a'' ''x''] (ref_empty front_order))) 0 = Inr ''x''
    \<and> deref (fold ref_op [FsRemove ''/a'', FsAdd ''/a'' ''x''] (fold ref_op [FsAdd ''/a'' ''x''] (ref_empty front_order))) 0
      = Inl Undefined_Behaviour"
proof -
  have g: "ref_get (fold ref_op [FsAdd ''/a'' ''x''] (ref_empty front_order)) ''/a'' = (Success, Some 0)"
    "fs_map (table (fold ref_op [FsAdd ''/a'' ''x''] (ref_empty front_order))) ''/a'' = Some ''x''"
    by (simp_all add: ref_get_def ref_add_def fs_add_def ref_empty_def fs_empty_def exists_def fs_map_def)
  show ?thesis
    using reference_valid_until_removed [OF g(1), of "[FsAdd ''/b'' ''y'', FsList]"]
      reference_valid_until_removed [OF g(1), of "[FsRemove ''/a'', FsAdd ''/a'' ''x'']"] g(2)
    by simp
qed

end
