(* ===== verification/Utils.thy ===== *)
theory Utils
  imports Storage_Prelude
begin

text \<open>
  \<^verbatim>\<open>utils/src/utils.cpp\<close>: string views with their searches and substrings, \<open>split\<close> and
  the case conversions. \<open>decode_base64\<close> has a theory of its own. The facts about \<open>split\<close>
  (it returns whenever the delimiter is not empty, loses nothing, and cuts at every
  delimiter) are what the two request parsers rest on.
\<close>

section \<open>String views\<close>

text \<open>
  A \<^verbatim>\<open>std::string_view\<close> is a window on a buffer. \<open>sv_chars\<close> is what it shows and
  \<open>sv_after\<close> is what the buffer holds behind it: \<^verbatim>\<open>data()\<close> of a view is not terminated at
  the view's end, so \<^verbatim>\<open>std::atoi(view.data())\<close> reads on into \<open>sv_after\<close>.
\<close>

record string_view =
  sv_chars :: string
  sv_after :: string

definition view_of :: "string \<Rightarrow> string_view" where
  "view_of s = \<lparr>sv_chars = s, sv_after = []\<rparr>"

definition substr :: "string_view \<Rightarrow> nat \<Rightarrow> nat \<Rightarrow> string_view" where
  "substr v pos n =
     \<lparr>sv_chars = take n (drop pos (sv_chars v)),
      sv_after = drop n (drop pos (sv_chars v)) @ sv_after v\<rparr>"

definition sv_data :: "string_view \<Rightarrow> string" where
  "sv_data v = sv_chars v @ sv_after v"

lemma view_of_sel [simp]: "sv_chars (view_of s) = s" "sv_after (view_of s) = []"
  by (simp_all add: view_of_def)

section \<open>Searching: \<open>find\<close>\<close>

text \<open>\<open>search pat xs i\<close> is the first place of \<open>pat\<close> in \<open>xs\<close>, counted from \<open>i\<close>.\<close>

fun search :: "string \<Rightarrow> string \<Rightarrow> nat \<Rightarrow> nat option" where
  "search pat [] i = (if pat = [] then Some i else None)"
| "search pat (x # xs) i =
     (if take (length pat) (x # xs) = pat then Some i else search pat xs (Suc i))"

text \<open>\<^verbatim>\<open>text.find(pat, pos)\<close>, with \<open>None\<close> for \<^verbatim>\<open>npos\<close>.\<close>

definition str_find :: "string \<Rightarrow> string \<Rightarrow> nat \<Rightarrow> nat option" where
  "str_find text pat pos = (if pos \<le> length text then search pat (drop pos text) pos else None)"

lemma search_shift: "search pat xs i = map_option (\<lambda>k. k + i) (search pat xs 0)"
proof (induction xs arbitrary: i)
  case Nil
  then show ?case by simp
next
  case (Cons x xs)
  have "search pat xs (Suc 0) = map_option Suc (search pat xs 0)"
    using Cons.IH [of "Suc 0"] by (simp cong: map_option_cong)
  moreover have "search pat xs (Suc i) = map_option (\<lambda>k. k + Suc i) (search pat xs 0)"
    by (rule Cons.IH)
  ultimately show ?case by (simp add: option.map_comp comp_def)
qed

lemma search_Some:
  "search pat xs i = Some k \<Longrightarrow>
     i \<le> k \<and> k - i + length pat \<le> length xs \<and> take (length pat) (drop (k - i) xs) = pat"
proof (induction xs arbitrary: i)
  case Nil
  then show ?case by (auto split: if_splits)
next
  case (Cons x xs)
  show ?case
  proof (cases "take (length pat) (x # xs) = pat")
    case True
    then have "length pat \<le> length (x # xs)" by (metis length_take min.cobounded1)
    with True Cons.prems show ?thesis by simp
  next
    case False
    with Cons.prems have s: "search pat xs (Suc i) = Some k" by simp
    from Cons.IH [OF s] obtain j where "k = Suc i + j"
      using le_Suc_ex by blast
    with Cons.IH [OF s] show ?thesis by simp
  qed
qed

lemma search_split:
  assumes "search pat xs 0 = Some k"
  shows "xs = take k xs @ pat @ drop (k + length pat) xs"
proof -
  from search_Some [OF assms] have "take (length pat) (drop k xs) = pat" by simp
  then have "drop k xs = pat @ drop (length pat) (drop k xs)"
    by (metis append_take_drop_id)
  then show ?thesis by (metis append_take_drop_id drop_drop add.commute)
qed

lemma search_first:
  "search pat xs i = Some k \<Longrightarrow> i \<le> j \<Longrightarrow> j < k \<Longrightarrow>
     take (length pat) (drop (j - i) xs) \<noteq> pat"
proof (induction xs arbitrary: i)
  case Nil
  then show ?case by (auto split: if_splits)
next
  case (Cons x xs)
  show ?case
  proof (cases "j = i")
    case True
    with Cons.prems show ?thesis by (auto split: if_splits simp del: take_Suc_Cons)
  next
    case False
    with Cons.prems have s: "search pat xs (Suc i) = Some k" and j: "Suc i \<le> j"
      by (auto split: if_splits)
    from j obtain d where "j = Suc i + d" using le_Suc_ex by blast
    with Cons.IH [OF s j Cons.prems(3)] show ?thesis by simp
  qed
qed

lemma search_None:
  "search pat xs i = None \<Longrightarrow> j \<le> length xs \<Longrightarrow> take (length pat) (drop j xs) \<noteq> pat"
proof (induction xs arbitrary: i j)
  case Nil
  then show ?case by (auto split: if_splits)
next
  case (Cons x xs)
  then show ?case by (cases j) (auto split: if_splits simp del: take_Suc_Cons)
qed

text \<open>\<open>occurs pat xs\<close>: the pattern is somewhere in the text.\<close>

definition occurs :: "string \<Rightarrow> string \<Rightarrow> bool" where
  "occurs pat xs \<longleftrightarrow> search pat xs 0 \<noteq> None"

lemma occurs_iff: "occurs pat xs \<longleftrightarrow> (\<exists>us vs. xs = us @ pat @ vs)"
proof
  assume "occurs pat xs"
  then obtain k where "search pat xs 0 = Some k" by (auto simp: occurs_def)
  then show "\<exists>us vs. xs = us @ pat @ vs" using search_split by blast
next
  assume "\<exists>us vs. xs = us @ pat @ vs"
  then obtain us vs where "xs = us @ pat @ vs" by blast
  then have "take (length pat) (drop (length us) xs) = pat" and "length us \<le> length xs" by simp_all
  then show "occurs pat xs" using search_None by (fastforce simp: occurs_def)
qed

lemma occurs_append1: "occurs pat xs \<Longrightarrow> occurs pat (xs @ ys)"
  by (metis occurs_iff append_assoc)

lemma search_append:
  assumes "search pat xs i = Some k"
  shows "search pat (xs @ ys) i = Some k"
  using assms
proof (induction xs arbitrary: i)
  case Nil
  then show ?case by (cases ys) (auto split: if_splits)
next
  case (Cons x xs)
  from search_Some [OF Cons.prems] have "length pat \<le> length (x # xs)" by simp
  then have "take (length pat) (x # xs @ ys) = take (length pat) (x # xs)"
    using take_append [of "length pat" "x # xs" ys] by simp
  with Cons show ?case by (auto split: if_splits)
qed

text \<open>The start of every \<open>substr\<close> call in \<open>split\<close> lies inside the text.\<close>

lemma str_find_bound:
  assumes "str_find text pat pos = Some k"
  shows "pos \<le> k \<and> k + length pat \<le> length text"
proof -
  from assms have le: "pos \<le> length text" and s: "search pat (drop pos text) pos = Some k"
    by (auto simp: str_find_def split: if_splits)
  from search_Some [OF s] le show ?thesis by auto
qed

section \<open>\<open>split\<close>\<close>

text \<open>
  The loop of \<open>split\<close>: \<open>fin\<close> and \<open>start\<close> are its two variables (\<^verbatim>\<open>end\<close> is a
  keyword). With an empty delimiter it finds the same place for ever, so it is a partial
  function; \<open>split_returns\<close> says that every other call returns.
\<close>

partial_function (option) split_loop ::
    "string_view \<Rightarrow> string \<Rightarrow> nat option \<Rightarrow> nat \<Rightarrow> string_view list \<Rightarrow> string_view list option" where
  "split_loop text delimeter fin start tokens =
     (case fin of
        None \<Rightarrow> Some (tokens @ [substr text start (length (sv_chars text) - start)])
      | Some e \<Rightarrow>
          split_loop text delimeter
            (str_find (sv_chars text) delimeter (e + length delimeter))
            (e + length delimeter)
            (tokens @ [substr text start (e - start)]))"

declare split_loop.simps [code]

definition split :: "string_view \<Rightarrow> string \<Rightarrow> string_view list option" where
  "split text delimeter =
     (if sv_chars text = [] then Some []
      else split_loop text delimeter (str_find (sv_chars text) delimeter 0) 0 [])"

text \<open>
  What \<open>split\<close> computes, as a recursion on the text: cut at the first delimiter. This is the
  form the proofs about the parsers use.
\<close>

function tokens_of :: "string \<Rightarrow> string_view \<Rightarrow> string_view list" where
  "tokens_of d v =
     (if d = [] then [v]
      else case search d (sv_chars v) 0 of
        None \<Rightarrow> [v]
      | Some i \<Rightarrow> substr v 0 i # tokens_of d (substr v (i + length d) (length (sv_chars v))))"
  by pat_completeness auto
termination
proof (relation "measure (\<lambda>(d, v). length (sv_chars v))")
  fix d :: string and v :: string_view and i :: nat
  assume "d \<noteq> []" and "search d (sv_chars v) 0 = Some i"
  then show "((d, substr v (i + length d) (length (sv_chars v))), d, v)
      \<in> measure (\<lambda>(d, v). length (sv_chars v))"
    using search_Some [of d "sv_chars v" 0 i] by (cases d) (auto simp: substr_def)
qed simp

declare tokens_of.simps [simp del]

lemma tokens_of_None: "search d (sv_chars v) 0 = None \<Longrightarrow> tokens_of d v = [v]"
  by (subst tokens_of.simps) simp

lemma tokens_of_Some:
  "d \<noteq> [] \<Longrightarrow> search d (sv_chars v) 0 = Some i \<Longrightarrow>
     tokens_of d v = substr v 0 i # tokens_of d (substr v (i + length d) (length (sv_chars v)))"
  by (subst tokens_of.simps) simp

lemma tokens_of_nonempty [simp]: "tokens_of d v \<noteq> []"
  by (subst tokens_of.simps) (simp split: option.splits)

lemma substr_whole [simp]: "substr v 0 (length (sv_chars v)) = v"
  by (simp add: substr_def)

lemma substr_tail:
  "start \<le> e \<Longrightarrow>
     substr (substr v start (length (sv_chars v))) (e - start)
       (length (sv_chars (substr v start (length (sv_chars v))))) =
     substr v e (length (sv_chars v))"
  by (simp add: substr_def)

lemma substr_head:
  "start \<le> e \<Longrightarrow> e \<le> length (sv_chars v) \<Longrightarrow>
     substr (substr v start (length (sv_chars v))) 0 (e - start) = substr v start (e - start)"
  by (simp add: substr_def)

lemma substr_rest:
  "substr v start (length (sv_chars v) - start) = substr v start (length (sv_chars v))"
  by (simp add: substr_def)

text \<open>The loop from any point on: what it has found, then the tokens of what is left.\<close>

lemma split_loop_tokens:
  assumes "d \<noteq> []" and "start \<le> length (sv_chars v)"
  shows "split_loop v d (str_find (sv_chars v) d start) start tokens =
    Some (tokens @ tokens_of d (substr v start (length (sv_chars v))))"
  using assms(2)
proof (induction "length (sv_chars v) - start" arbitrary: start tokens rule: less_induct)
  case less
  let ?n = "length (sv_chars v)" and ?w = "substr v start (length (sv_chars v))"
  have w: "sv_chars ?w = drop start (sv_chars v)" by (simp add: substr_def)
  have f: "str_find (sv_chars v) d start = map_option (\<lambda>k. k + start) (search d (sv_chars ?w) 0)"
    using less.prems by (simp add: str_find_def w search_shift [of d _ start])
  show ?case
  proof (cases "search d (sv_chars ?w) 0")
    case None
    with f show ?thesis
      by (subst split_loop.simps) (simp add: tokens_of_None substr_rest)
  next
    case (Some k)
    let ?e = "k + start"
    from f Some have fe: "str_find (sv_chars v) d start = Some ?e" by simp
    from str_find_bound [OF fe] have b: "?e + length d \<le> ?n" by simp
    have "split_loop v d (str_find (sv_chars v) d start) start tokens =
        split_loop v d (str_find (sv_chars v) d (?e + length d)) (?e + length d)
          (tokens @ [substr v start (?e - start)])"
      by (subst split_loop.simps) (simp add: fe)
    also have "\<dots> = Some ((tokens @ [substr v start (?e - start)]) @
        tokens_of d (substr v (?e + length d) ?n))"
      using assms(1) b by (intro less.hyps) (cases d; simp)+
    also have "\<dots> = Some (tokens @ tokens_of d ?w)"
      using assms(1) Some b substr_tail [of start "?e + length d" v] substr_head [of start ?e v]
      by (simp add: tokens_of_Some add.assoc add.commute add.left_commute)
    finally show ?thesis .
  qed
qed

lemma split_tokens:
  "d \<noteq> [] \<Longrightarrow> split v d = Some (if sv_chars v = [] then [] else tokens_of d v)"
  by (simp add: split_def split_loop_tokens)

text \<open>A call of \<open>split\<close> inside code that needs its result.\<close>

definition run_split :: "string_view \<Rightarrow> string \<Rightarrow> string_view list result" where
  "run_split v d = (case split v d of None \<Rightarrow> Inl Diverges | Some ts \<Rightarrow> Inr ts)"

lemma run_split [simp]:
  "d \<noteq> [] \<Longrightarrow>
     run_split v d = Inr (if sv_chars v = [] then [] else tokens_of d v)"
  by (simp add: run_split_def split_tokens)

subsection \<open>What the tokens are\<close>

fun join :: "string \<Rightarrow> string list \<Rightarrow> string" where
  "join d [] = []"
| "join d [t] = t"
| "join d (t # ts) = t @ d @ join d ts"

lemma join_Cons: "ts \<noteq> [] \<Longrightarrow> join d (t # ts) = t @ d @ join d ts"
  by (cases ts) simp_all

lemma join_tokens_of: "join d (map sv_chars (tokens_of d v)) = sv_chars v"
proof (induction d v rule: tokens_of.induct)
  case (1 d v)
  show ?case
  proof (cases "d = [] \<or> search d (sv_chars v) 0 = None")
    case True
    then show ?thesis by (subst tokens_of.simps) auto
  next
    case False
    then obtain i where d: "d \<noteq> []" and i: "search d (sv_chars v) 0 = Some i" by blast
    let ?r = "substr v (i + length d) (length (sv_chars v))"
    have "join d (map sv_chars (tokens_of d v)) =
        sv_chars (substr v 0 i) @ d @ join d (map sv_chars (tokens_of d ?r))"
      using d i by (simp add: tokens_of_Some join_Cons)
    also have "\<dots> = sv_chars (substr v 0 i) @ d @ sv_chars ?r"
      using "1.IH" [OF d i] by simp
    also have "\<dots> = sv_chars v"
      using search_split [OF i] by (simp add: substr_def)
    finally show ?thesis .
  qed
qed

lemma prefix_before_match:
  assumes "search d xs 0 = Some i" and "d \<noteq> []"
  shows "\<not> occurs d (take i xs)"
proof
  assume "occurs d (take i xs)"
  then obtain k where k: "search d (take i xs) 0 = Some k" by (auto simp: occurs_def)
  have "search d (take i xs @ drop i xs) 0 = Some k"
    by (rule search_append) (rule k)
  with assms(1) have "k = i" by simp
  with search_Some [OF k] assms(2) show False by (cases d) auto
qed

lemma tokens_of_no_delimiter:
  "d \<noteq> [] \<Longrightarrow> t \<in> set (tokens_of d v) \<Longrightarrow> \<not> occurs d (sv_chars t)"
proof (induction d v rule: tokens_of.induct)
  case (1 d v)
  show ?case
  proof (cases "search d (sv_chars v) 0")
    case None
    with "1.prems" show ?thesis by (auto simp: tokens_of_None occurs_def)
  next
    case (Some i)
    with "1.prems" consider "t = substr v 0 i"
      | "t \<in> set (tokens_of d (substr v (i + length d) (length (sv_chars v))))"
      by (auto simp: tokens_of_Some)
    then show ?thesis
    proof cases
      case 1
      with prefix_before_match [OF Some "1.prems"(1)] show ?thesis by (simp add: substr_def)
    next
      case 2
      with "1.IH" [OF "1.prems"(1) Some "1.prems"(1)] show ?thesis by blast
    qed
  qed
qed

text \<open>
  A text that is built by joining pieces is cut back into the pieces when the first
  delimiter behind each piece is the one \<open>join\<close> put there.
\<close>

definition clean :: "string \<Rightarrow> string \<Rightarrow> bool" where
  "clean d t \<longleftrightarrow> (\<forall>rest. search d (t @ d @ rest) 0 = Some (length t)) \<and> \<not> occurs d t"

lemma tokens_of_join:
  assumes "d \<noteq> []" and "ts \<noteq> []" and "\<forall>t \<in> set ts. clean d t"
  shows "map sv_chars (tokens_of d \<lparr>sv_chars = join d ts, sv_after = z\<rparr>) = ts"
  using assms(2,3)
proof (induction ts)
  case Nil
  then show ?case by simp
next
  case (Cons t ts)
  show ?case
  proof (cases ts)
    case Nil
    with Cons.prems show ?thesis by (simp add: tokens_of_None clean_def occurs_def)
  next
    case (Cons u us)
    let ?v = "\<lparr>sv_chars = t @ d @ join d ts, sv_after = z\<rparr>"
    from Cons.prems have s: "search d (sv_chars ?v) 0 = Some (length t)" by (simp add: clean_def)
    have "substr ?v (length t + length d) (length (sv_chars ?v)) =
        \<lparr>sv_chars = join d ts, sv_after = z\<rparr>"
      by (simp add: substr_def)
    with tokens_of_Some [OF assms(1) s] Cons Cons.IH Cons.prems show ?thesis
      by (simp add: join_Cons substr_def)
  qed
qed

lemma tokens_of_join_view:
  "sv_chars v = join d ts \<Longrightarrow> d \<noteq> [] \<Longrightarrow> ts \<noteq> [] \<Longrightarrow> \<forall>t \<in> set ts. clean d t \<Longrightarrow>
     map sv_chars (tokens_of d v) = ts"
  using tokens_of_join [of d ts "sv_after v"] by (cases v) simp

text \<open>A token is a window on the same buffer: what follows it is a delimiter, or what followed the text.\<close>

lemma tokens_of_after:
  "t \<in> set (tokens_of d v) \<Longrightarrow> sv_after t = sv_after v \<or> (\<exists>r. sv_after t = d @ r)"
proof (induction d v rule: tokens_of.induct)
  case (1 d v)
  show ?case
  proof (cases "d = [] \<or> search d (sv_chars v) 0 = None")
    case True
    with "1.prems" show ?thesis by (subst (asm) tokens_of.simps) (auto split: if_splits)
  next
    case False
    then obtain i where d: "d \<noteq> []" and i: "search d (sv_chars v) 0 = Some i" by blast
    have "drop i (sv_chars v) = d @ drop (i + length d) (sv_chars v)"
      using search_split [OF i] search_Some [OF i]
      by (metis add.commute append_take_drop_id drop_drop diff_zero)
    then have "sv_after (substr v 0 i) = d @ drop (i + length d) (sv_chars v) @ sv_after v"
      by (simp add: substr_def)
    moreover have "sv_after (substr v (i + length d) (length (sv_chars v))) = sv_after v"
      by (simp add: substr_def)
    ultimately show ?thesis
      using "1.IH" [OF d i] "1.prems" by (auto simp: tokens_of_Some [OF d i])
  qed
qed

lemma search_here [simp]: "search pat (pat @ xs) i = Some i"
  by (cases pat; cases xs) auto

lemma search_skip:
  "(\<And>j. j < length t \<Longrightarrow> take (length d) (drop j (t @ d @ rest)) \<noteq> d) \<Longrightarrow>
     search d (t @ d @ rest) i = Some (i + length t)"
proof (induction t arbitrary: i)
  case Nil
  show ?case by simp
next
  case (Cons x t)
  from Cons.prems [of 0] have "take (length d) (x # t @ d @ rest) \<noteq> d" by simp
  moreover have "search d (t @ d @ rest) (Suc i) = Some (Suc i + length t)"
  proof (rule Cons.IH)
    fix j
    assume "j < length t"
    then show "take (length d) (drop j (t @ d @ rest)) \<noteq> d"
      using Cons.prems [of "Suc j"] by simp
  qed
  ultimately show ?case by simp
qed

lemma occurs_single [simp]: "occurs [c] t \<longleftrightarrow> c \<in> set t"
  by (auto simp: occurs_iff in_set_conv_decomp)

lemma clean_single: "clean [c] t \<longleftrightarrow> c \<notin> set t"
proof
  assume c: "c \<notin> set t"
  have "search [c] (t @ [c] @ rest) 0 = Some (0 + length t)" for rest
  proof (rule search_skip)
    fix j
    assume "j < length t"
    then have "drop j (t @ [c] @ rest) = t ! j # drop (Suc j) (t @ [c] @ rest)"
      using Cons_nth_drop_Suc [of j "t @ [c] @ rest"] by (simp add: nth_append)
    moreover from \<open>j < length t\<close> c have "t ! j \<noteq> c" by (metis nth_mem)
    ultimately show "take (length [c]) (drop j (t @ [c] @ rest)) \<noteq> [c]" by simp
  qed
  with c show "clean [c] t" by (simp add: clean_def)
qed (simp add: clean_def)

text \<open>The line end, and what it takes for a line to hold none.\<close>

definition crlf :: string where
  "crlf = [CHR 0x0D, CHR 0x0A]"

lemma crlf_nonempty [simp]: "crlf \<noteq> []"
  by (simp add: crlf_def)

lemma length_crlf [simp]: "length crlf = 2"
  by (simp add: crlf_def)

lemma clean_crlf: "clean crlf t \<longleftrightarrow> \<not> occurs crlf t"
proof
  assume n: "\<not> occurs crlf t"
  have "search crlf (t @ crlf @ rest) 0 = Some (0 + length t)" for rest
  proof (rule search_skip)
    fix j
    assume j: "j < length t"
    show "take (length crlf) (drop j (t @ crlf @ rest)) \<noteq> crlf"
    proof (cases "Suc j = length t")
      case True
      then obtain c where "drop j t = [c]"
        using j by (metis Cons_nth_drop_Suc drop_all order_refl)
      with j show ?thesis by (simp add: crlf_def)
    next
      case False
      with j have "2 \<le> length (drop j t)" by simp
      moreover from j have "drop j (t @ crlf @ rest) = drop j t @ crlf @ rest" by simp
      ultimately have "take 2 (drop j (t @ crlf @ rest)) = take 2 (drop j t)"
        by (simp only: take_append) simp
      moreover from n have "take 2 (drop j t) \<noteq> crlf"
        by (metis append_take_drop_id occurs_iff)
      ultimately show ?thesis by (simp only: length_crlf not_False_eq_True)
    qed
  qed
  with n show "clean crlf t" by (simp add: clean_def)
qed (simp add: clean_def)

text \<open>\<open>take\<close> and \<open>drop\<close> a line off a stream of bytes.\<close>

definition read_line :: "string \<Rightarrow> (string \<times> string) option" where
  "read_line s = map_option (\<lambda>i. (take i s, drop (i + 2) s)) (search crlf s 0)"

lemma search_line: "\<not> occurs crlf line \<Longrightarrow> search crlf (line @ crlf @ rest) 0 = Some (length line)"
  using clean_crlf clean_def by blast

lemma read_line_line: "\<not> occurs crlf line \<Longrightarrow> read_line (line @ crlf @ rest) = Some (line, rest)"
  by (simp add: read_line_def search_line)

lemma read_line_shorter: "read_line s = Some (l, r) \<Longrightarrow> length r < length s"
  by (auto simp: read_line_def dest: search_Some)

lemma occurs_crlf_Cons:
  "c \<noteq> CHR 0x0D \<Longrightarrow> occurs crlf (c # s) \<longleftrightarrow> occurs crlf s"
proof -
  assume c: "c \<noteq> CHR 0x0D"
  then have "search crlf (c # s) 0 = search crlf s (Suc 0)" by (simp add: crlf_def)
  then show ?thesis by (simp add: occurs_def search_shift [of crlf s "Suc 0"])
qed

lemma occurs_crlf_append:
  "list_all (\<lambda>c. c \<noteq> CHR 0x0D) p \<Longrightarrow> occurs crlf (p @ s) \<longleftrightarrow> occurs crlf s"
  by (induction p) (simp_all add: occurs_crlf_Cons)

lemma occurs_crlf_Nil [simp]: "\<not> occurs crlf []"
  by (simp add: occurs_def)

lemma no_cr_no_crlf: "list_all (\<lambda>c. c \<noteq> CHR 0x0D) p \<Longrightarrow> \<not> occurs crlf p"
  using occurs_crlf_append [of p "[]"] by simp

lemma is_digit_not_cr: "is_digit c \<Longrightarrow> c \<noteq> CHR 0x0D"
  by (auto simp: is_digit_def)

lemma to_string_no_cr: "list_all (\<lambda>c. c \<noteq> CHR 0x0D) (to_string n)"
  using to_string_digits [of n] by (auto simp: list_all_iff dest: is_digit_not_cr)

lemma to_string_3:
  assumes "100 \<le> n" and "n < 1000"
  shows "\<exists>a b c. to_string n = [a, b, c]"
proof -
  from assms have "\<not> n < 10" "\<not> n div 10 < 10" "n div 10 div 10 < 10" by simp_all
  then show ?thesis
    by (simp add: to_string.simps [of n] to_string.simps [of "n div 10"]
        to_string.simps [of "n div 10 div 10"])
qed

section \<open>Case conversion\<close>

text \<open>
  \<^verbatim>\<open>::tolower\<close> and \<^verbatim>\<open>::toupper\<close> in the C locale, which the program never leaves: the 26
  ASCII letters and nothing else.
\<close>

definition tolower :: "char \<Rightarrow> char" where
  "tolower c = (let n = of_char c :: nat in if 65 \<le> n \<and> n \<le> 90 then char_of (n + 32) else c)"

definition toupper :: "char \<Rightarrow> char" where
  "toupper c = (let n = of_char c :: nat in if 97 \<le> n \<and> n \<le> 122 then char_of (n - 32) else c)"

definition toLowerCase :: "string \<Rightarrow> string" where
  "toLowerCase text = map tolower text"

definition toUpperCase :: "string \<Rightarrow> string" where
  "toUpperCase text = map toupper text"

lemma tolower_idem [simp]: "tolower (tolower c) = tolower c"
  by (auto simp: tolower_def Let_def)

lemma toupper_idem [simp]: "toupper (toupper c) = toupper c"
  by (auto simp: toupper_def Let_def)

lemma toupper_tolower [simp]: "toupper (tolower c) = toupper c"
  by (auto simp: tolower_def toupper_def Let_def)

lemma toLowerCase_idem [simp]: "toLowerCase (toLowerCase s) = toLowerCase s"
  by (simp add: toLowerCase_def)

lemma toUpperCase_toLowerCase [simp]: "toUpperCase (toLowerCase s) = toUpperCase s"
  by (simp add: toLowerCase_def toUpperCase_def)

lemma length_case_conversion [simp]:
  "length (toLowerCase s) = length s" "length (toUpperCase s) = length s"
  by (simp_all add: toLowerCase_def toUpperCase_def)

section \<open>Properties\<close>

text \<open>
  With an empty delimiter the search finds it again at the same place, for ever.
\<close>

lemma str_find_empty: "e \<le> length t \<Longrightarrow> str_find t [] e = Some e"
  by (cases "drop e t") (simp_all add: str_find_def)

lemma split_loop_empty:
  assumes "split_loop v [] (Some e) start ts = Some r" and "e \<le> length (sv_chars v)"
  shows False
proof -
  have "d = [] \<longrightarrow> (\<forall>e. fin = Some e \<longrightarrow> \<not> e \<le> length (sv_chars v))"
    if "split_loop v d fin start ts = Some r" for v d fin start ts r
    using that
  proof (rule split_loop.raw_induct [rotated, of v d fin start ts r])
    fix loop :: "string_view \<Rightarrow> string \<Rightarrow> nat option \<Rightarrow> nat \<Rightarrow> string_view list \<Rightarrow> string_view list option"
      and v d fin start ts r
    assume hyp: "\<And>v d fin start ts r. loop v d fin start ts = Some r \<Longrightarrow>
        d = [] \<longrightarrow> (\<forall>e. fin = Some e \<longrightarrow> \<not> e \<le> length (sv_chars v))"
      and body: "(case fin of
          None \<Rightarrow> Some (ts @ [substr v start (length (sv_chars v) - start)])
        | Some e \<Rightarrow> loop v d (str_find (sv_chars v) d (e + length d)) (e + length d)
            (ts @ [substr v start (e - start)])) = Some r"
    show "d = [] \<longrightarrow> (\<forall>e. fin = Some e \<longrightarrow> \<not> e \<le> length (sv_chars v))"
      using body hyp by (auto simp: str_find_empty)
  qed
  with assms show False by blast
qed

text \<open>
  C26. \<open>split\<close> on a delimiter that is not empty returns, and cuts the text without loss: joined
  again with the delimiter the tokens are the text, and no token holds the delimiter.
\<close>

theorem split_cuts:
  assumes "d \<noteq> []" and "sv_chars v \<noteq> []"
  shows "\<exists>ts. split v d = Some ts \<and> join d (map sv_chars ts) = sv_chars v
    \<and> (\<forall>t \<in> set ts. \<not> occurs d (sv_chars t))"
  using assms join_tokens_of [of d v] tokens_of_no_delimiter [OF assms(1)]
  by (intro exI [of _ "tokens_of d v"]) (simp add: split_tokens)

lemma split_cuts_witness:
  "\<exists>ts. split (view_of ''USER Nord'') '' '' = Some ts
    \<and> join '' '' (map sv_chars ts) = sv_chars (view_of ''USER Nord'')
    \<and> (\<forall>t \<in> set ts. \<not> occurs '' '' (sv_chars t))"
  by (rule split_cuts) simp_all

text \<open>
  \<open>split\<close> is the inverse of joining: pieces that hold no delimiter character, joined with
  it, are cut into the same pieces again.
\<close>

lemma split_join:
  assumes "\<forall>t \<in> set ts. c \<notin> set t" and "join [c] ts \<noteq> []"
  shows "map_option (map sv_chars) (split (view_of (join [c] ts)) [c]) = Some ts"
proof -
  have "ts \<noteq> []" using assms(2) by (cases ts) simp_all
  then have "map sv_chars (tokens_of [c] (view_of (join [c] ts))) = ts"
    using assms(1) by (intro tokens_of_join_view) (simp_all add: clean_single)
  with assms(2) show ?thesis by (simp add: split_tokens)
qed

text \<open>
  With an empty delimiter and a text that is not empty, \<open>split\<close> never returns: its loop
  goes round at the same place.
\<close>

lemma split_empty_delimiter:
  assumes "sv_chars v \<noteq> []"
  shows "split v [] = None"
proof (rule ccontr)
  assume "split v [] \<noteq> None"
  then obtain r where "split_loop v [] (str_find (sv_chars v) [] 0) 0 [] = Some r"
    using assms by (auto simp: split_def)
  then show False using split_loop_empty [of v 0 0 "[]" r] by (simp add: str_find_empty)
qed

end
