(* ===== verification/Detector.thy ===== *)
theory Detector
  imports Utils
begin

text \<open>
  \<^verbatim>\<open>protocol/detector/src\<close>: which protocol a message belongs to. The session calls it on what
  it read up to a line end; only there is it defined.
\<close>

datatype AppLayerProtocol = Http | Ftp

text \<open>
  With no line end in the buffer, \<^verbatim>\<open>end_of_line\<close> is \<^verbatim>\<open>npos\<close> and the view it makes is longer
  than the buffer.
\<close>

definition detectProtocol :: "string \<Rightarrow> AppLayerProtocol result" where
  "detectProtocol buffer =
     (case str_find buffer crlf 0 of
        None \<Rightarrow> Inl Undefined_Behaviour
      | Some end_of_line \<Rightarrow>
          let header = substr (view_of buffer) 0 end_of_line;
              http_pos = str_find (sv_chars header) ''HTTP'' 0
          in Inr (if http_pos = None then Ftp else Http))"

lemma str_find_0: "str_find text pat 0 = search pat text 0"
  by (simp add: str_find_def)

lemma detectProtocol_line:
  "\<not> occurs crlf line \<Longrightarrow>
     detectProtocol (line @ crlf @ rest) = Inr (if occurs ''HTTP'' line then Http else Ftp)"
  by (simp add: detectProtocol_def str_find_0 search_line substr_def occurs_def)

lemma detectProtocol_defined: "occurs crlf buffer \<Longrightarrow> \<exists>p. detectProtocol buffer = Inr p"
  by (auto simp: detectProtocol_def str_find_0 occurs_def Let_def)

end
