(* ===== verification/Ftp_Request.thy ===== *)
theory Ftp_Request
  imports Utils
begin

text \<open>
  \<^verbatim>\<open>protocol/ftp/request/src\<close>: the parser of one FTP command line.
\<close>

datatype FtpCommand =
    List | Retr | Stor | Dele | User | Pass | Pasv | Type | Cwd | Quit | Unrecognized

record FtpParser =
  ftp_valid :: bool
  ftp_command :: FtpCommand
  ftp_tokens :: "string_view list"

definition kCommandMap :: "string \<rightharpoonup> FtpCommand" where
  "kCommandMap = map_of [
     (''LIST'', List), (''RETR'', Retr),
     (''STOR'', Stor), (''DELE'', Dele),
     (''PASS'', Pass), (''USER'', User),
     (''PASV'', Pasv), (''TYPE'', Type),
     (''CWD'', Cwd),   (''QUIT'', Quit)]"

text \<open>
  The constructor. \<^verbatim>\<open>remove_suffix(2)\<close> needs two characters, and \<^verbatim>\<open>tokens_[0]\<close> needs a token:
  \<open>split\<close> gives none for an empty line. The exception of \<^verbatim>\<open>kCommandMap.at\<close> is caught in the
  constructor and leaves the command unrecognised, with the tokens already stored.
\<close>

definition parse_ftp :: "string \<Rightarrow> FtpParser result" where
  "parse_ftp buffer =
     (if buffer = [] then
        Inr \<lparr>ftp_valid = False, ftp_command = Unrecognized, ftp_tokens = []\<rparr>
      else if length buffer < 2 then Inl Undefined_Behaviour
      else
        let buffer_view = substr (view_of buffer) 0 (length buffer - 2) in
        and_then (run_split buffer_view '' '') (\<lambda>tokens.
        and_then (vector_at tokens 0) (\<lambda>first.
          case kCommandMap (toUpperCase (sv_chars first)) of
            None \<Rightarrow> Inr \<lparr>ftp_valid = False, ftp_command = Unrecognized, ftp_tokens = tokens\<rparr>
          | Some c \<Rightarrow> Inr \<lparr>ftp_valid = True, ftp_command = c, ftp_tokens = tokens\<rparr>)))"

text \<open>The parser's answer on a line with its end.\<close>

lemma parse_ftp_line:
  assumes "line \<noteq> []"
  defines "ts \<equiv> tokens_of '' '' \<lparr>sv_chars = line, sv_after = crlf\<rparr>"
  shows "parse_ftp (line @ crlf) = Inr
    (case kCommandMap (toUpperCase (sv_chars (hd ts))) of
       None \<Rightarrow> \<lparr>ftp_valid = False, ftp_command = Unrecognized, ftp_tokens = ts\<rparr>
     | Some c \<Rightarrow> \<lparr>ftp_valid = True, ftp_command = c, ftp_tokens = ts\<rparr>)"
proof -
  have "substr (view_of (line @ crlf)) 0 (length line) = \<lparr>sv_chars = line, sv_after = crlf\<rparr>"
    by (simp add: substr_def)
  moreover have "ts \<noteq> []" by (simp add: ts_def)
  then obtain t us where "ts = t # us" by (auto simp: neq_Nil_conv)
  ultimately show ?thesis
    using assms(1) by (simp add: parse_ftp_def ts_def [symmetric] split: option.splits)
qed

lemma parse_ftp_blank: "parse_ftp crlf = Inl Undefined_Behaviour"
  by (simp add: parse_ftp_def crlf_def substr_def)

lemma kCommandMap_recognised: "kCommandMap s = Some c \<Longrightarrow> c \<noteq> Unrecognized"
  by (auto simp: kCommandMap_def split: if_splits)

lemma parse_ftp_valid_command:
  assumes "parse_ftp buffer = Inr p" and "ftp_valid p"
  shows "ftp_command p \<noteq> Unrecognized \<and> ftp_tokens p \<noteq> []"
proof -
  from assms obtain ts t c where "vector_at ts 0 = Inr t"
      "kCommandMap (toUpperCase (sv_chars t)) = Some c"
      "p = \<lparr>ftp_valid = True, ftp_command = c, ftp_tokens = ts\<rparr>"
    by (auto simp: parse_ftp_def Let_def and_then_eq_Inr split: if_splits option.splits)
  then show ?thesis using kCommandMap_recognised by auto
qed

text \<open>A line of words: the tokens are the words.\<close>

lemma tokens_of_words:
  assumes "ws \<noteq> []" and "\<forall>w \<in> set ws. CHR '' '' \<notin> set w"
  shows "map sv_chars (tokens_of '' '' \<lparr>sv_chars = join '' '' ws, sv_after = z\<rparr>) = ws"
  using assms by (intro tokens_of_join) (auto simp: clean_single)

lemma parse_ftp_words:
  assumes "ws \<noteq> []" and "\<forall>w \<in> set ws. CHR '' '' \<notin> set w" and "join '' '' ws \<noteq> []"
    and "kCommandMap (toUpperCase (hd ws)) = Some c"
  shows "\<exists>ts. parse_ftp (join '' '' ws @ crlf) =
      Inr \<lparr>ftp_valid = True, ftp_command = c, ftp_tokens = ts\<rparr> \<and> map sv_chars ts = ws"
proof -
  let ?ts = "tokens_of '' '' \<lparr>sv_chars = join '' '' ws, sv_after = crlf\<rparr>"
  have m: "map sv_chars ?ts = ws" by (rule tokens_of_words [OF assms(1,2)])
  then have "sv_chars (hd ?ts) = hd ws" by (metis assms(1) list.map_sel(1) list.map_disc_iff)
  with assms(4) m show ?thesis by (auto simp: parse_ftp_line [OF assms(3)])
qed

end
