(* ===== verification/Ftp_Reply.thy ===== *)
theory Ftp_Reply
  imports Utils
begin

text \<open>
  \<^verbatim>\<open>protocol/ftp/response/src/ftp_response.hpp\<close>: reply codes and how a reply is put on the
  wire. A reply whose text holds no line end is read back from the front of a stream.
\<close>

datatype (plugins only: code) FtpReplyCode =
    COMMAND_OK
  | SYNTAX_ERROR_UNRECOGNIZED_COMMAND
  | SYNTAX_ERROR_PARAMETERS
  | COMMAND_NOT_IMPLEMENTED_SUPERFLOUS
  | COMMAND_NOT_IMPLEMENTED
  | COMMANDS_BAD_SEQUENCE
  | COMMAND_NOT_IMPLEMENTED_FOR_PARAMETER
  | REPLY_RESTART_MARKER
  | REPLY_SYSTEM_STATUS
  | DIRECTORY_STATUS
  | FILE_STATUS
  | HELP_MESSAGE
  | NAME_SYSTEM_TYPE
  | SERVICE_READY_IN_MINUTES
  | SERVICE_READY_FOR_NEW_USER
  | SERVICE_CLOSING_CONTROL_CONNECTION
  | SERVICE_NOT_AVAILABLE
  | DATA_CONNECTION_OPEN_TRANSFER_STARTING
  | DATA_CONNECTION_OPEN_NO_TRANSFER
  | ERROR_OPENING_DATA_CONNECTION
  | CLOSING_DATA_CONNECTION
  | TRANSFER_ABORTED
  | ENTERING_PASSIVE_MODE
  | USER_LOGGED_IN
  | NOT_LOGGED_IN
  | USER_NAME_OK
  | NEED_ACCOUNT_FOR_LOGIN
  | NEED_ACCOUNT_FOR_STORING_FILES
  | FILE_STATUS_OK_OPENING_DATA_CONNECTION
  | FILE_ACTION_COMPLETED
  | PATHNAME_CREATED
  | FILE_ACTION_NEEDS_FURTHER_INFO
  | FILE_ACTION_NOT_TAKEN
  | ACTION_NOT_TAKEN
  | ACTION_ABORTED_LOCAL_ERROR
  | ACTION_ABORTED_PAGE_TYPE_UNKNOWN
  | ACTION_NOT_TAKEN_INSUFFICIENT_STORAGE_SPACE
  | FILE_ACTION_ABORTED
  | ACTION_NOT_TAKEN_FILENAME_NOT_ALLOWED

text \<open>\<^verbatim>\<open>static_cast<int>(code)\<close>, as a table: the enumerators with their values.\<close>

definition ftp_code_table :: "(FtpReplyCode \<times> nat) list" where
  "ftp_code_table = [
     (COMMAND_OK, 200),
     (SYNTAX_ERROR_UNRECOGNIZED_COMMAND, 500),
     (SYNTAX_ERROR_PARAMETERS, 501),
     (COMMAND_NOT_IMPLEMENTED_SUPERFLOUS, 202),
     (COMMAND_NOT_IMPLEMENTED, 502),
     (COMMANDS_BAD_SEQUENCE, 503),
     (COMMAND_NOT_IMPLEMENTED_FOR_PARAMETER, 504),
     (REPLY_RESTART_MARKER, 110),
     (REPLY_SYSTEM_STATUS, 211),
     (DIRECTORY_STATUS, 212),
     (FILE_STATUS, 213),
     (HELP_MESSAGE, 214),
     (NAME_SYSTEM_TYPE, 215),
     (SERVICE_READY_IN_MINUTES, 120),
     (SERVICE_READY_FOR_NEW_USER, 220),
     (SERVICE_CLOSING_CONTROL_CONNECTION, 221),
     (SERVICE_NOT_AVAILABLE, 421),
     (DATA_CONNECTION_OPEN_TRANSFER_STARTING, 125),
     (DATA_CONNECTION_OPEN_NO_TRANSFER, 225),
     (ERROR_OPENING_DATA_CONNECTION, 425),
     (CLOSING_DATA_CONNECTION, 226),
     (TRANSFER_ABORTED, 426),
     (ENTERING_PASSIVE_MODE, 227),
     (USER_LOGGED_IN, 230),
     (NOT_LOGGED_IN, 530),
     (USER_NAME_OK, 331),
     (NEED_ACCOUNT_FOR_LOGIN, 332),
     (NEED_ACCOUNT_FOR_STORING_FILES, 532),
     (FILE_STATUS_OK_OPENING_DATA_CONNECTION, 150),
     (FILE_ACTION_COMPLETED, 250),
     (PATHNAME_CREATED, 257),
     (FILE_ACTION_NEEDS_FURTHER_INFO, 350),
     (FILE_ACTION_NOT_TAKEN, 450),
     (ACTION_NOT_TAKEN, 550),
     (ACTION_ABORTED_LOCAL_ERROR, 451),
     (ACTION_ABORTED_PAGE_TYPE_UNKNOWN, 551),
     (ACTION_NOT_TAKEN_INSUFFICIENT_STORAGE_SPACE, 452),
     (FILE_ACTION_ABORTED, 552),
     (ACTION_NOT_TAKEN_FILENAME_NOT_ALLOWED, 553)]"

definition ftp_code :: "FtpReplyCode \<Rightarrow> nat" where
  "ftp_code c = (case map_of ftp_code_table c of Some n \<Rightarrow> n | None \<Rightarrow> 0)"

record FtpResponse =
  ftp_reply_code :: FtpReplyCode
  ftp_text :: string

text \<open>The two constructors and \<^verbatim>\<open>operator std::string\<close>.\<close>

definition FtpResponse2 :: "FtpReplyCode \<Rightarrow> string \<Rightarrow> FtpResponse" where
  "FtpResponse2 code text = \<lparr>ftp_reply_code = code, ftp_text = text\<rparr>"

definition FtpResponse1 :: "FtpReplyCode \<Rightarrow> FtpResponse" where
  "FtpResponse1 code = \<lparr>ftp_reply_code = code, ftp_text = ''''\<rparr>"

definition ftp_serialise :: "FtpResponse \<Rightarrow> string" where
  "ftp_serialise r = to_string (ftp_code (ftp_reply_code r)) @ '' '' @ ftp_text r @ crlf"

section \<open>Reading a reply back\<close>

definition ftp_code_of :: "nat \<Rightarrow> FtpReplyCode option" where
  "ftp_code_of n = map_of (map prod.swap ftp_code_table) n"

lemma ftp_code_of_code: "ftp_code_of (ftp_code c) = Some c"
  by (cases c) (simp_all add: ftp_code_of_def ftp_code_def ftp_code_table_def)

lemma ftp_code_range: "100 \<le> ftp_code c \<and> ftp_code c < 600"
  by (cases c) (simp_all add: ftp_code_def ftp_code_table_def)

lemma ftp_code_inject [simp]: "ftp_code a = ftp_code b \<longleftrightarrow> a = b"
  by (metis ftp_code_of_code option.inject)

instantiation FtpReplyCode :: linorder
begin

definition less_eq_FtpReplyCode :: "FtpReplyCode \<Rightarrow> FtpReplyCode \<Rightarrow> bool" where
  "less_eq_FtpReplyCode a b \<longleftrightarrow> ftp_code a \<le> ftp_code b"

definition less_FtpReplyCode :: "FtpReplyCode \<Rightarrow> FtpReplyCode \<Rightarrow> bool" where
  "less_FtpReplyCode a b \<longleftrightarrow> ftp_code a < ftp_code b"

instance
  by standard (auto simp: less_eq_FtpReplyCode_def less_FtpReplyCode_def)

end

text \<open>One line: three digits, a space, and the text up to the line end.\<close>

definition read_reply :: "string \<Rightarrow> (FtpResponse \<times> string) option" where
  "read_reply s =
     (case search crlf s 0 of
        None \<Rightarrow> None
      | Some i \<Rightarrow>
          if i < 4 \<or> s ! 3 \<noteq> CHR '' '' then None
          else map_option (\<lambda>c. (\<lparr>ftp_reply_code = c, ftp_text = drop 4 (take i s)\<rparr>, drop (i + 2) s))
                 (ftp_code_of (read_dec (take 3 s))))"

lemma read_reply_serialise:
  assumes "\<not> occurs crlf (ftp_text r)"
  shows "read_reply (ftp_serialise r @ rest) = Some (r, rest)"
proof -
  let ?n = "ftp_code (ftp_reply_code r)"
  obtain a b c where abc: "to_string ?n = [a, b, c]"
    using to_string_3 [of ?n] ftp_code_range [of "ftp_reply_code r"] by auto
  have nd: "a \<noteq> CHR 0x0D" "b \<noteq> CHR 0x0D" "c \<noteq> CHR 0x0D"
    using to_string_no_cr [of ?n] abc by simp_all
  let ?l = "a # b # c # CHR '' '' # ftp_text r"
  have "\<not> occurs crlf ?l" using assms nd by (simp add: occurs_crlf_Cons)
  then have s: "search crlf (?l @ crlf @ rest) 0 = Some (length ?l)" by (rule search_line)
  have e: "ftp_serialise r @ rest = ?l @ crlf @ rest" by (simp add: ftp_serialise_def abc)
  have n: "read_dec [a, b, c] = ?n" using abc read_dec_to_string by metis
  show ?thesis
    unfolding read_reply_def e s using n by (simp add: ftp_code_of_code numeral_3_eq_3)
qed

interpretation ftp_reply: stream_codec ftp_serialise read_reply "\<lambda>r. \<not> occurs crlf (ftp_text r)"
  by unfold_locales (rule read_reply_serialise)

end
