(* ===== verification/Base64.thy ===== *)
theory Base64
  imports Utils
begin

text \<open>
  \<open>utils::decode_base64\<close> of \<^verbatim>\<open>utils/src/utils.cpp\<close>: the decoding table, the loop over the
  input with its two running indices, and the 24-bit group held in a \<^verbatim>\<open>std::uint32_t\<close>.
  The specifications are the encoder of RFC 4648, which the decoder undoes on every text that
  is not empty, and a reference decoder on numbers, with which it agrees on all 7-bit input.
\<close>

unbundle bit_operations_syntax

section \<open>The decoder\<close>

definition kDecodingTable :: "nat list" where
  "kDecodingTable = [
      64, 64, 64, 64, 64, 64, 64, 64, 64, 64, 64, 64, 64, 64, 64, 64, 64, 64,
      64, 64, 64, 64, 64, 64, 64, 64, 64, 64, 64, 64, 64, 64, 64, 64, 64, 64,
      64, 64, 64, 64, 64, 64, 64, 62, 64, 64, 64, 63, 52, 53, 54, 55, 56, 57,
      58, 59, 60, 61, 64, 64, 64, 64, 64, 64, 64, 0,  1,  2,  3,  4,  5,  6,
      7,  8,  9,  10, 11, 12, 13, 14, 15, 16, 17, 18, 19, 20, 21, 22, 23, 24,
      25, 64, 64, 64, 64, 64, 64, 26, 27, 28, 29, 30, 31, 32, 33, 34, 35, 36,
      37, 38, 39, 40, 41, 42, 43, 44, 45, 46, 47, 48, 49, 50, 51, 64, 64, 64,
      64, 64, 64, 64, 64, 64, 64, 64, 64, 64, 64, 64, 64, 64, 64, 64, 64, 64,
      64, 64, 64, 64, 64, 64, 64, 64, 64, 64, 64, 64, 64, 64, 64, 64, 64, 64,
      64, 64, 64, 64, 64, 64, 64, 64, 64, 64, 64, 64, 64, 64, 64, 64, 64, 64,
      64, 64, 64, 64, 64, 64, 64, 64, 64, 64, 64, 64, 64, 64, 64, 64, 64, 64,
      64, 64, 64, 64, 64, 64, 64, 64, 64, 64, 64, 64, 64, 64, 64, 64, 64, 64,
      64, 64, 64, 64, 64, 64, 64, 64, 64, 64, 64, 64, 64, 64, 64, 64, 64, 64,
      64, 64, 64, 64, 64, 64, 64, 64, 64, 64, 64, 64, 64, 64, 64, 64, 64, 64,
      64, 64, 64, 64]"

text \<open>
  One character of the input: an equals sign counts as 0, anything else goes through the
  table. \<^verbatim>\<open>char\<close> is signed on the platforms the program names, so a byte from 128 on is a
  negative index into the table.
\<close>

definition sextet_of :: "char \<Rightarrow> 32 word result" where
  "sextet_of c =
     (if c = CHR ''='' then Inr 0
      else if (of_char c :: nat) < 128 then Inr (of_nat (kDecodingTable ! of_char c))
      else Inl Undefined_Behaviour)"

definition sextet :: "string \<Rightarrow> nat \<Rightarrow> 32 word result" where
  "sextet input i = and_then (vector_at input i) sextet_of"

text \<open>\<^verbatim>\<open>if (j < output_length) output[j++] = byte\<close>.\<close>

definition put_byte :: "32 word \<Rightarrow> nat \<times> string \<Rightarrow> nat \<times> string" where
  "put_byte b jo =
     (case jo of (j, output) \<Rightarrow>
        if j < length output then (Suc j, output[j := char_of (unat (b AND 0xFF))])
        else (j, output))"

function decode_loop :: "string \<Rightarrow> nat \<Rightarrow> nat \<times> string \<Rightarrow> string result" where
  "decode_loop input i jo =
     (if i < length input then
        and_then (sextet input i) (\<lambda>a.
        and_then (sextet input (i + 1)) (\<lambda>b.
        and_then (sextet input (i + 2)) (\<lambda>c.
        and_then (sextet input (i + 3)) (\<lambda>d.
          let triple = push_bit (3 * 6) a + push_bit (2 * 6) b + push_bit (1 * 6) c
                + push_bit (0 * 6) d;
              jo1 = put_byte (drop_bit (2 * 8) triple) jo;
              jo2 = put_byte (drop_bit (1 * 8) triple) jo1;
              jo3 = put_byte (drop_bit (0 * 8) triple) jo2
          in decode_loop input (i + 4) jo3))))
      else Inr (snd jo))"
  by pat_completeness auto
termination
  by (relation "measure (\<lambda>(input, i, jo). length input - i)") auto

declare decode_loop.simps [simp del]

text \<open>
  The empty input passes the test on its length, and \<^verbatim>\<open>input[input_length - 1]\<close> then reads
  in front of the string.
\<close>

definition decode_base64 :: "string \<Rightarrow> string option result" where
  "decode_base64 input =
     (let input_length = length input in
      if input_length mod 4 \<noteq> 0 then Inr None
      else if input_length = 0 then Inl Undefined_Behaviour
      else
        let output_length0 = input_length div 4 * 3;
            output_length1 =
              (if input ! (input_length - 1) = CHR ''='' then output_length0 - 1
               else output_length0);
            output_length =
              (if input ! (input_length - 2) = CHR ''='' then output_length1 - 1
               else output_length1)
        in and_then (decode_loop input 0 (0, replicate output_length (CHR 0x00)))
             (\<lambda>output. Inr (Some output)))"

section \<open>The encoder of RFC 4648, as a specification\<close>

definition b64_alphabet :: string where
  "b64_alphabet = ''ABCDEFGHIJKLMNOPQRSTUVWXYZabcdefghijklmnopqrstuvwxyz0123456789+/''"

definition b64_char :: "nat \<Rightarrow> char" where
  "b64_char n = b64_alphabet ! n"

fun b64_encode :: "string \<Rightarrow> string" where
  "b64_encode [] = []"
| "b64_encode [x] =
     [b64_char (of_char x div 4), b64_char (of_char x mod 4 * 16), CHR ''='', CHR ''='']"
| "b64_encode [x, y] =
     [b64_char (of_char x div 4), b64_char (of_char x mod 4 * 16 + of_char y div 16),
      b64_char (of_char y mod 16 * 4), CHR ''='']"
| "b64_encode (x # y # z # s) =
     b64_char (of_char x div 4) # b64_char (of_char x mod 4 * 16 + of_char y div 16) #
     b64_char (of_char y mod 16 * 4 + of_char z div 64) # b64_char (of_char z mod 64) #
     b64_encode s"

section \<open>Decoding undoes encoding\<close>

lemma b64_table:
  "list_all (\<lambda>n. b64_char n \<noteq> CHR ''='' \<and> (of_char (b64_char n) :: nat) < 128
     \<and> kDecodingTable ! of_char (b64_char n) = n) [0..<64]"
  by code_simp

lemma b64_char_props:
  assumes "n < 64"
  shows "b64_char n \<noteq> CHR ''=''" "(of_char (b64_char n) :: nat) < 128"
    "kDecodingTable ! of_char (b64_char n) = n"
  using b64_table assms by (simp_all add: list_all_iff)

lemma sextet_of_char [simp]: "n < 64 \<Longrightarrow> sextet_of (b64_char n) = Inr (of_nat n)"
  by (simp add: sextet_of_def b64_char_props)

lemma sextet_of_padding [simp]: "sextet_of (CHR ''='') = Inr (of_nat 0)"
  by (simp add: sextet_of_def)

definition group24 :: "nat \<Rightarrow> nat \<Rightarrow> nat \<Rightarrow> nat \<Rightarrow> nat" where
  "group24 a b c d = a * 2 ^ 18 + b * 2 ^ 12 + c * 2 ^ 6 + d"

definition put_group :: "nat \<Rightarrow> nat \<times> string \<Rightarrow> nat \<times> string" where
  "put_group N jo =
     put_byte (drop_bit 0 (of_nat N)) (put_byte (drop_bit 8 (of_nat N))
       (put_byte (drop_bit 16 (of_nat N)) jo))"

text \<open>One round of the loop on four characters that the table knows.\<close>

lemma decode_loop_group:
  assumes "sextet_of c0 = Inr (of_nat a)" "sextet_of c1 = Inr (of_nat b)"
    and "sextet_of c2 = Inr (of_nat c)" "sextet_of c3 = Inr (of_nat d)"
  shows "decode_loop (pre @ [c0, c1, c2, c3] @ post) (length pre) jo =
    decode_loop ((pre @ [c0, c1, c2, c3]) @ post) (length (pre @ [c0, c1, c2, c3]))
      (put_group (group24 a b c d) jo)"
proof -
  have at: "vector_at (pre @ [c0, c1, c2, c3] @ post) (length pre) = Inr c0"
    "vector_at (pre @ [c0, c1, c2, c3] @ post) (Suc (length pre)) = Inr c1"
    "vector_at (pre @ [c0, c1, c2, c3] @ post) (Suc (Suc (length pre))) = Inr c2"
    "vector_at (pre @ [c0, c1, c2, c3] @ post) (Suc (Suc (Suc (length pre)))) = Inr c3"
    by (simp_all add: vector_at_def nth_append)
  have triple: "push_bit (3 * 6) (of_nat a) + push_bit (2 * 6) (of_nat b)
      + push_bit (1 * 6) (of_nat c) + push_bit (0 * 6) (of_nat d)
      = (of_nat (group24 a b c d) :: 32 word)"
    by (simp add: group24_def push_bit_eq_mult)
  show ?thesis
    using assms at triple
    by (subst decode_loop.simps) (simp add: sextet_def put_group_def Let_def eval_nat_numeral)
qed

lemma unat_low_byte:
  assumes "N < 2 ^ 32"
  shows "unat (drop_bit k (of_nat N :: 32 word) AND 0xFF) = N div 2 ^ k mod 256"
proof -
  have "drop_bit k (of_nat N :: 32 word) AND 0xFF = take_bit 8 (drop_bit k (of_nat N))"
    by (simp add: take_bit_eq_mask mask_eq_exp_minus_1)
  then have "unat (drop_bit k (of_nat N :: 32 word) AND 0xFF)
      = take_bit 8 (drop_bit k (unat (of_nat N :: 32 word)))"
    by (simp only: unsigned_take_bit_eq unat_drop_bit_eq)
  also have "unat (of_nat N :: 32 word) = N"
    using assms by (simp add: unat_of_nat)
  finally show ?thesis by (simp add: take_bit_eq_mod drop_bit_eq_div)
qed

lemma put_byte_room:
  "N < 2 ^ 32 \<Longrightarrow>
     put_byte (drop_bit k (of_nat N)) (length out, out @ z # zs) =
       (length (out @ [char_of (N div 2 ^ k)]), (out @ [char_of (N div 2 ^ k)]) @ zs)"
  by (simp add: put_byte_def unat_low_byte)

lemma put_byte_full: "put_byte b (length out, out) = (length out, out)"
  by (simp add: put_byte_def)

text \<open>The 24 bits of a group are the three bytes it was made from.\<close>

lemma group24_regroup:
  "group24 a (b * 16 + c) (d * 4 + e) f
    = (4 * a + b) * 2 ^ 16 + (16 * c + d) * 2 ^ 8 + (64 * e + f)"
  by (simp add: group24_def algebra_simps)

lemma group24_bytes:
  "group24 (x div 4) (x mod 4 * 16 + y div 16) (y mod 16 * 4 + z div 64) (z mod 64)
    = x * 2 ^ 16 + y * 2 ^ 8 + z"
  by (simp only: group24_regroup mult_div_mod_eq)

lemma group24_bounds:
  fixes x y z :: nat
  assumes "x < 256" "y < 256" "z < 256"
  shows "x div 4 < 64" "x mod 4 * 16 + y div 16 < 64" "y mod 16 * 4 + z div 64 < 64" "z mod 64 < 64"
proof -
  have "x mod 4 < 4" "y mod 16 < 16" "y div 16 < 16" "z div 64 < 4"
    using assms by (simp_all add: div_less_iff_less_mult)
  then show "x mod 4 * 16 + y div 16 < 64" "y mod 16 * 4 + z div 64 < 64" by linarith+
  show "x div 4 < 64" "z mod 64 < 64" using assms by (simp_all add: div_less_iff_less_mult)
qed

lemma three_bytes:
  fixes x y z :: nat
  assumes "x < 256" "y < 256" "z < 256"
  shows "(x * 2 ^ 16 + y * 2 ^ 8 + z) div 2 ^ 16 = x"
    "(x * 2 ^ 16 + y * 2 ^ 8 + z) div 2 ^ 8 mod 256 = y"
    "x * 2 ^ 16 + y * 2 ^ 8 + z < 2 ^ 32"
proof -
  have r: "y * 256 + z < 65536" using assms by linarith
  have "(x * 65536 + (y * 256 + z)) div 65536 = x + (y * 256 + z) div 65536"
    by (rule div_mult_self3) simp
  with r show "(x * 2 ^ 16 + y * 2 ^ 8 + z) div 2 ^ 16 = x" by (simp add: add.assoc)
  have "((x * 256 + y) * 256 + z) div 256 = (x * 256 + y) + z div 256"
    by (rule div_mult_self3) simp
  with assms have "((x * 256 + y) * 256 + z) div 256 mod 256 = y" by simp
  then show "(x * 2 ^ 16 + y * 2 ^ 8 + z) div 2 ^ 8 mod 256 = y" by (simp add: algebra_simps)
  show "x * 2 ^ 16 + y * 2 ^ 8 + z < 2 ^ 32" using r assms by simp
qed

text \<open>What a group writes, when there is room for three, two or one bytes of it.\<close>

lemma group_chars:
  fixes x y z :: nat
  assumes "x < 256" "y < 256" "z < 256" and "N = x * 2 ^ 16 + y * 2 ^ 8 + z"
  shows "N < 2 ^ 32" "char_of (N div 2 ^ 16) = (char_of x :: char)"
    "char_of (N div 2 ^ 8) = (char_of y :: char)" "char_of (N div 2 ^ 0) = (char_of z :: char)"
proof -
  note t = three_bytes [OF assms(1-3), folded assms(4)]
  show "N < 2 ^ 32" by (rule t)
  show "char_of (N div 2 ^ 16) = (char_of x :: char)" by (simp only: t)
  show "char_of (N div 2 ^ 8) = (char_of y :: char)" by (metis t(2) char_of_mod_256)
  have "N mod 256 = z" using assms by (simp add: mod_add_left_eq [symmetric])
  then show "char_of (N div 2 ^ 0) = (char_of z :: char)"
    by (metis char_of_mod_256 div_by_1 power_0)
qed

lemma put_group_3:
  assumes "x < 256" "y < 256" "z < 256" and "N = x * 2 ^ 16 + y * 2 ^ 8 + z"
  shows "put_group N (length out, out @ p # q # r # zs) =
    (length (out @ [char_of x, char_of y, char_of z]), (out @ [char_of x, char_of y, char_of z]) @ zs)"
  by (simp only: put_group_def put_byte_room group_chars [OF assms]) simp

lemma put_group_2:
  assumes "x < 256" "y < 256" "z < 256" and "N = x * 2 ^ 16 + y * 2 ^ 8 + z"
  shows "put_group N (length out, out @ [p, q]) =
    (length (out @ [char_of x, char_of y]), out @ [char_of x, char_of y])"
  by (simp only: put_group_def put_byte_room group_chars [OF assms])
    (simp add: put_byte_def)

lemma put_group_1:
  assumes "x < 256" "y < 256" "z < 256" and "N = x * 2 ^ 16 + y * 2 ^ 8 + z"
  shows "put_group N (length out, out @ [p]) =
    (length (out @ [char_of x]), out @ [char_of x])"
  by (simp only: put_group_def put_byte_room group_chars [OF assms])
    (simp add: put_byte_def)

lemma decode_loop_end: "decode_loop pre (length pre) (j, out) = Inr out"
  by (subst decode_loop.simps) simp

text \<open>The loop from any point on: it writes the bytes that the rest of the input encodes.\<close>

lemma decode_loop_encode:
  "decode_loop (pre @ b64_encode s) (length pre) (length out, out @ replicate (length s) (CHR 0x00))
    = Inr (out @ s)"
proof (induction s arbitrary: pre out rule: b64_encode.induct)
  case 1
  then show ?case by (simp add: decode_loop_end)
next
  case (2 x)
  let ?x = "of_char x :: nat"
  let ?q = "[b64_char (?x div 4), b64_char (?x mod 4 * 16), CHR ''='', CHR ''='']"
  let ?g = "group24 (?x div 4) (?x mod 4 * 16) 0 0"
  have g: "?g = ?x * 2 ^ 16 + 0 * 2 ^ 8 + 0"
    using group24_bytes [of ?x 0 0] by simp
  have "decode_loop (pre @ ?q @ []) (length pre) (length out, out @ [CHR 0x00]) =
      decode_loop ((pre @ ?q) @ []) (length (pre @ ?q)) (put_group ?g (length out, out @ [CHR 0x00]))"
    using group24_bounds [of ?x 0 0] by (intro decode_loop_group) simp_all
  also have "put_group ?g (length out, out @ [CHR 0x00]) = (length (out @ [x]), out @ [x])"
    by (subst put_group_1 [OF _ _ _ g]) simp_all
  finally show ?case by (simp only: append_Nil2 decode_loop_end) simp
next
  case (3 x y)
  let ?x = "of_char x :: nat" and ?y = "of_char y :: nat"
  let ?q = "[b64_char (?x div 4), b64_char (?x mod 4 * 16 + ?y div 16), b64_char (?y mod 16 * 4), CHR ''='']"
  let ?g = "group24 (?x div 4) (?x mod 4 * 16 + ?y div 16) (?y mod 16 * 4) 0"
  have g: "?g = ?x * 2 ^ 16 + ?y * 2 ^ 8 + 0"
    using group24_bytes [of ?x ?y 0] by simp
  have "decode_loop (pre @ ?q @ []) (length pre) (length out, out @ [CHR 0x00, CHR 0x00]) =
      decode_loop ((pre @ ?q) @ []) (length (pre @ ?q))
        (put_group ?g (length out, out @ [CHR 0x00, CHR 0x00]))"
    using group24_bounds [of ?x ?y 0] by (intro decode_loop_group) simp_all
  also have "put_group ?g (length out, out @ [CHR 0x00, CHR 0x00]) =
      (length (out @ [x, y]), out @ [x, y])"
    by (subst put_group_2 [OF _ _ _ g]) simp_all
  finally show ?case by (simp only: append_Nil2 decode_loop_end) simp
next
  case (4 x y z s)
  let ?x = "of_char x :: nat" and ?y = "of_char y :: nat" and ?z = "of_char z :: nat"
  let ?g = "group24 (?x div 4) (?x mod 4 * 16 + ?y div 16) (?y mod 16 * 4 + ?z div 64) (?z mod 64)"
  let ?q = "[b64_char (?x div 4), b64_char (?x mod 4 * 16 + ?y div 16),
      b64_char (?y mod 16 * 4 + ?z div 64), b64_char (?z mod 64)]"
  let ?zs = "replicate (length s) (CHR 0x00)"
  have "decode_loop (pre @ ?q @ b64_encode s) (length pre)
        (length out, out @ CHR 0x00 # CHR 0x00 # CHR 0x00 # ?zs) =
      decode_loop ((pre @ ?q) @ b64_encode s) (length (pre @ ?q))
        (put_group ?g (length out, out @ CHR 0x00 # CHR 0x00 # CHR 0x00 # ?zs))"
    using group24_bounds [of ?x ?y ?z] by (intro decode_loop_group) simp_all
  also have "put_group ?g (length out, out @ CHR 0x00 # CHR 0x00 # CHR 0x00 # ?zs) =
      (length (out @ [x, y, z]), (out @ [x, y, z]) @ ?zs)"
    by (subst put_group_3 [OF _ _ _ group24_bytes]) simp_all
  also have "decode_loop ((pre @ ?q) @ b64_encode s) (length (pre @ ?q)) \<dots> = Inr ((out @ [x, y, z]) @ s)"
    by (rule "4.IH")
  finally show ?case by simp
qed

text \<open>The lengths: four characters for three bytes, and the padding tells the last group's.\<close>

lemma length_b64_encode: "length (b64_encode s) = 4 * ((length s + 2) div 3)"
proof (induction s rule: b64_encode.induct)
  case (4 x y z s)
  have "(length (x # y # z # s) + 2) div 3 = Suc ((length s + 2) div 3)" by simp
  with 4 show ?case by simp
qed simp_all

lemma b64_encode_eq_Nil [simp]: "b64_encode s = [] \<longleftrightarrow> s = []"
  by (cases s rule: b64_encode.cases) simp_all

lemma b64_encode_append:
  "length s mod 3 = 0 \<Longrightarrow> b64_encode (s @ t) = b64_encode s @ b64_encode t"
  by (induction s rule: b64_encode.induct) simp_all

definition unpadded_length :: "string \<Rightarrow> nat" where
  "unpadded_length input =
     (let n0 = length input div 4 * 3;
          n1 = (if input ! (length input - 1) = CHR ''='' then n0 - 1 else n0)
      in if input ! (length input - 2) = CHR ''='' then n1 - 1 else n1)"

lemma unpadded_length_skip:
  "input \<noteq> [] \<Longrightarrow> length input mod 4 = 0 \<Longrightarrow>
     unpadded_length (a # b # c # d # input) = 3 + unpadded_length input"
proof -
  assume "input \<noteq> []" and "length input mod 4 = 0"
  then have l: "4 \<le> length input" by (cases "length input < 4") auto
  then have at: "(a # b # c # d # input) ! (length (a # b # c # d # input) - k) = input ! (length input - k)"
    if "k \<in> {1, 2}" for k
    using that by (auto simp: nth_Cons' not_less)
  have "2 \<le> length input div 4 * 3" using l by (cases "length input div 4") auto
  moreover have "(4 + length input) div 4 = Suc (length input div 4)" by simp
  ultimately show ?thesis
    using at [of 1] at [of 2]
    by (simp add: unpadded_length_def Let_def)
qed

lemma unpadded_length_encode:
  "s \<noteq> [] \<Longrightarrow> unpadded_length (b64_encode s) = length s"
proof (induction s rule: b64_encode.induct)
  case (4 x y z s)
  show ?case
  proof (cases "s = []")
    case True
    then show ?thesis
      using group24_bounds [of "of_char x" "of_char y" "of_char z"]
      by (simp add: unpadded_length_def b64_char_props)
  next
    case False
    with "4.IH" show ?thesis by (simp add: unpadded_length_skip length_b64_encode)
  qed
qed (use group24_bounds in \<open>simp_all add: unpadded_length_def b64_char_props\<close>)

lemma decode_base64_eq:
  "length input mod 4 = 0 \<Longrightarrow> input \<noteq> [] \<Longrightarrow>
     decode_base64 input = and_then
       (decode_loop input 0 (0, replicate (unpadded_length input) (CHR 0x00))) (\<lambda>out. Inr (Some out))"
  by (simp add: decode_base64_def unpadded_length_def Let_def)

lemma decode_encode: "s \<noteq> [] \<Longrightarrow> decode_base64 (b64_encode s) = Inr (Some s)"
  using decode_loop_encode [of "[]" s "[]"]
  by (simp add: decode_base64_eq length_b64_encode unpadded_length_encode)

section \<open>Base 64 as a codec\<close>

definition b64_read :: "string \<Rightarrow> string option" where
  "b64_read s = (case decode_base64 s of Inr r \<Rightarrow> r | Inl _ \<Rightarrow> None)"

interpretation b64: codec b64_encode b64_read "\<lambda>s. s \<noteq> []"
  by unfold_locales (simp add: b64_read_def decode_encode)

text \<open>What decides the outcome: the length, and whether every byte is below 128.\<close>

lemma decode_base64_bad_length: "length input mod 4 \<noteq> 0 \<Longrightarrow> decode_base64 input = Inr None"
  by (simp add: decode_base64_def)

lemma decode_base64_empty: "decode_base64 [] = Inl Undefined_Behaviour"
  by (simp add: decode_base64_def)

section \<open>Properties\<close>

text \<open>
  C24. The decoder undoes the encoding of RFC 4648, with its padding, on every text of bytes
  that is not empty.
\<close>

theorem base64_round_trip:
  assumes "s \<noteq> []"
  shows "decode_base64 (b64_encode s) = Inr (Some s)"
  using assms by (rule decode_encode)

lemma base64_round_trip_witness: "decode_base64 (b64_encode ''Nord:VPN'') = Inr (Some ''Nord:VPN'')"
  by (rule base64_round_trip) simp

text \<open>
  A reference for every input: a character stands for its place in the alphabet, or for 64 when
  it is not there; four characters make a number, and the number three bytes.
\<close>

definition b64_value :: "char \<Rightarrow> nat" where
  "b64_value c = (if c = CHR ''='' then 0 else length (takeWhile (\<lambda>x. x \<noteq> c) b64_alphabet))"

fun b64_bytes :: "string \<Rightarrow> string" where
  "b64_bytes (a # b # c # d # s) =
     (let N = group24 (b64_value a) (b64_value b) (b64_value c) (b64_value d)
      in char_of (N div 2 ^ 16) # char_of (N div 2 ^ 8) # char_of N # b64_bytes s)"
| "b64_bytes _ = []"

lemma table_values:
  "list_all (\<lambda>n. char_of n = CHR ''='' \<or> kDecodingTable ! n = length (takeWhile (\<lambda>x. x \<noteq> char_of n) b64_alphabet))
     [0..<128]"
  by code_simp

lemma sextet_of_value:
  assumes "(of_char c :: nat) < 128"
  shows "sextet_of c = Inr (of_nat (b64_value c))"
proof (cases "c = CHR ''=''")
  case False
  have "char_of (of_char c :: nat) = c" by simp
  with False assms table_values have "kDecodingTable ! of_char c = b64_value c"
    by (auto simp: list_all_iff b64_value_def dest!: bspec [where x = "of_char c"])
  with False assms show ?thesis by (simp add: sextet_of_def)
qed (simp add: b64_value_def)

lemma b64_value_bound: "b64_value c \<le> 64"
proof -
  have "length (takeWhile (\<lambda>x. x \<noteq> c) b64_alphabet) \<le> length b64_alphabet" by (rule length_takeWhile_le)
  then show ?thesis by (simp add: b64_value_def b64_alphabet_def)
qed

lemma group24_values: "group24 (b64_value a) (b64_value b) (b64_value c) (b64_value d) < 2 ^ 32"
  using b64_value_bound [of a] b64_value_bound [of b] b64_value_bound [of c] b64_value_bound [of d]
  by (simp add: group24_def)

text \<open>A group writes as many of its three bytes as there is room for.\<close>

lemma put_group_take:
  fixes out :: string
  assumes "N < 2 ^ 32"
  defines "w \<equiv> \<lambda>k. out @ take k [char_of (N div 2 ^ 16), char_of (N div 2 ^ 8), char_of N]"
  shows "put_group N (length out, out @ replicate k (CHR 0x00)) = (length (w k), w k @ replicate (k - 3) (CHR 0x00))"
proof -
  note room = put_byte_room [OF assms(1)]
  note full = put_byte_full
  let ?z = "CHR 0x00"
  consider "k = 0" | "k = 1" | "k = 2" | m where "k = Suc (Suc (Suc m))"
    by (metis One_nat_def Suc_1 not0_implies_Suc)
  then show ?thesis
  proof cases
    case 1
    then show ?thesis by (simp add: put_group_def w_def full)
  next
    case 2
    let ?o = "out @ [char_of (N div 2 ^ 16)]"
    have "put_group N (length out, out @ [?z])
        = put_byte (drop_bit 0 (of_nat N)) (put_byte (drop_bit 8 (of_nat N)) (length ?o, ?o @ []))"
      by (simp only: put_group_def room)
    also have "\<dots> = (length ?o, ?o)" by (simp only: append_Nil2 full)
    finally show ?thesis using 2 by (simp add: w_def)
  next
    case 3
    let ?o = "(out @ [char_of (N div 2 ^ 16)]) @ [char_of (N div 2 ^ 8)]"
    have "put_group N (length out, out @ [?z, ?z]) = put_byte (drop_bit 0 (of_nat N)) (length ?o, ?o @ [])"
      by (simp only: put_group_def room)
    also have "\<dots> = (length ?o, ?o)" by (simp only: append_Nil2 full)
    finally show ?thesis using 3 by (simp add: w_def numeral_2_eq_2)
  next
    case 4
    let ?zs = "replicate m ?z"
    have "put_group N (length out, out @ ?z # ?z # ?z # ?zs) = (length (w k), w k @ ?zs)"
      by (simp only: put_group_def room) (simp add: w_def 4)
    with 4 show ?thesis by simp
  qed
qed

lemma decode_loop_reference:
  "list_all (\<lambda>c. (of_char c :: nat) < 128) s \<Longrightarrow> length s mod 4 = 0 \<Longrightarrow>
     decode_loop (pre @ s) (length pre) (length out, out @ replicate k (CHR 0x00))
       = Inr (out @ take k (b64_bytes s) @ replicate (k - length (b64_bytes s)) (CHR 0x00))"
proof (induction s arbitrary: pre out k rule: b64_bytes.induct)
  case (1 a b c d s)
  let ?N = "group24 (b64_value a) (b64_value b) (b64_value c) (b64_value d)"
  let ?xs = "[char_of (?N div 2 ^ 16), char_of (?N div 2 ^ 8), char_of ?N]"
  let ?out = "out @ take k ?xs"
  have "decode_loop (pre @ [a, b, c, d] @ s) (length pre) (length out, out @ replicate k (CHR 0x00))
      = decode_loop ((pre @ [a, b, c, d]) @ s) (length (pre @ [a, b, c, d]))
          (put_group ?N (length out, out @ replicate k (CHR 0x00)))"
    using "1.prems"(1) by (intro decode_loop_group sextet_of_value) simp_all
  also have "put_group ?N (length out, out @ replicate k (CHR 0x00))
      = (length ?out, ?out @ replicate (k - 3) (CHR 0x00))"
    by (rule put_group_take [OF group24_values])
  also have "decode_loop ((pre @ [a, b, c, d]) @ s) (length (pre @ [a, b, c, d])) \<dots>
      = Inr (?out @ take (k - 3) (b64_bytes s) @ replicate (k - 3 - length (b64_bytes s)) (CHR 0x00))"
    using "1.prems" by (intro "1.IH") (simp_all add: Let_def)
  finally show ?case by (simp add: Let_def take_Cons' numeral_3_eq_3)
qed (simp_all add: decode_loop_end)

lemma length_b64_bytes: "length (b64_bytes s) = length s div 4 * 3"
proof (induction s rule: b64_bytes.induct)
  case (1 a b c d s)
  have "(4 + length s) div 4 = Suc (length s div 4)" by simp
  with 1 show ?case by (simp add: Let_def)
qed simp_all

lemma unpadded_length_le: "unpadded_length input \<le> length input div 4 * 3"
  by (simp add: unpadded_length_def Let_def)

text \<open>
  C25. On every input of 7-bit characters that is not empty, in the alphabet or not, the decoder
  is the reference: it returns nothing when the length is no multiple of four, and otherwise
  the bytes of the groups up to the length that the padding says. It stays inside its table,
  its input and its output.
\<close>

theorem decode_base64_reference:
  assumes "list_all (\<lambda>c. (of_char c :: nat) < 128) input" and "input \<noteq> []"
  shows "decode_base64 input = Inr (if length input mod 4 = 0
    then Some (take (unpadded_length input) (b64_bytes input)) else None)"
proof (cases "length input mod 4 = 0")
  case True
  have "unpadded_length input - length (b64_bytes input) = 0"
    using unpadded_length_le [of input] by (simp add: length_b64_bytes)
  with True assms(2) decode_loop_reference [OF assms(1) True, of "[]" "[]" "unpadded_length input"]
  show ?thesis by (simp add: decode_base64_eq)
next
  case False
  then show ?thesis by (simp add: decode_base64_bad_length)
qed

lemma decode_base64_reference_witness:
  "decode_base64 ''Tm9y?!#='' = Inr (Some (take 5 (b64_bytes ''Tm9y?!#='')))
    \<and> take 3 (b64_bytes ''Tm9y?!#='') = ''Nor''"
proof -
  have "unpadded_length ''Tm9y?!#='' = 5" by (simp add: unpadded_length_def)
  moreover have "b64_value (CHR ''T'') = 19" "b64_value (CHR ''m'') = 38" "b64_value (CHR ''9'') = 61"
      "b64_value (CHR ''y'') = 50" by code_simp+
  then have "take 3 (b64_bytes ''Tm9y?!#='') = ''Nor''"
    by (simp add: Let_def group24_def char_of_def bit_0)
  moreover have "decode_base64 ''Tm9y?!#='' = Inr (if length ''Tm9y?!#='' mod 4 = 0
      then Some (take (unpadded_length ''Tm9y?!#='') (b64_bytes ''Tm9y?!#='')) else None)"
    by (rule decode_base64_reference) simp_all
  moreover have "length ''Tm9y?!#='' mod 4 = 0" by simp
  ultimately show ?thesis by (simp only: if_True simp_thms)
qed

end
