(* ===== verification/Http_Request.thy ===== *)
theory Http_Request
  imports Base64
begin

text \<open>
  \<^verbatim>\<open>protocol/http/request/src\<close>: the parser of an HTTP request head, the lookup of a header
  field and the reading of Basic credentials. The parser is run on a whole request head; the
  theorems say what it reads from one that a client has put together, and which inputs it has
  no defined answer for.
\<close>

datatype HttpMethod = Get | Put | Delete | Unrecognized

record HttpAuthInfo =
  auth_username :: string
  auth_password :: string

record HttpParser =
  http_valid :: bool
  http_method :: HttpMethod
  http_uri :: string_view
  resource_size :: "64 word"
  header_fields :: "string \<rightharpoonup> string_view"

definition kMethodMap :: "string \<rightharpoonup> HttpMethod" where
  "kMethodMap = map_of [(''PUT'', Put), (''GET'', Get), (''DELETE'', Delete)]"

definition kContentLengthKey :: string where
  "kContentLengthKey = ''content-length''"

definition kAuthenticationKey :: string where
  "kAuthenticationKey = ''authorization''"

section \<open>\<open>std::atoi\<close>\<close>

text \<open>
  White space, a sign, digits; a number that is no \<^verbatim>\<open>int\<close> (32 bits) has no meaning. The
  argument is what the pointer points at: everything from the value to the end of the buffer.
\<close>

definition isspace :: "char \<Rightarrow> bool" where
  "isspace c = (let n = of_char c :: nat in n = 32 \<or> 9 \<le> n \<and> n \<le> 13)"

definition atoi :: "string \<Rightarrow> int result" where
  "atoi s =
     (let s1 = dropWhile isspace s;
          neg = (s1 \<noteq> [] \<and> hd s1 = CHR ''-'');
          s2 = (if s1 \<noteq> [] \<and> (hd s1 = CHR ''-'' \<or> hd s1 = CHR ''+'') then tl s1 else s1);
          n = int (read_dec (takeWhile is_digit s2));
          v = (if neg then - n else n)
      in if - (2 ^ 31) \<le> v \<and> v < 2 ^ 31 then Inr v else Inl Undefined_Behaviour)"

section \<open>The parser\<close>

text \<open>\<^verbatim>\<open>remove_prefix(find_first_not_of(' '))\<close>: not defined when there is nothing but spaces.\<close>

definition skip_spaces :: "string_view \<Rightarrow> string_view result" where
  "skip_spaces v =
     (let rest = dropWhile (\<lambda>c. c = CHR '' '') (sv_chars v) in
      if rest = [] then Inl Undefined_Behaviour
      else Inr \<lparr>sv_chars = rest, sv_after = sv_after v\<rparr>)"

definition parseRequestLine :: "string_view list \<Rightarrow> (HttpMethod \<times> string_view) option result" where
  "parseRequestLine lines =
     and_then (vector_at lines 0) (\<lambda>line0.
     and_then (run_split line0 '' '') (\<lambda>tokens.
     and_then (vector_at tokens 0) (\<lambda>t0.
       case kMethodMap (sv_chars t0) of
         None \<Rightarrow> Inr None
       | Some m \<Rightarrow> and_then (vector_at tokens 1) (\<lambda>t1. Inr (Some (m, t1))))))"

definition parseHeaderField ::
    "(string \<rightharpoonup> string_view) \<Rightarrow> string_view \<Rightarrow> (string \<rightharpoonup> string_view) result" where
  "parseHeaderField hf line =
     and_then (run_split line '':'') (\<lambda>tokens.
     and_then (vector_at tokens 1) (\<lambda>t1.
     and_then (skip_spaces t1) (\<lambda>value.
     and_then (vector_at tokens 0) (\<lambda>t0.
       Inr (hf(toLowerCase (sv_chars t0) \<mapsto> value))))))"

fun parseHeaderLines ::
    "(string \<rightharpoonup> string_view) \<Rightarrow> string_view list \<Rightarrow> (string \<rightharpoonup> string_view) result" where
  "parseHeaderLines hf [] = Inr hf"
| "parseHeaderLines hf (l # ls) =
     and_then (parseHeaderField hf l) (\<lambda>hf'. parseHeaderLines hf' ls)"

text \<open>
  The loop runs from \<^verbatim>\<open>lines.cbegin() + 1\<close> until it meets \<^verbatim>\<open>lines.cend() - 2\<close>; with fewer
  than three lines it starts behind that point and leaves the vector.
\<close>

definition parseHeaderFields :: "string_view list \<Rightarrow> (string \<rightharpoonup> string_view) result" where
  "parseHeaderFields lines =
     (if length lines < 3 then Inl Undefined_Behaviour
      else parseHeaderLines Map.empty (take (length lines - 3) (drop 1 lines)))"

definition invalid_request :: HttpParser where
  "invalid_request = \<lparr>http_valid = False, http_method = Unrecognized, http_uri = view_of [],
     resource_size = 0, header_fields = Map.empty\<rparr>"

text \<open>
  The constructor. The one exception, from \<^verbatim>\<open>kMethodMap.at\<close>, is thrown before any member is
  set and caught here.
\<close>

definition parse_http :: "string \<Rightarrow> HttpParser result" where
  "parse_http buffer =
     (if buffer = [] then Inr invalid_request
      else
        and_then (run_split (view_of buffer) crlf) (\<lambda>lines.
        and_then (parseRequestLine lines) (\<lambda>request_line.
          case request_line of
            None \<Rightarrow> Inr invalid_request
          | Some (m, uri) \<Rightarrow>
              and_then (parseHeaderFields lines) (\<lambda>hf.
              and_then
                (case hf kContentLengthKey of
                   None \<Rightarrow> Inr 0
                 | Some v \<Rightarrow> and_then (atoi (sv_data v)) (\<lambda>n. Inr (word_of_int n)))
                (\<lambda>size.
                  Inr \<lparr>http_valid = True, http_method = m, http_uri = uri,
                       resource_size = size, header_fields = hf\<rparr>)))))"

text \<open>\<^verbatim>\<open>operator[]\<close>\<close>

definition header_field :: "HttpParser \<Rightarrow> string \<Rightarrow> string_view option" where
  "header_field p key = header_fields p key"

definition getAuthInfo :: "HttpParser \<Rightarrow> HttpAuthInfo option result" where
  "getAuthInfo p =
     (case header_field p kAuthenticationKey of
        None \<Rightarrow> Inr None
      | Some value \<Rightarrow>
          and_then (run_split value '' '') (\<lambda>parts.
          and_then (vector_at parts 1) (\<lambda>auth_data.
          and_then (decode_base64 (sv_chars auth_data)) (\<lambda>decoded.
            case decoded of
              None \<Rightarrow> Inr None
            | Some s \<Rightarrow>
                and_then (run_split (view_of s) '':'') (\<lambda>user_and_pass.
                and_then (vector_at user_and_pass 0) (\<lambda>u.
                and_then (vector_at user_and_pass 1) (\<lambda>w.
                  Inr (Some \<lparr>auth_username = sv_chars u, auth_password = sv_chars w\<rparr>))))))))"

section \<open>Requests as clients write them\<close>

text \<open>
  A request head: the request line and the header lines, each with its end, and an empty line.
  A header line is a name, a colon, any number of spaces and a value.
\<close>

type_synonym request_header = "string \<times> nat \<times> string"

definition header_text :: "request_header \<Rightarrow> string" where
  "header_text h = (case h of (n, k, v) \<Rightarrow> n @ '':'' @ replicate k (CHR '' '') @ v)"

definition request_line :: "string \<Rightarrow> string \<Rightarrow> string \<Rightarrow> string" where
  "request_line m uri version = m @ '' '' @ uri @ '' '' @ version"

definition request_head :: "string \<Rightarrow> string \<Rightarrow> string \<Rightarrow> request_header list \<Rightarrow> string" where
  "request_head m uri version hs =
     concat (map (\<lambda>l. l @ crlf) (request_line m uri version # map header_text hs)) @ crlf"

definition wf_request_header :: "request_header \<Rightarrow> bool" where
  "wf_request_header h = (case h of (n, k, v) \<Rightarrow>
     list_all (\<lambda>c. c \<noteq> CHR '':'' \<and> c \<noteq> CHR 0x0D) n
     \<and> v \<noteq> [] \<and> hd v \<noteq> CHR '' '' \<and> hd v \<noteq> CHR '':'' \<and> \<not> occurs crlf v)"

definition wf_word :: "string \<Rightarrow> bool" where
  "wf_word w = list_all (\<lambda>c. c \<noteq> CHR '' '' \<and> c \<noteq> CHR 0x0D) w"

definition before_colon :: "string \<Rightarrow> string" where
  "before_colon s = takeWhile (\<lambda>c. c \<noteq> CHR '':'') s"

text \<open>
  What the parser makes of the header fields: names in lower case, a value only up to a colon
  in it, a later field replacing an earlier one.
\<close>

definition fields_of :: "request_header list \<Rightarrow> string \<rightharpoonup> string" where
  "fields_of hs = map_of (rev (map (\<lambda>(n, k, v). (toLowerCase n, before_colon v)) hs))"

definition view_chars :: "(string \<rightharpoonup> string_view) \<Rightarrow> (string \<rightharpoonup> string)" where
  "view_chars hf = (\<lambda>k. map_option sv_chars (hf k))"

lemma wf_request_headerD:
  assumes "wf_request_header (n, k, v)"
  shows "CHR '':'' \<notin> set n" "list_all (\<lambda>c. c \<noteq> CHR 0x0D) n" "v \<noteq> []" "hd v \<noteq> CHR '' ''"
    "hd v \<noteq> CHR '':''" "\<not> occurs crlf v"
  using assms by (auto simp: wf_request_header_def list_all_iff)

lemma wf_wordD:
  assumes "wf_word w"
  shows "CHR '' '' \<notin> set w" "list_all (\<lambda>c. c \<noteq> CHR 0x0D) w"
  using assms by (auto simp: wf_word_def list_all_iff)

text \<open>The number in a view ends where the view ends.\<close>

definition number_ends :: "string_view \<Rightarrow> bool" where
  "number_ends v \<longleftrightarrow> (\<forall>c r. sv_after v = c # r \<longrightarrow> \<not> is_digit c)"

lemma atoi_number:
  assumes "n < 2 ^ 31" and "\<forall>c r. rest = c # r \<longrightarrow> \<not> is_digit c"
  shows "atoi (to_string n @ rest) = Inr (int n)"
proof -
  obtain c cs where t: "to_string n = c # cs" by (cases "to_string n") auto
  have d: "\<forall>x \<in> set (to_string n). is_digit x"
    using to_string_digits [of n] by (simp add: list_all_iff)
  have "takeWhile is_digit (to_string n @ rest) = to_string n @ takeWhile is_digit rest"
    using d by simp
  also have "takeWhile is_digit rest = []" using assms(2) by (cases rest) auto
  finally have w: "takeWhile is_digit (to_string n @ rest) = to_string n" by simp
  have c: "is_digit c" using d t by simp
  then have "\<not> isspace c" "c \<noteq> CHR ''-''" "c \<noteq> CHR ''+''"
    by (auto simp: is_digit_def isspace_def Let_def)
  then show ?thesis
    using w assms(1) by (simp add: atoi_def Let_def t) (simp flip: t)
qed

text \<open>A number with its sign, as a client may write it.\<close>

definition int_text :: "int \<Rightarrow> string" where
  "int_text v = (if v < 0 then CHR ''-'' # to_string (nat (- v)) else to_string (nat v))"

lemma atoi_int:
  assumes "- (2 ^ 31) \<le> v" "v < 2 ^ 31" and "\<forall>c r. rest = c # r \<longrightarrow> \<not> is_digit c"
  shows "atoi (int_text v @ rest) = Inr v"
proof (cases "v < 0")
  case False
  then have "nat v < 2 ^ 31" using assms(2) by (simp add: nat_less_iff)
  with False assms(3) atoi_number [of "nat v" rest] show ?thesis by (simp add: int_text_def)
next
  case True
  have d: "\<forall>x \<in> set (to_string (nat (- v))). is_digit x"
    using to_string_digits [of "nat (- v)"] by (simp add: list_all_iff)
  have "takeWhile is_digit rest = []" using assms(3) by (cases rest) auto
  with d have "takeWhile is_digit (to_string (nat (- v)) @ rest) = to_string (nat (- v))" by simp
  moreover have "\<not> isspace (CHR ''-'')" by (simp add: isspace_def)
  ultimately show ?thesis using True assms(1,2) by (simp add: atoi_def int_text_def Let_def)
qed

lemma tokens_of_request_line:
  assumes "sv_chars l = request_line m uri version" and "wf_word m" "wf_word uri" "wf_word version"
  obtains a b c where "tokens_of '' '' l = [a, b, c]" "sv_chars a = m" "sv_chars b = uri" "sv_chars l \<noteq> []"
proof -
  have "sv_chars l = join '' '' [m, uri, version]" by (simp add: assms(1) request_line_def)
  moreover have "\<forall>t \<in> set [m, uri, version]. clean '' '' t"
    using assms(2-4) by (auto simp: clean_single wf_word_def list_all_iff)
  ultimately have "map sv_chars (tokens_of '' '' l) = [m, uri, version]"
    by (intro tokens_of_join_view) simp_all
  moreover have "sv_chars l \<noteq> []" by (simp add: assms(1) request_line_def)
  ultimately show thesis using that by (auto simp: map_eq_Cons_conv)
qed

lemma parseRequestLine_line:
  assumes "sv_chars l = request_line m uri version" and "wf_word m" "wf_word uri" "wf_word version"
    and "kMethodMap m = Some meth"
  shows "\<exists>u. parseRequestLine (l # ls) = Inr (Some (meth, u)) \<and> sv_chars u = uri"
proof -
  obtain a b c where "tokens_of '' '' l = [a, b, c]" "sv_chars a = m" "sv_chars b = uri" "sv_chars l \<noteq> []"
    using assms(1-4) by (rule tokens_of_request_line)
  with assms(5) show ?thesis by (simp add: parseRequestLine_def)
qed

text \<open>A method that is not in the table makes the request invalid, whatever follows the line.\<close>

lemma parseRequestLine_unknown:
  assumes "sv_chars l = request_line m uri version" and "wf_word m" "wf_word uri" "wf_word version"
    and "kMethodMap m = None"
  shows "parseRequestLine (l # ls) = Inr None"
proof -
  obtain a b c where "tokens_of '' '' l = [a, b, c]" "sv_chars a = m" "sv_chars l \<noteq> []"
    using assms(1-4) by (rule tokens_of_request_line)
  with assms(5) show ?thesis by (simp add: parseRequestLine_def)
qed

text \<open>
  A text with a colon: its first token is what stands before the first colon, and its second
  what stands between the first and the second colon, if there is a second one.
\<close>

lemma tokens_of_two:
  assumes "CHR '':'' \<notin> set n" and "CHR '':'' \<notin> set h" and "sv_chars v = n @ '':'' @ h @ '':'' @ r"
  shows "\<exists>u q qs. tokens_of '':'' v = u # q # qs \<and> sv_chars u = n \<and> sv_chars q = h"
proof -
  let ?w = "substr v (length n + 1) (length (sv_chars v))"
  have "search '':'' (sv_chars v) 0 = Some (length n)"
    using assms(1,3) clean_single [of "CHR '':''" n] by (simp add: clean_def)
  moreover have w: "sv_chars ?w = h @ '':'' @ r" by (simp add: substr_def assms(3))
  then have "search '':'' (sv_chars ?w) 0 = Some (length h)"
    using assms(2) clean_single [of "CHR '':''" h] by (simp add: clean_def)
  ultimately have "tokens_of '':'' v = substr v 0 (length n) # substr ?w 0 (length h) #
      tokens_of '':'' (substr ?w (length h + 1) (length (sv_chars ?w)))"
    by (simp add: tokens_of_Some)
  then show ?thesis using w by (simp add: substr_def assms(3))
qed

lemma before_colon_id [simp]: "CHR '':'' \<notin> set s \<Longrightarrow> before_colon s = s"
  by (auto simp: before_colon_def takeWhile_eq_all_conv)

lemma tokens_of_colon:
  assumes "CHR '':'' \<notin> set n" and "sv_chars v = n @ '':'' @ x"
  shows "\<exists>u q qs. tokens_of '':'' v = u # q # qs \<and> sv_chars u = n \<and> sv_chars q = before_colon x"
proof (cases "CHR '':'' \<in> set x")
  case True
  then obtain h r where x: "x = h @ CHR '':'' # r" "CHR '':'' \<notin> set h"
    using split_list_first by metis
  then have "before_colon x = h" by (auto simp: before_colon_def takeWhile_tail)
  with tokens_of_two [OF assms(1) x(2), of v r] show ?thesis by (simp add: assms(2) x(1))
next
  case False
  have "map sv_chars (tokens_of '':'' v) = [n, x]"
    using assms False by (intro tokens_of_join_view) (auto simp: clean_single)
  then obtain u q where "tokens_of '':'' v = [u, q]" "sv_chars u = n" "sv_chars q = x"
    by (auto simp: map_eq_Cons_conv)
  with False show ?thesis by simp
qed

lemma dropWhile_replicate:
  "v \<noteq> [] \<Longrightarrow> hd v \<noteq> c \<Longrightarrow> dropWhile (\<lambda>x. x = c) (replicate k c @ v) = v"
  by (induction k) (cases v; simp)+

lemma parseHeaderField_line:
  assumes "wf_request_header (n, k, v)" and "sv_chars l = header_text (n, k, v)" and "number_ends l"
  shows "\<exists>w. parseHeaderField hf l = Inr (hf(toLowerCase n \<mapsto> w)) \<and> sv_chars w = before_colon v
    \<and> number_ends w"
proof -
  note wf = wf_request_headerD [OF assms(1)]
  let ?v = "replicate k (CHR '' '') @ v"
  have "sv_chars l = n @ '':'' @ ?v" by (simp add: assms(2) header_text_def)
  then obtain a b bs where t: "tokens_of '':'' l = a # b # bs"
      and c: "sv_chars a = n" "sv_chars b = before_colon ?v"
    using tokens_of_colon [OF wf(1), of l ?v] by blast
  have bv: "before_colon ?v = replicate k (CHR '' '') @ before_colon v"
    by (simp add: before_colon_def takeWhile_append)
  obtain x xs where v: "before_colon v = x # xs" "x \<noteq> CHR '' ''"
    using wf(3-5) by (cases v) (auto simp: before_colon_def)
  then have "dropWhile (\<lambda>c. c = CHR '' '') (before_colon ?v) = before_colon v"
    using bv by (simp add: dropWhile_replicate)
  then have s: "skip_spaces b = Inr \<lparr>sv_chars = before_colon v, sv_after = sv_after b\<rparr>"
    using v by (simp add: skip_spaces_def c)
  have "sv_after b = sv_after l \<or> (\<exists>r. sv_after b = '':'' @ r)"
    using tokens_of_after [of b "'':''" l] t by simp
  then have "number_ends \<lparr>sv_chars = before_colon v, sv_after = sv_after b\<rparr>"
    using assms(3) by (auto simp: number_ends_def is_digit_def)
  moreover have "sv_chars l \<noteq> []" by (simp add: assms(2) header_text_def)
  ultimately show ?thesis
    by (intro exI [of _ "\<lparr>sv_chars = before_colon v, sv_after = sv_after b\<rparr>"])
      (simp add: parseHeaderField_def t c(1) s)
qed

lemma parseHeaderLines_lines:
  assumes "list_all wf_request_header hs" and "map sv_chars ls = map header_text hs"
    and "\<forall>l \<in> set ls. number_ends l" and "\<forall>w \<in> ran hf0. number_ends w"
  shows "\<exists>hf. parseHeaderLines hf0 ls = Inr hf \<and> view_chars hf = view_chars hf0 ++ fields_of hs
    \<and> (\<forall>w \<in> ran hf. number_ends w)"
  using assms
proof (induction hs arbitrary: ls hf0)
  case Nil
  then show ?case by (simp add: fields_of_def)
next
  case (Cons h hs)
  obtain n k v where h: "h = (n, k, v)" by (cases h)
  from Cons.prems(2) obtain l ls' where ls: "ls = l # ls'" "sv_chars l = header_text h"
      "map sv_chars ls' = map header_text hs"
    by (auto simp: map_eq_Cons_conv)
  obtain w where w: "parseHeaderField hf0 l = Inr (hf0(toLowerCase n \<mapsto> w))" "sv_chars w = before_colon v" "number_ends w"
    using parseHeaderField_line [of n k v l hf0] Cons.prems ls h by auto
  let ?hf = "hf0(toLowerCase n \<mapsto> w)"
  have "\<forall>x \<in> ran ?hf. number_ends x" using Cons.prems(4) w(3) by (auto simp: ran_def)
  moreover have "list_all wf_request_header hs" "\<forall>x \<in> set ls'. number_ends x"
    using Cons.prems ls by simp_all
  ultimately have "\<exists>hf. parseHeaderLines ?hf ls' = Inr hf
      \<and> view_chars hf = view_chars ?hf ++ fields_of hs \<and> (\<forall>w \<in> ran hf. number_ends w)"
    using ls(3) by (intro Cons.IH)
  then obtain hf where hf: "parseHeaderLines ?hf ls' = Inr hf"
      "view_chars hf = view_chars ?hf ++ fields_of hs" "\<forall>w \<in> ran hf. number_ends w"
    by blast
  have "view_chars ?hf = view_chars hf0 ++ [toLowerCase n \<mapsto> before_colon v]"
    by (auto simp: view_chars_def w(2))
  moreover have "fields_of (h # hs) = [toLowerCase n \<mapsto> before_colon v] ++ fields_of hs"
    by (simp add: fields_of_def h map_add_def fun_eq_iff)
  ultimately show ?case using hf w(1) ls by auto
qed

lemma join_crlf_lines: "join crlf (ls @ [[], []]) = concat (map (\<lambda>l. l @ crlf) ls) @ crlf"
proof (induction ls)
  case (Cons l ls)
  then show ?case by (cases "ls @ [[], []]") simp_all
qed simp

lemma header_text_no_crlf: "wf_request_header h \<Longrightarrow> \<not> occurs crlf (header_text h)"
proof -
  assume w: "wf_request_header h"
  obtain n k v where h: "h = (n, k, v)" by (cases h)
  have "list_all (\<lambda>c. c \<noteq> CHR 0x0D) (replicate k (CHR '' ''))"
    by (induction k) simp_all
  then have "list_all (\<lambda>c. c \<noteq> CHR 0x0D) (n @ '':'' @ replicate k (CHR '' ''))"
    using wf_request_headerD(2) [of n k v] w h by simp
  then have "occurs crlf ((n @ '':'' @ replicate k (CHR '' '')) @ v) \<longleftrightarrow> occurs crlf v"
    by (rule occurs_crlf_append)
  then show ?thesis using wf_request_headerD(6) [of n k v] w h by (simp add: header_text_def)
qed

lemma request_line_no_crlf:
  "wf_word m \<Longrightarrow> wf_word uri \<Longrightarrow> wf_word version \<Longrightarrow> \<not> occurs crlf (request_line m uri version)"
  by (rule no_cr_no_crlf) (simp add: wf_wordD request_line_def)

text \<open>What the request says about the size of its body, if it says it in a way \<open>atoi\<close> can read.\<close>

definition says_size :: "request_header list \<Rightarrow> int \<Rightarrow> bool" where
  "says_size hs v \<longleftrightarrow>
     (case fields_of hs kContentLengthKey of
        None \<Rightarrow> v = 0
      | Some text \<Rightarrow> - (2 ^ 31) \<le> v \<and> v < 2 ^ 31 \<and> text = int_text v)"

lemma parse_http_request_size:
  assumes "wf_word m" "wf_word uri" "wf_word version" and "kMethodMap m = Some meth"
    and "list_all wf_request_header hs" and "says_size hs v"
  shows "\<exists>p. parse_http (request_head m uri version hs) = Inr p \<and> http_valid p
    \<and> http_method p = meth \<and> sv_chars (http_uri p) = uri
    \<and> view_chars (header_fields p) = fields_of hs \<and> resource_size p = word_of_int v"
proof -
  let ?ls = "request_line m uri version # map header_text hs"
  let ?b = "request_head m uri version hs"
  have b: "?b = join crlf (?ls @ [[], []])" by (simp only: join_crlf_lines request_head_def)
  have "\<forall>l \<in> set (?ls @ [[], []]). clean crlf l"
    using assms(1-3,5) request_line_no_crlf header_text_no_crlf
    by (auto simp: clean_crlf list_all_iff)
  then have "map sv_chars (tokens_of crlf (view_of ?b)) = ?ls @ [[], []]"
    by (intro tokens_of_join_view) (simp_all add: b)
  then obtain l ls e1 e2 where t: "tokens_of crlf (view_of ?b) = l # ls @ [e1, e2]"
      and c: "sv_chars l = request_line m uri version" "map sv_chars ls = map header_text hs"
    by (auto simp: map_eq_append_conv map_eq_Cons_conv)
  have "\<forall>x \<in> set ls. number_ends x"
  proof
    fix x
    assume "x \<in> set ls"
    then have "sv_after x = [] \<or> (\<exists>r. sv_after x = crlf @ r)"
      using tokens_of_after [of x crlf "view_of ?b"] t by simp
    then show "number_ends x" by (auto simp: number_ends_def crlf_def is_digit_def)
  qed
  then obtain hf where hf: "parseHeaderLines Map.empty ls = Inr hf"
      "view_chars hf = view_chars Map.empty ++ fields_of hs" "\<forall>w \<in> ran hf. number_ends w"
    using parseHeaderLines_lines [OF assms(5) c(2), of Map.empty] by auto
  have vc: "view_chars hf = fields_of hs" using hf(2) by (simp add: view_chars_def)
  obtain u where u: "parseRequestLine (l # ls @ [e1, e2]) = Inr (Some (meth, u))" "sv_chars u = uri"
    using parseRequestLine_line [OF c(1) assms(1-4)] by blast
  have "?b \<noteq> []" by (simp add: request_head_def)
  note parsed = this t u hf(1)
  show ?thesis
  proof (cases "hf kContentLengthKey")
    case None
    then have "fields_of hs kContentLengthKey = None" by (metis vc view_chars_def option.simps(8))
    with assms(6) have "v = 0" by (simp add: says_size_def)
    with None parsed vc show ?thesis by (simp add: parse_http_def parseHeaderFields_def)
  next
    case (Some w)
    then have f: "fields_of hs kContentLengthKey = Some (sv_chars w)"
      by (metis vc view_chars_def option.simps(9))
    with assms(6) have n: "- (2 ^ 31) \<le> v" "v < 2 ^ 31" "sv_chars w = int_text v"
      by (auto simp: says_size_def)
    have "number_ends w" using hf(3) Some by (auto simp: ran_def)
    then have "atoi (sv_data w) = Inr v"
      unfolding sv_data_def n(3) by (intro atoi_int n(1,2)) (simp add: number_ends_def)
    with Some parsed vc show ?thesis by (simp add: parse_http_def parseHeaderFields_def)
  qed
qed

lemma parse_http_unknown:
  assumes "wf_word m" "wf_word uri" "wf_word version" and "kMethodMap m = None"
  shows "parse_http (request_line m uri version @ crlf @ rest) = Inr invalid_request"
proof -
  let ?line = "request_line m uri version" and ?v = "view_of (request_line m uri version @ crlf @ rest)"
  have "search crlf (sv_chars ?v) 0 = Some (length ?line)"
    using search_line [OF request_line_no_crlf [OF assms(1-3)], of rest] by (simp add: view_of_def)
  then obtain ls where "tokens_of crlf ?v = substr ?v 0 (length ?line) # ls"
    by (simp add: tokens_of_Some)
  moreover have "sv_chars (substr ?v 0 (length ?line)) = ?line"
    by (simp add: substr_def view_of_def)
  moreover have "?line @ crlf @ rest \<noteq> []" "sv_chars ?v \<noteq> []" by (simp_all add: crlf_def view_of_def)
  ultimately show ?thesis
    using parseRequestLine_unknown [OF _ assms] by (simp add: parse_http_def)
qed

text \<open>A size that is not negative is the size the parser has.\<close>

definition size_field_ok :: "request_header list \<Rightarrow> bool" where
  "size_field_ok hs \<longleftrightarrow>
     (case fields_of hs kContentLengthKey of
        None \<Rightarrow> True
      | Some v \<Rightarrow> read_dec v < 2 ^ 31 \<and> v = to_string (read_dec v))"

definition size_of_request :: "request_header list \<Rightarrow> nat" where
  "size_of_request hs =
     (case fields_of hs kContentLengthKey of None \<Rightarrow> 0 | Some v \<Rightarrow> read_dec v)"

lemma size_field_says: "size_field_ok hs \<Longrightarrow> says_size hs (int (size_of_request hs))"
  by (auto simp: size_field_ok_def says_size_def size_of_request_def int_text_def split: option.splits)

lemma size_of_request_bound: "size_field_ok hs \<Longrightarrow> size_of_request hs < 2 ^ 31"
  by (auto simp: size_field_ok_def size_of_request_def split: option.splits)

lemma parse_http_request_head:
  assumes "wf_word m" "wf_word uri" "wf_word version" and "kMethodMap m = Some meth"
    and "list_all wf_request_header hs" and "size_field_ok hs"
  shows "\<exists>p. parse_http (request_head m uri version hs) = Inr p \<and> http_valid p
    \<and> http_method p = meth \<and> sv_chars (http_uri p) = uri
    \<and> view_chars (header_fields p) = fields_of hs \<and> unat (resource_size p) = size_of_request hs"
proof -
  have "unat (word_of_int (int (size_of_request hs)) :: 64 word) = size_of_request hs"
    using size_of_request_bound [OF assms(6)] by (simp add: unat_of_nat)
  with parse_http_request_size [OF assms(1-5) size_field_says [OF assms(6)]] show ?thesis by auto
qed

section \<open>Credentials\<close>

lemma b64_char_no_delimiter:
  "n < 64 \<Longrightarrow> b64_char n \<noteq> CHR '' '' \<and> b64_char n \<noteq> CHR '':'' \<and> b64_char n \<noteq> CHR 0x0D"
proof -
  have "list_all (\<lambda>n. b64_char n \<noteq> CHR '' '' \<and> b64_char n \<noteq> CHR '':'' \<and> b64_char n \<noteq> CHR 0x0D) [0..<64]"
    by code_simp
  then show "n < 64 \<Longrightarrow> b64_char n \<noteq> CHR '' '' \<and> b64_char n \<noteq> CHR '':'' \<and> b64_char n \<noteq> CHR 0x0D"
    by (simp add: list_all_iff)
qed

definition b64_letter :: "char \<Rightarrow> bool" where
  "b64_letter c \<longleftrightarrow> c = CHR ''='' \<or> (\<exists>n < 64. c = b64_char n)"

lemma b64_letter_char [simp]: "n < 64 \<Longrightarrow> b64_letter (b64_char n)"
  by (auto simp: b64_letter_def)

lemma b64_letter_padding [simp]: "b64_letter (CHR ''='')"
  by (simp add: b64_letter_def)

lemma b64_encode_letters: "list_all b64_letter (b64_encode s)"
proof (induction s rule: b64_encode.induct)
  case (2 x)
  then show ?case using group24_bounds [of "of_char x" 0 0] by simp
next
  case (3 x y)
  then show ?case using group24_bounds [of "of_char x" "of_char y" 0] by simp
next
  case (4 x y z s)
  then show ?case using group24_bounds [of "of_char x" "of_char y" "of_char z"] by simp
qed simp

lemma b64_letter_no_delimiter:
  "b64_letter c \<Longrightarrow> c \<noteq> CHR '' '' \<and> c \<noteq> CHR '':'' \<and> c \<noteq> CHR 0x0D"
  using b64_char_no_delimiter by (auto simp: b64_letter_def)

lemma b64_encode_no_delimiter:
  "CHR '' '' \<notin> set (b64_encode s)" "CHR '':'' \<notin> set (b64_encode s)"
  "list_all (\<lambda>c. c \<noteq> CHR 0x0D) (b64_encode s)"
proof -
  have "\<forall>c \<in> set (b64_encode s). b64_letter c"
    using b64_encode_letters [of s] by (simp add: list_all_iff)
  then have d: "\<forall>c \<in> set (b64_encode s). c \<noteq> CHR '' '' \<and> c \<noteq> CHR '':'' \<and> c \<noteq> CHR 0x0D"
    using b64_letter_no_delimiter by blast
  then show "CHR '' '' \<notin> set (b64_encode s)" "CHR '':'' \<notin> set (b64_encode s)" by blast+
  from d show "list_all (\<lambda>c. c \<noteq> CHR 0x0D) (b64_encode s)" unfolding list_all_iff by blast
qed

definition basic_credentials :: "string \<Rightarrow> string \<Rightarrow> string \<Rightarrow> string" where
  "basic_credentials scheme user pass = scheme @ '' '' @ b64_encode (user @ '':'' @ pass)"

lemma getAuthInfo_credentials:
  assumes "header_field p kAuthenticationKey = Some w"
    and "sv_chars w = basic_credentials scheme user pass"
    and "CHR '' '' \<notin> set scheme" and "CHR '':'' \<notin> set user"
  shows "getAuthInfo p =
    Inr (Some \<lparr>auth_username = user, auth_password = before_colon pass\<rparr>)"
proof -
  let ?e = "b64_encode (user @ '':'' @ pass)"
  have "map sv_chars (tokens_of '' '' w) = [scheme, ?e]"
    using assms(2,3) b64_encode_no_delimiter(1)
    by (intro tokens_of_join_view) (auto simp: basic_credentials_def clean_single)
  then obtain a b where t: "tokens_of '' '' w = [a, b]" "sv_chars b = ?e"
    by (auto simp: map_eq_Cons_conv)
  have d: "decode_base64 ?e = Inr (Some (user @ '':'' @ pass))" by (rule decode_encode) simp
  from tokens_of_colon [OF assms(4), of "view_of (user @ '':'' @ pass)" pass]
  obtain u q qs where "tokens_of '':'' (view_of (user @ '':'' @ pass)) = u # q # qs"
      "sv_chars u = user" "sv_chars q = before_colon pass"
    by auto
  with assms(1,2) t d show ?thesis by (simp add: getAuthInfo_def basic_credentials_def)
qed

lemma header_field_chars:
  "view_chars (header_fields p) = F \<Longrightarrow> map_option sv_chars (header_field p k) = F k"
  by (auto simp: header_field_def view_chars_def)

text \<open>A request without credentials.\<close>

lemma getAuthInfo_missing: "header_field p kAuthenticationKey = None \<Longrightarrow> getAuthInfo p = Inr None"
  by (simp add: getAuthInfo_def)

section \<open>Properties\<close>

text \<open>
  C22. The head of a request is read as the client wrote it: method, path, header fields (names
  in lower case, values up to a colon in them, the last of several fields with one name), and
  the size of the body.
\<close>

theorem http_request_read_back:
  assumes "wf_word m" "wf_word uri" "wf_word version" and "kMethodMap m = Some meth"
    and "list_all wf_request_header hs" and "size_field_ok hs"
  shows "\<exists>p. parse_http (request_head m uri version hs) = Inr p \<and> http_valid p
    \<and> http_method p = meth \<and> sv_chars (http_uri p) = uri
    \<and> view_chars (header_fields p) = fields_of hs \<and> unat (resource_size p) = size_of_request hs"
  using assms by (rule parse_http_request_head)

definition sample_headers :: "request_header list" where
  "sample_headers = [(''Host'', 1, ''localhost:1670''), (''Content-Length'', 1, ''5'')]"

lemma sample_headers_ok: "list_all wf_request_header sample_headers" "size_field_ok sample_headers"
proof -
  show "list_all wf_request_header sample_headers" by code_simp
  have "fields_of sample_headers kContentLengthKey = Some ''5''" by code_simp
  moreover have "read_dec ''5'' = 5" "to_string 5 = ''5''" by code_simp+
  ultimately show "size_field_ok sample_headers" by (simp add: size_field_ok_def)
qed

lemma http_request_read_back_witness:
  "\<exists>p. parse_http (request_head ''PUT'' ''/a.txt'' ''HTTP/1.1'' sample_headers) = Inr p \<and> http_valid p
    \<and> http_method p = Put \<and> sv_chars (http_uri p) = ''/a.txt''
    \<and> view_chars (header_fields p) = fields_of sample_headers
    \<and> unat (resource_size p) = size_of_request sample_headers"
  by (rule http_request_read_back) (simp_all add: wf_word_def kMethodMap_def sample_headers_ok)

text \<open>
  C23. Basic credentials in a request are read back: the user name as it was sent, and the
  password up to the first colon in it.
\<close>

theorem credentials_read_back:
  assumes "wf_word m" "wf_word uri" "wf_word version" and "kMethodMap m = Some meth"
    and "list_all wf_request_header hs" and "size_field_ok hs"
    and "fields_of hs kAuthenticationKey = Some (basic_credentials scheme user pass)"
    and "CHR '' '' \<notin> set scheme" and "CHR '':'' \<notin> set user"
  shows "\<exists>p. parse_http (request_head m uri version hs) = Inr p
    \<and> getAuthInfo p = Inr (Some \<lparr>auth_username = user, auth_password = before_colon pass\<rparr>)"
proof -
  obtain p where p: "parse_http (request_head m uri version hs) = Inr p"
      "view_chars (header_fields p) = fields_of hs"
    using parse_http_request_head [OF assms(1-6)] by blast
  obtain w where "header_field p kAuthenticationKey = Some w"
      "sv_chars w = basic_credentials scheme user pass"
    using header_field_chars [OF p(2), of kAuthenticationKey] assms(7) by auto
  with getAuthInfo_credentials assms(8,9) p(1) show ?thesis by blast
qed

definition sample_credentials :: "request_header list" where
  "sample_credentials = [(''Authorization'', 1, ''Basic Tm9yZDpWUE46MQ=='')]"

lemma credentials_read_back_witness:
  "\<exists>p. parse_http (request_head ''GET'' ''/'' ''HTTP/1.1'' sample_credentials) = Inr p
    \<and> getAuthInfo p = Inr (Some \<lparr>auth_username = ''Nord'', auth_password = before_colon ''VPN:1''\<rparr>)"
proof (rule credentials_read_back)
  show "list_all wf_request_header sample_credentials" by code_simp
  have "fields_of sample_credentials kContentLengthKey = None" by code_simp
  then show "size_field_ok sample_credentials" by (simp add: size_field_ok_def)
  show "fields_of sample_credentials kAuthenticationKey = Some (basic_credentials ''Basic'' ''Nord'' ''VPN:1'')"
    by code_simp
qed (simp_all add: wf_word_def kMethodMap_def)

end
