(* ===== verification/Http_Reply.thy ===== *)
theory Http_Reply
  imports Utils
begin

text \<open>
  \<^verbatim>\<open>protocol/http/response/src\<close>: status codes, their reason phrases, the constructors of a
  response and how it is put on the wire. A response that carries its length is read back
  from the front of a stream.
\<close>

text \<open>\<^verbatim>\<open>PayloadTooLarge\<close> has the value of \<open>ContentTooLarge\<close>: the two names are one enumerator.\<close>

datatype (plugins only: code) HttpStatus =
    Continue
  | SwitchingProtocols
  | Processing
  | EarlyHints
  | Ok
  | Created
  | Accepted
  | NonAuthoritativeInformation
  | NoContent
  | ResetContent
  | PartialContent
  | MultiStatus
  | AlreadyReported
  | IMUsed
  | MultipleChoices
  | MovedPermanently
  | Found
  | SeeOther
  | NotModified
  | UseProxy
  | TemporaryRedirect
  | PermanentRedirect
  | BadRequest
  | Unauthorized
  | PaymentRequired
  | Forbidden
  | NotFound
  | MethodNotAllowed
  | NotAcceptable
  | ProxyAuthenticationRequired
  | RequestTimeout
  | Conflict
  | Gone
  | LengthRequired
  | PreconditionFailed
  | ContentTooLarge
  | URITooLong
  | UnsupportedMediaType
  | RangeNotSatisfiable
  | ExpectationFailed
  | ImATeapot
  | MisdirectedRequest
  | UnprocessableContent
  | Locked
  | FailedDependency
  | TooEarly
  | UpgradeRequired
  | PreconditionRequired
  | TooManyRequests
  | RequestHeaderFieldsTooLarge
  | UnavailableForLegalReasons
  | InternalServerError
  | NotImplemented
  | BadGateway
  | ServiceUnavailable
  | GatewayTimeout
  | HttpVersionNotSupported
  | VariantAlsoNegotiates
  | InsufficientStorage
  | LoopDetected
  | NotExtended
  | NetworkAuthenticationRequired

abbreviation PayloadTooLarge :: HttpStatus where
  "PayloadTooLarge \<equiv> ContentTooLarge"

text \<open>\<^verbatim>\<open>static_cast<int>(status_)\<close>, as a table: the enumerators with their values.\<close>

definition http_code_table :: "(HttpStatus \<times> nat) list" where
  "http_code_table = [
     (Continue, 100),
     (SwitchingProtocols, 101),
     (Processing, 102),
     (EarlyHints, 103),
     (Ok, 200),
     (Created, 201),
     (Accepted, 202),
     (NonAuthoritativeInformation, 203),
     (NoContent, 204),
     (ResetContent, 205),
     (PartialContent, 206),
     (MultiStatus, 207),
     (AlreadyReported, 208),
     (IMUsed, 226),
     (MultipleChoices, 300),
     (MovedPermanently, 301),
     (Found, 302),
     (SeeOther, 303),
     (NotModified, 304),
     (UseProxy, 305),
     (TemporaryRedirect, 307),
     (PermanentRedirect, 308),
     (BadRequest, 400),
     (Unauthorized, 401),
     (PaymentRequired, 402),
     (Forbidden, 403),
     (NotFound, 404),
     (MethodNotAllowed, 405),
     (NotAcceptable, 406),
     (ProxyAuthenticationRequired, 407),
     (RequestTimeout, 408),
     (Conflict, 409),
     (Gone, 410),
     (LengthRequired, 411),
     (PreconditionFailed, 412),
     (ContentTooLarge, 413),
     (URITooLong, 414),
     (UnsupportedMediaType, 415),
     (RangeNotSatisfiable, 416),
     (ExpectationFailed, 417),
     (ImATeapot, 418),
     (MisdirectedRequest, 421),
     (UnprocessableContent, 422),
     (Locked, 423),
     (FailedDependency, 424),
     (TooEarly, 425),
     (UpgradeRequired, 426),
     (PreconditionRequired, 428),
     (TooManyRequests, 429),
     (RequestHeaderFieldsTooLarge, 431),
     (UnavailableForLegalReasons, 451),
     (InternalServerError, 500),
     (NotImplemented, 501),
     (BadGateway, 502),
     (ServiceUnavailable, 503),
     (GatewayTimeout, 504),
     (HttpVersionNotSupported, 505),
     (VariantAlsoNegotiates, 506),
     (InsufficientStorage, 507),
     (LoopDetected, 508),
     (NotExtended, 510),
     (NetworkAuthenticationRequired, 511)]"

definition http_code :: "HttpStatus \<Rightarrow> nat" where
  "http_code s = (case map_of http_code_table s of Some n \<Rightarrow> n | None \<Rightarrow> 0)"

definition reason_table :: "(HttpStatus \<times> string) list" where
  "reason_table = [
     (Continue, ''Continue''),
     (SwitchingProtocols, ''Switching Protocols''),
     (Processing, ''Processing''),
     (EarlyHints, ''Early Hints''),
     (Ok, ''OK''),
     (Created, ''Created''),
     (Accepted, ''Accepted''),
     (NonAuthoritativeInformation, ''Non-Authoritative Information''),
     (NoContent, ''No Content''),
     (ResetContent, ''Reset Content''),
     (PartialContent, ''Partial Content''),
     (MultiStatus, ''Multi-Status''),
     (AlreadyReported, ''Already Reported''),
     (IMUsed, ''IM Used''),
     (MultipleChoices, ''Multiple Choices''),
     (MovedPermanently, ''Moved Permanently''),
     (Found, ''Found''),
     (SeeOther, ''See Other''),
     (NotModified, ''Not Modified''),
     (UseProxy, ''Use Proxy''),
     (TemporaryRedirect, ''Temporary Redirect''),
     (PermanentRedirect, ''Permanent Redirect''),
     (BadRequest, ''Bad Request''),
     (Unauthorized, ''Unauthorized''),
     (PaymentRequired, ''Payment Required''),
     (Forbidden, ''Forbidden''),
     (NotFound, ''Not Found''),
     (MethodNotAllowed, ''Method Not Allowed''),
     (NotAcceptable, ''Not Acceptable''),
     (ProxyAuthenticationRequired, ''Proxy Authentication Required''),
     (RequestTimeout, ''Request Timeout''),
     (Conflict, ''Conflict''),
     (Gone, ''Gone''),
     (LengthRequired, ''Length Required''),
     (PreconditionFailed, ''Precondition Failed''),
     (ContentTooLarge, ''Content Too Large''),
     (URITooLong, ''URI Too Long''),
     (UnsupportedMediaType, ''Unsupported Media Type''),
     (RangeNotSatisfiable, ''Range Not Satisfiable''),
     (ExpectationFailed, ''Expectation Failed''),
     (ImATeapot, ''I'' @ [CHR 0x27] @ ''m a teapot''),
     (MisdirectedRequest, ''Misdirected Request''),
     (UnprocessableContent, ''Unprocessable Content''),
     (Locked, ''Locked''),
     (FailedDependency, ''Failed Dependency''),
     (TooEarly, ''Too Early''),
     (UpgradeRequired, ''Upgrade Required''),
     (PreconditionRequired, ''Precondition Required''),
     (TooManyRequests, ''Too Many Requests''),
     (RequestHeaderFieldsTooLarge, ''Request Header Fields Too Large''),
     (UnavailableForLegalReasons, ''Unavailable For Legal Reasons''),
     (InternalServerError, ''Internal Server Error''),
     (NotImplemented, ''Not Implemented''),
     (BadGateway, ''Bad Gateway''),
     (ServiceUnavailable, ''Service Unavailable''),
     (GatewayTimeout, ''Gateway Timeout''),
     (HttpVersionNotSupported, ''HTTP Version Not Supported''),
     (VariantAlsoNegotiates, ''Variant Also Negotiates''),
     (InsufficientStorage, ''Insufficient Storage''),
     (LoopDetected, ''Loop Detected''),
     (NotExtended, ''Not Extended''),
     (NetworkAuthenticationRequired, ''Network Authentication Required'')]"

definition kStatusToReason :: "HttpStatus \<rightharpoonup> string" where
  "kStatusToReason = map_of reason_table"

record HttpResponse =
  http_status :: HttpStatus
  reason_phrase :: string
  response_headers :: "(string \<times> string) list"
  resource :: string

text \<open>
  The constructors. \<open>kStatusToReason.at\<close> would throw for a status that has no reason phrase,
  out of a \<^verbatim>\<open>noexcept\<close> constructor; \<open>reason_total\<close> says that every status has one.
\<close>

definition reason_of :: "HttpStatus \<Rightarrow> string" where
  "reason_of s = (case kStatusToReason s of Some r \<Rightarrow> r | None \<Rightarrow> [])"

definition HttpResponse_full :: "HttpStatus \<Rightarrow> string \<Rightarrow> (string \<times> string) list \<Rightarrow> string \<Rightarrow> HttpResponse" where
  "HttpResponse_full status reason headers res =
     \<lparr>http_status = status, reason_phrase = reason, response_headers = headers, resource = res\<rparr>"

definition HttpResponse_status :: "HttpStatus \<Rightarrow> HttpResponse" where
  "HttpResponse_status status =
     HttpResponse_full status (reason_of status) [(''Content-Length'', ''0'')] []"

definition HttpResponse_reason :: "string \<Rightarrow> HttpStatus \<Rightarrow> HttpResponse" where
  "HttpResponse_reason reason status =
     HttpResponse_full status reason [(''Content-Length'', ''0'')] []"

definition HttpResponse_resource :: "HttpStatus \<Rightarrow> string \<Rightarrow> HttpResponse" where
  "HttpResponse_resource status res =
     HttpResponse_full status (reason_of status)
       [(''Content-Type'', ''application/octet-stream''),
        (''Content-Length'', to_string (length res))] res"

definition HttpResponse_headers :: "HttpStatus \<Rightarrow> (string \<times> string) list \<Rightarrow> HttpResponse" where
  "HttpResponse_headers status headers =
     HttpResponse_full status (reason_of status) headers []"

definition kHttpVersion :: string where
  "kHttpVersion = ''HTTP/1.1''"

definition kResponseHeaderDelim :: string where
  "kResponseHeaderDelim = '': ''"

text \<open>\<^verbatim>\<open>operator std::string\<close>: status line, headers, an empty line, the body.\<close>

definition header_line :: "string \<times> string \<Rightarrow> string" where
  "header_line h = fst h @ kResponseHeaderDelim @ snd h @ crlf"

definition http_serialise :: "HttpResponse \<Rightarrow> string" where
  "http_serialise r =
     kHttpVersion @ '' '' @ to_string (http_code (http_status r)) @ '' '' @ reason_phrase r @ crlf
     @ concat (map header_line (response_headers r)) @ crlf @ resource r"

lemma status_in_table: "s \<in> set (map fst http_code_table)"
  by (cases s) (simp_all add: http_code_table_def)

lemma reason_table_statuses: "map fst reason_table = map fst http_code_table"
  by (simp add: reason_table_def http_code_table_def)

lemma reason_total: "kStatusToReason s = Some (reason_of s)"
proof -
  have "s \<in> fst ` set reason_table"
    using status_in_table [of s] by (simp flip: reason_table_statuses)
  then have "kStatusToReason s \<noteq> None"
    by (simp add: kStatusToReason_def map_of_eq_None_iff)
  then show ?thesis by (auto simp: reason_of_def)
qed

section \<open>Order of status codes\<close>

definition http_status_of :: "nat \<Rightarrow> HttpStatus option" where
  "http_status_of n = map_of (map prod.swap http_code_table) n"

lemma http_status_of_code: "http_status_of (http_code s) = Some s"
  by (cases s) (simp_all add: http_status_of_def http_code_def http_code_table_def)

lemma http_code_range: "100 \<le> http_code s \<and> http_code s < 600"
  by (cases s) (simp_all add: http_code_def http_code_table_def)

lemma http_code_inject [simp]: "http_code a = http_code b \<longleftrightarrow> a = b"
  by (metis http_status_of_code option.inject)

instantiation HttpStatus :: linorder
begin

definition less_eq_HttpStatus :: "HttpStatus \<Rightarrow> HttpStatus \<Rightarrow> bool" where
  "less_eq_HttpStatus a b \<longleftrightarrow> http_code a \<le> http_code b"

definition less_HttpStatus :: "HttpStatus \<Rightarrow> HttpStatus \<Rightarrow> bool" where
  "less_HttpStatus a b \<longleftrightarrow> http_code a < http_code b"

instance
  by standard (auto simp: less_eq_HttpStatus_def less_HttpStatus_def)

end

section \<open>Reading a response back\<close>

text \<open>
  The reader of RFC 9112: a status line, header lines up to an empty line, and as many bytes of
  body as \<^verbatim>\<open>Content-Length\<close> says.
\<close>

definition read_header :: "string \<Rightarrow> (string \<times> string) option" where
  "read_header l = map_option (\<lambda>j. (take j l, drop (j + 2) l)) (search kResponseHeaderDelim l 0)"

function read_headers :: "string \<Rightarrow> ((string \<times> string) list \<times> string) option" where
  "read_headers s =
     (case read_line s of
        None \<Rightarrow> None
      | Some (l, r) \<Rightarrow>
          if l = [] then Some ([], r)
          else (case read_header l of
              None \<Rightarrow> None
            | Some h \<Rightarrow> map_option (\<lambda>(hs, r'). (h # hs, r')) (read_headers r)))"
  by pat_completeness auto
termination
  by (relation "measure length") (auto dest: read_line_shorter)

declare read_headers.simps [simp del]

definition read_status_line :: "string \<Rightarrow> (HttpStatus \<times> string) option" where
  "read_status_line l =
     (if take 9 l = kHttpVersion @ '' '' \<and> length l > 12 \<and> l ! 12 = CHR '' '' then
        map_option (\<lambda>st. (st, drop 13 l)) (http_status_of (read_dec (take 3 (drop 9 l))))
      else None)"

definition read_response :: "string \<Rightarrow> (HttpResponse \<times> string) option" where
  "read_response s =
     (case read_line s of
        None \<Rightarrow> None
      | Some (l, r) \<Rightarrow>
          (case (read_status_line l, read_headers r) of
            (Some (st, reason), Some (hs, r')) \<Rightarrow>
              (case map_of hs ''Content-Length'' of
                 None \<Rightarrow> None
               | Some n \<Rightarrow>
                   if length r' < read_dec n then None
                   else Some (HttpResponse_full st reason hs (take (read_dec n) r'),
                          drop (read_dec n) r'))
          | _ \<Rightarrow> None))"

text \<open>What a response must satisfy to be read back: lines without line ends, and its length.\<close>

definition wf_header :: "string \<times> string \<Rightarrow> bool" where
  "wf_header h \<longleftrightarrow> list_all (\<lambda>c. c \<noteq> CHR '':'' \<and> c \<noteq> CHR 0x0D) (fst h) \<and> \<not> occurs crlf (snd h)"

definition framed :: "HttpResponse \<Rightarrow> bool" where
  "framed r \<longleftrightarrow> map_of (response_headers r) ''Content-Length'' = Some (to_string (length (resource r)))"

definition wf_response :: "HttpResponse \<Rightarrow> bool" where
  "wf_response r \<longleftrightarrow>
     \<not> occurs crlf (reason_phrase r) \<and> list_all wf_header (response_headers r) \<and> framed r"

lemma kHttpVersion_no_cr [simp]:
  "length kHttpVersion = 8" "list_all (\<lambda>c. c \<noteq> CHR 0x0D) kHttpVersion"
  by (simp_all add: kHttpVersion_def)

lemma kResponseHeaderDelim_no_cr [simp]:
  "length kResponseHeaderDelim = 2" "kResponseHeaderDelim \<noteq> []"
  "list_all (\<lambda>c. c \<noteq> CHR 0x0D) kResponseHeaderDelim"
  by (simp_all add: kResponseHeaderDelim_def)

lemma search_delim:
  assumes c: "CHR '':'' \<notin> set t"
  shows "search kResponseHeaderDelim (t @ kResponseHeaderDelim @ rest) 0 = Some (length t)"
proof -
  have "search kResponseHeaderDelim (t @ kResponseHeaderDelim @ rest) 0 = Some (0 + length t)"
  proof (rule search_skip)
    fix j
    let ?x = "t @ kResponseHeaderDelim @ rest"
    assume j: "j < length t"
    then have "drop j ?x = t ! j # drop (Suc j) ?x"
      using Cons_nth_drop_Suc [of j ?x] by (simp add: nth_append)
    moreover have "t ! j \<noteq> CHR '':''" using c j by (metis nth_mem)
    ultimately show "take (length kResponseHeaderDelim) (drop j ?x) \<noteq> kResponseHeaderDelim"
      by (simp add: kResponseHeaderDelim_def)
  qed
  then show ?thesis by simp
qed

lemma wf_headerD:
  assumes "wf_header (n, v)"
  shows "CHR '':'' \<notin> set n" "list_all (\<lambda>c. c \<noteq> CHR 0x0D) n" "\<not> occurs crlf v"
  using assms by (auto simp: wf_header_def list_all_iff)

lemma header_no_crlf: "wf_header (n, v) \<Longrightarrow> \<not> occurs crlf (n @ kResponseHeaderDelim @ v)"
  by (simp add: wf_headerD occurs_crlf_append)

lemma read_header_line: "wf_header (n, v) \<Longrightarrow> read_header (n @ kResponseHeaderDelim @ v) = Some (n, v)"
  by (simp add: read_header_def search_delim wf_headerD)

lemma read_headers_lines:
  "list_all wf_header hs \<Longrightarrow>
     read_headers (concat (map header_line hs) @ crlf @ rest) = Some (hs, rest)"
proof (induction hs)
  case Nil
  show ?case
    using read_line_line [of "[]" rest] by (subst read_headers.simps) simp
next
  case (Cons h hs)
  obtain n v where h: "h = (n, v)" by (cases h)
  let ?l = "n @ kResponseHeaderDelim @ v" and ?r = "concat (map header_line hs) @ crlf @ rest"
  have w: "wf_header (n, v)" using Cons.prems h by simp
  have "read_headers (?l @ crlf @ ?r) = Some (h # hs, rest)"
    using read_line_line [OF header_no_crlf [OF w], of ?r] read_header_line [OF w] Cons h
    by (subst read_headers.simps) simp
  then show ?case by (simp add: header_line_def [of "(n, v)"] h)
qed

lemma read_status_line_line:
  "read_status_line (kHttpVersion @ '' '' @ to_string (http_code st) @ '' '' @ reason) = Some (st, reason)"
proof -
  obtain a b c where abc: "to_string (http_code st) = [a, b, c]"
    using to_string_3 [of "http_code st"] http_code_range [of st] by auto
  then have "read_dec [a, b, c] = http_code st" by (metis read_dec_to_string)
  then show ?thesis
    by (simp add: read_status_line_def abc http_status_of_code nth_append)
qed

lemma read_response_serialise:
  assumes "wf_response r"
  shows "read_response (http_serialise r @ rest) = Some (r, rest)"
proof -
  let ?l = "kHttpVersion @ '' '' @ to_string (http_code (http_status r)) @ '' '' @ reason_phrase r"
  let ?r = "concat (map header_line (response_headers r)) @ crlf @ resource r @ rest"
  note wf = assms [unfolded wf_response_def framed_def]
  have "\<not> occurs crlf ?l"
    using wf by (simp add: occurs_crlf_append to_string_no_cr occurs_crlf_Cons)
  then have l: "read_line (?l @ crlf @ ?r) = Some (?l, ?r)" by (rule read_line_line)
  have h: "read_headers ?r = Some (response_headers r, resource r @ rest)"
    using wf by (simp add: read_headers_lines)
  have "read_response (?l @ crlf @ ?r) = Some (r, rest)"
    using wf unfolding read_response_def l h option.case prod.case read_status_line_line
    by (simp add: HttpResponse_full_def)
  then show ?thesis by (simp add: http_serialise_def)
qed

interpretation http_reply: stream_codec http_serialise read_response wf_response
  by unfold_locales (rule read_response_serialise)

text \<open>The constructors the server uses give such responses.\<close>

lemma reason_of_no_cr: "list_all (\<lambda>c. c \<noteq> CHR 0x0D) (reason_of s)"
proof -
  have "list_all (\<lambda>p. list_all (\<lambda>c. c \<noteq> CHR 0x0D) (snd p)) reason_table"
    by (simp add: reason_table_def)
  moreover have "(s, reason_of s) \<in> set reason_table"
    using reason_total [of s] by (auto simp: kStatusToReason_def dest: map_of_SomeD)
  ultimately show ?thesis by (auto simp: list_all_iff)
qed

lemma reason_of_no_crlf [simp]: "\<not> occurs crlf (reason_of s)"
  by (rule no_cr_no_crlf) (rule reason_of_no_cr)

lemma to_string_0: "to_string 0 = ''0''"
  by code_simp

lemma wf_HttpResponse_status [simp]: "wf_response (HttpResponse_status s)"
  by (simp add: wf_response_def HttpResponse_status_def HttpResponse_full_def wf_header_def
      framed_def to_string_0 occurs_crlf_Cons)

lemma wf_HttpResponse_resource [simp]: "wf_response (HttpResponse_resource s res)"
  by (simp add: wf_response_def HttpResponse_resource_def HttpResponse_full_def wf_header_def
      framed_def occurs_crlf_Cons no_cr_no_crlf to_string_no_cr)

end
