(* ===== verification/User_Database.thy ===== *)
theory User_Database
  imports Storage_Prelude
begin

text \<open>
  \<^verbatim>\<open>user/iuser_database.hpp\<close> and \<^verbatim>\<open>user/database/src\<close>. The interface is the locale
  \<open>user_registry\<close>; the database is its model. Every operation holds the database's lock from
  its first to its last access of the map, so each is one step of the model.
\<close>

record User =
  username :: string
  password :: string

section \<open>The interface\<close>

locale user_registry =
  fixes add :: "'db \<Rightarrow> User \<Rightarrow> bool \<times> 'db"
    and verify :: "'db \<Rightarrow> User \<Rightarrow> bool"
  assumes add_verify: "fst (add db u) \<Longrightarrow>
      username v = username u \<Longrightarrow> verify (snd (add db u)) v \<longleftrightarrow> password v = password u"
    and add_other: "username v \<noteq> username u \<Longrightarrow> verify (snd (add db u)) v \<longleftrightarrow> verify db v"
    and add_refused: "\<not> fst (add db u) \<Longrightarrow> snd (add db u) = db"
    and add_once: "fst (add db u) \<Longrightarrow> username v = username u \<Longrightarrow> \<not> fst (add (snd (add db u)) v)"
    and add_keeps: "username v \<noteq> username u \<Longrightarrow> fst (add (snd (add db u)) v) \<longleftrightarrow> fst (add db v)"
begin

text \<open>The first registration of a name wins: whatever is added later, its password stays.\<close>

lemma refused_stays_refused:
  assumes "\<not> fst (add db v)"
  shows "\<not> fst (add (snd (add db w)) v)"
proof (cases "username v = username w")
  case True
  show ?thesis
  proof (cases "fst (add db w)")
    case True
    with \<open>username v = username w\<close> show ?thesis by (intro add_once)
  next
    case False
    with assms show ?thesis by (simp add: add_refused)
  qed
next
  case False
  with assms show ?thesis by (simp add: add_keeps)
qed

lemma later_add_keeps_verify:
  assumes "\<And>w. username w = username v \<Longrightarrow> \<not> fst (add db w)"
  shows "verify (snd (add db w)) v \<longleftrightarrow> verify db v"
  using assms add_other add_refused by (cases "username v = username w") auto

lemma later_adds_keep_verify:
  assumes "\<And>w. username w = username v \<Longrightarrow> \<not> fst (add db w)"
  shows "verify (foldl (\<lambda>d w. snd (add d w)) db ws) v \<longleftrightarrow> verify db v"
  using assms
proof (induction ws arbitrary: db)
  case (Cons w ws)
  have "\<And>x. username x = username v \<Longrightarrow> \<not> fst (add (snd (add db w)) x)"
    using Cons.prems refused_stays_refused by blast
  then have "verify (foldl (\<lambda>d w. snd (add d w)) (snd (add db w)) ws) v \<longleftrightarrow> verify (snd (add db w)) v"
    by (rule Cons.IH)
  with later_add_keeps_verify [OF Cons.prems] show ?case by simp
qed simp

lemma registered_password:
  assumes "fst (add db u)" and "username v = username u"
  shows "verify (foldl (\<lambda>d w. snd (add d w)) (snd (add db u)) ws) v \<longleftrightarrow> password v = password u"
proof -
  have "\<And>w. username w = username v \<Longrightarrow> \<not> fst (add (snd (add db u)) w)"
    using add_once [OF assms(1)] assms(2) by simp
  then have "verify (foldl (\<lambda>d w. snd (add d w)) (snd (add db u)) ws) v \<longleftrightarrow>
      verify (snd (add db u)) v"
    by (rule later_adds_keep_verify)
  with add_verify [OF assms] show ?thesis by simp
qed

end

section \<open>The database\<close>

text \<open>The map from user names to passwords; \<^verbatim>\<open>insert\<close> leaves an entry that is there alone.\<close>

type_synonym UserDatabase = "string \<rightharpoonup> string"

definition kUsersWithoutPassword :: "string list" where
  "kUsersWithoutPassword = [''anonymous'']"

definition requirePassword :: "User \<Rightarrow> bool" where
  "requirePassword user \<longleftrightarrow> username user \<notin> set kUsersWithoutPassword"

definition db_add :: "UserDatabase \<Rightarrow> User \<Rightarrow> bool \<times> UserDatabase" where
  "db_add users user =
     (if \<not> requirePassword user then (False, users)
      else case users (username user) of
        Some _ \<Rightarrow> (False, users)
      | None \<Rightarrow> (True, users(username user \<mapsto> password user)))"

definition db_verify :: "UserDatabase \<Rightarrow> User \<Rightarrow> bool" where
  "db_verify users user =
     (if \<not> requirePassword user then True
      else case users (username user) of
        None \<Rightarrow> False
      | Some p \<Rightarrow> p = password user)"

text \<open>\<^verbatim>\<open>operator<<\<close>\<close>

definition show_user :: "User \<Rightarrow> string" where
  "show_user user = username user @ '':'' @ password user"

interpretation users: user_registry db_add db_verify
  by unfold_locales
    (auto simp: db_add_def db_verify_def requirePassword_def split: if_splits option.splits)

text \<open>Registered users have a name that needs a password.\<close>

definition db_inv :: "UserDatabase \<Rightarrow> bool" where
  "db_inv users \<longleftrightarrow> dom users \<inter> set kUsersWithoutPassword = {}"

lemma db_inv_empty: "db_inv Map.empty"
  by (simp add: db_inv_def)

lemma db_inv_add: "db_inv users \<Longrightarrow> db_inv (snd (db_add users u))"
  by (auto simp: db_inv_def db_add_def requirePassword_def split: option.splits)

lemma db_verify_anonymous: "db_verify users \<lparr>username = ''anonymous'', password = p\<rparr>"
  by (simp add: db_verify_def requirePassword_def kUsersWithoutPassword_def)

lemma db_verify_iff:
  "db_verify users u \<longleftrightarrow> \<not> requirePassword u \<or> users (username u) = Some (password u)"
  by (auto simp: db_verify_def split: option.splits)

section \<open>Properties\<close>

text \<open>
  C27. The first registration of a name decides: whatever is added afterwards, the name is
  verified with the password it was registered with and with no other.
\<close>

theorem first_registration_decides:
  assumes "fst (db_add db u)" and "username v = username u"
  shows "db_verify (foldl (\<lambda>d w. snd (db_add d w)) (snd (db_add db u)) ws) v
    \<longleftrightarrow> password v = password u"
  using assms by (rule users.registered_password)

lemma first_registration_decides_witness:
  "db_verify (foldl (\<lambda>d w. snd (db_add d w))
       (snd (db_add Map.empty \<lparr>username = ''Nord'', password = ''VPN''\<rparr>))
       [\<lparr>username = ''Nord'', password = ''x''\<rparr>]) \<lparr>username = ''Nord'', password = ''VPN''\<rparr>
   \<longleftrightarrow> password \<lparr>username = ''Nord'', password = ''VPN''\<rparr>
     = password \<lparr>username = ''Nord'', password = ''VPN''\<rparr>"
  by (rule first_registration_decides)
    (simp_all add: db_add_def requirePassword_def kUsersWithoutPassword_def)

text \<open>
  Whoever calls himself \<open>anonymous\<close> is verified, with any password and whatever users have
  been added, and can never be registered.
\<close>

lemma anonymous_always_verified:
  "db_verify (foldl (\<lambda>d w. snd (db_add d w)) db ws) \<lparr>username = ''anonymous'', password = p\<rparr>
   \<and> \<not> fst (db_add db \<lparr>username = ''anonymous'', password = p\<rparr>)"
  by (simp add: db_verify_anonymous db_add_def requirePassword_def kUsersWithoutPassword_def)

end
