(* ===== verification/Session_State.thy ===== *)
theory Session_State
  imports Detector Ftp_Request Ftp_Reply Http_Request Http_Reply User_Database Memory_Fs
begin

text \<open>
  The state of a session (\<^verbatim>\<open>server/object_storage/src/session.hpp\<close>) and the operations its
  handlers share (\<^verbatim>\<open>session.cpp\<close>): the queue of replies, the queue of data to send, the data
  acceptor, the reading and saving of an uploaded file.

  Asynchronous code is made explicit. The two strands are queues of tasks, run one at a time
  and in order. A call that starts an asynchronous operation puts the operation, with what its
  completion handler captures, on a list of outstanding operations; the completion handler is
  a function of its own, applied when the operation ends.
\<close>

section \<open>Data\<close>

type_synonym port = "16 word"

record PortRange =
  min_port :: port
  max_port :: port

text \<open>The data acceptor: closed, open but not listening, or listening on a port.\<close>

datatype acceptor = Closed | Opened | Listening port

definition is_open :: "acceptor \<Rightarrow> bool" where
  "is_open a \<longleftrightarrow> a \<noteq> Closed"

text \<open>What the operating system answers when the acceptor is set up.\<close>

record acceptor_env =
  open_ok :: bool
  bind_ok :: bool
  listen_ok :: bool
  bound_port :: port

text \<open>
  Tasks posted to \<^verbatim>\<open>serializer_\<close> and to \<^verbatim>\<open>ftp_data_serializer_\<close>. A data socket is the number
  it got when it was made. The end-of-transmission mark of the data queue is \<open>None\<close>.
\<close>

datatype task = ReceiveMessage | EnqueueMessage string

datatype data_task =
    CloseFtpDataSocket
  | SendFtpData nat
  | EnqueueFtpData "File option" nat
  | SaveFile File string

text \<open>
  Outstanding accepts: LIST and RETR wait to send, STOR waits to receive. An accept started on
  an acceptor that is not listening can only fail.
\<close>

datatype accept_handler = SendOnAccept nat File | ReceiveOnAccept nat File string

record pending_accept =
  can_succeed :: bool
  on_accept :: accept_handler

record pending_read =
  read_socket :: nat
  read_file :: File
  read_path :: string

text \<open>
  A session. \<open>filesystem\<close> and \<open>user_database\<close> stand for the objects all sessions share.
  \<open>socket_rx\<close> holds what has arrived on the control connection and was not read, cut as the
  reads of the socket will return it; \<open>socket_eof\<close> says that nothing more will come, and
  \<open>control_closed\<close> that the session itself has closed the control connection.
  \<open>wire\<close> and \<open>data_wire\<close> record what has been written, and \<open>sent_log\<close> every message handed to
  \<open>sendMessage\<close>: the code has no such members.
\<close>

record session =
  user_database :: UserDatabase
  authenticate :: bool
  filesystem :: MemoryFs
  local_address :: "8 word list option"
  client_port :: port
  serializer :: "task list"
  input_stream :: string
  output_queue :: "string list"
  ftp_data_acceptor :: acceptor
  ftp_data_serializer :: "data_task list"
  ftp_data_socket :: "nat option"
  ftp_data_buffer :: "File option list"
  ftp_port_range :: PortRange
  last_username :: string
  logged_in_user :: "User option"
  last_ftp_command :: FtpCommand
  current_working_dir :: string
  socket_rx :: "string list"
  socket_eof :: bool
  control_closed :: bool
  receives :: nat
  writes :: "string list"
  accepts :: "pending_accept list"
  data_writes :: "(nat \<times> File) list"
  file_reads :: "pending_read list"
  body_reads :: "(nat \<times> string) list"
  next_socket :: nat
  closed_sockets :: "nat list"
  wire :: "string list"
  data_wire :: "(nat \<times> File) list"
  sent_log :: "string list"

section \<open>The reply queue\<close>

text \<open>\<^verbatim>\<open>receiveMessage\<close> starts one \<^verbatim>\<open>async_read_until\<close> on the control socket.\<close>

definition receiveMessage :: "session \<Rightarrow> session" where
  "receiveMessage s = s\<lparr>receives := Suc (receives s)\<rparr>"

definition sendMessage :: "string \<Rightarrow> session \<Rightarrow> session" where
  "sendMessage message s =
     s\<lparr>serializer := serializer s @ [EnqueueMessage message], sent_log := sent_log s @ [message]\<rparr>"

definition sendMessageHandler :: "session \<Rightarrow> session result" where
  "sendMessageHandler s =
     (case output_queue s of
        [] \<Rightarrow> Inl Undefined_Behaviour
      | m # _ \<Rightarrow> Inr (s\<lparr>writes := writes s @ [m]\<rparr>))"

text \<open>The task that \<open>sendMessage\<close> posts.\<close>

definition enqueue_message :: "string \<Rightarrow> session \<Rightarrow> session result" where
  "enqueue_message message s =
     (let write_in_progress = (output_queue s \<noteq> []);
          s1 = s\<lparr>output_queue := output_queue s @ [message]\<rparr>
      in if \<not> write_in_progress then sendMessageHandler s1 else Inr s1)"

text \<open>The completion handler of the write that \<open>sendMessageHandler\<close> starts.\<close>

definition message_written :: "string \<Rightarrow> bool \<Rightarrow> session \<Rightarrow> session result" where
  "message_written m ok s =
     (case output_queue s of
        [] \<Rightarrow> Inl Undefined_Behaviour
      | _ # rest \<Rightarrow>
          if ok then
            let s1 = s\<lparr>output_queue := rest, wire := wire s @ [m]\<rparr>
            in if rest \<noteq> [] then sendMessageHandler s1 else Inr s1
          else Inr s)"

definition ftp_reply_to :: "FtpReplyCode \<Rightarrow> string \<Rightarrow> session \<Rightarrow> session" where
  "ftp_reply_to code text s = sendMessage (ftp_serialise (FtpResponse2 code text)) s"

definition http_reply_to :: "HttpResponse \<Rightarrow> session \<Rightarrow> session" where
  "http_reply_to r s = sendMessage (http_serialise r) s"

section \<open>The data queue\<close>

definition close_socket :: "nat \<Rightarrow> session \<Rightarrow> session" where
  "close_socket k s = s\<lparr>closed_sockets := k # closed_sockets s\<rparr>"

text \<open>
  \<^verbatim>\<open>closeFtpDataSocket\<close>. If the weak pointer has expired, the socket's destructor has closed
  it already, so the socket it named is closed either way.
\<close>

definition closeFtpDataSocket :: "session \<Rightarrow> session" where
  "closeFtpDataSocket s =
     (case ftp_data_socket s of None \<Rightarrow> s | Some k \<Rightarrow> close_socket k s)"

text \<open>\<^verbatim>\<open>closeSocket\<close>: nothing can be read from the control connection any more.\<close>

definition closeSocket :: "session \<Rightarrow> session" where
  "closeSocket s = s\<lparr>control_closed := True, socket_eof := True, socket_rx := []\<rparr>"

definition post_data_task :: "data_task \<Rightarrow> session \<Rightarrow> session" where
  "post_data_task t s = s\<lparr>ftp_data_serializer := ftp_data_serializer s @ [t]\<rparr>"

definition sendFtpDataHandler :: "nat \<Rightarrow> session \<Rightarrow> session" where
  "sendFtpDataHandler data_socket s = post_data_task (SendFtpData data_socket) s"

text \<open>The task that \<open>sendFtpDataHandler\<close> posts, and the completion of the write it starts.\<close>

definition send_ftp_data :: "nat \<Rightarrow> session \<Rightarrow> session result" where
  "send_ftp_data data_socket s =
     (case ftp_data_buffer s of
        [] \<Rightarrow> Inl Undefined_Behaviour
      | Some data # _ \<Rightarrow> Inr (s\<lparr>data_writes := data_writes s @ [(data_socket, data)]\<rparr>)
      | None # rest \<Rightarrow>
          Inr (ftp_reply_to CLOSING_DATA_CONNECTION ''Done''
                (close_socket data_socket (s\<lparr>ftp_data_buffer := rest\<rparr>))))"

definition data_written :: "nat \<times> File \<Rightarrow> bool \<Rightarrow> session \<Rightarrow> session result" where
  "data_written w ok s =
     (case ftp_data_buffer s of
        [] \<Rightarrow> Inl Undefined_Behaviour
      | _ # rest \<Rightarrow>
          let s1 = s\<lparr>ftp_data_buffer := rest\<rparr> in
          if \<not> ok then Inr s1
          else
            let s2 = s1\<lparr>data_wire := data_wire s @ [w]\<rparr>
            in Inr (if rest \<noteq> [] then sendFtpDataHandler (fst w) s2 else s2))"

definition enqueueFtpDataHandler :: "File option \<Rightarrow> nat \<Rightarrow> session \<Rightarrow> session" where
  "enqueueFtpDataHandler file data_socket s = post_data_task (EnqueueFtpData file data_socket) s"

definition enqueue_ftp_data :: "File option \<Rightarrow> nat \<Rightarrow> session \<Rightarrow> session result" where
  "enqueue_ftp_data file data_socket s =
     (let write_in_progress = (ftp_data_buffer s \<noteq> []);
          s1 = s\<lparr>ftp_data_buffer := ftp_data_buffer s @ [file]\<rparr>
      in Inr (if \<not> write_in_progress then sendFtpDataHandler data_socket s1 else s1))"

section \<open>Receiving and saving a file\<close>

definition receive_buffer_size :: nat where
  "receive_buffer_size = 1024 * 1024 * 1"

definition receiveFile :: "File \<Rightarrow> string \<Rightarrow> nat \<Rightarrow> session \<Rightarrow> session" where
  "receiveFile file filepath socket s =
     s\<lparr>file_reads := file_reads s @ [\<lparr>read_socket = socket, read_file = file, read_path = filepath\<rparr>]\<rparr>"

definition saveFile :: "File \<Rightarrow> string \<Rightarrow> session \<Rightarrow> session" where
  "saveFile file filepath s = post_data_task (SaveFile file filepath) s"

definition save_file :: "File \<Rightarrow> string \<Rightarrow> session \<Rightarrow> session" where
  "save_file file filepath s =
     (case fs_add (filesystem s) filepath file of
        (status, fs') \<Rightarrow>
          let s1 = s\<lparr>filesystem := fs'\<rparr>;
              s2 = (case status of
                      Success \<Rightarrow> ftp_reply_to CLOSING_DATA_CONNECTION ''File saved'' s1
                    | _ \<Rightarrow> ftp_reply_to FILE_ACTION_NOT_TAKEN ''File not saved'' s1)
          in closeFtpDataSocket s2)"

text \<open>
  The completion of a read: \<open>buffer\<close> is what was received, \<open>error\<close> whether the read ended with
  an error code, the end of the file among them. The next read is started before the bytes
  are appended; they are appended before it can complete.
\<close>

definition file_read :: "pending_read \<Rightarrow> string \<Rightarrow> bool \<Rightarrow> session \<Rightarrow> session" where
  "file_read r buffer error s =
     (if error then
        saveFile (if length buffer > 0 then read_file r @ buffer else read_file r) (read_path r) s
      else if length buffer > 0 then
        receiveFile (read_file r @ buffer) (read_path r) (read_socket r) s
      else s)"

section \<open>The data acceptor\<close>

text \<open>
  Closing it makes an accept that waits on it fail; one whose connection was there before, and
  whose handler has only not been run yet, still succeeds. An outstanding accept may end in
  either way, so the list of them stays as it is.
\<close>

definition close_acceptor :: "session \<Rightarrow> session" where
  "close_acceptor s = s\<lparr>ftp_data_acceptor := Closed\<rparr>"

definition configureDataAcceptor :: "acceptor_env \<Rightarrow> session \<Rightarrow> bool \<times> session" where
  "configureDataAcceptor env s =
     (let s0 = (if is_open (ftp_data_acceptor s) then close_acceptor s else s) in
      if \<not> open_ok env then (False, s0)
      else
        let s1 = s0\<lparr>ftp_data_acceptor := Opened\<rparr> in
        if \<not> bind_ok env then (False, s1)
        else if \<not> listen_ok env then (False, s1)
        else (True, s1\<lparr>ftp_data_acceptor := Listening (bound_port env)\<rparr>))"

definition async_accept :: "accept_handler \<Rightarrow> session \<Rightarrow> session" where
  "async_accept h s =
     s\<lparr>accepts := accepts s @
         [\<lparr>can_succeed = (case ftp_data_acceptor s of Listening _ \<Rightarrow> True | _ \<Rightarrow> False),
           on_accept = h\<rparr>]\<rparr>"

text \<open>\<^verbatim>\<open>std::make_shared<Socket>\<close>\<close>

definition make_socket :: "session \<Rightarrow> nat \<times> session" where
  "make_socket s = (next_socket s, s\<lparr>next_socket := Suc (next_socket s)\<rparr>)"

definition acceptFile :: "File \<Rightarrow> string \<Rightarrow> session \<Rightarrow> session" where
  "acceptFile file filepath s =
     (case make_socket s of (k, s1) \<Rightarrow> async_accept (ReceiveOnAccept k file filepath) s1)"

text \<open>The tail of LIST and RETR: wait for the data connection, then send.\<close>

definition accept_and_send :: "File \<Rightarrow> session \<Rightarrow> session" where
  "accept_and_send file s =
     (case make_socket s of (k, s1) \<Rightarrow> async_accept (SendOnAccept k file) s1)"

text \<open>Completion of an accept: the error's message, or none.\<close>

definition accept_done :: "accept_handler \<Rightarrow> string option \<Rightarrow> session \<Rightarrow> session" where
  "accept_done h error s =
     (case error of
        Some msg \<Rightarrow> ftp_reply_to TRANSFER_ABORTED (''Data transfer aborted: '' @ msg) s
      | None \<Rightarrow>
          (case h of
             SendOnAccept k file \<Rightarrow>
               enqueueFtpDataHandler None k
                 (enqueueFtpDataHandler (Some file) k (s\<lparr>ftp_data_socket := Some k\<rparr>))
           | ReceiveOnAccept k file filepath \<Rightarrow>
               receiveFile file filepath k (s\<lparr>ftp_data_socket := Some k\<rparr>)))"

section \<open>Reading from the control connection\<close>

text \<open>
  \<^verbatim>\<open>read_until\<close>: take what arrives into the stream buffer until it holds the delimiter. The
  result is the length up to the delimiter's end, the stream buffer (which may hold more)
  and what is left in the socket. \<open>None\<close>: the delimiter has not arrived.
\<close>

fun read_until :: "string \<Rightarrow> string \<Rightarrow> string list \<Rightarrow> (nat \<times> string \<times> string list) option" where
  "read_until d buf [] =
     (case search d buf 0 of None \<Rightarrow> None | Some i \<Rightarrow> Some (i + length d, buf, []))"
| "read_until d buf (x # xs) =
     (case search d buf 0 of
        Some i \<Rightarrow> Some (i + length d, buf, x # xs)
      | None \<Rightarrow> read_until d (buf @ x) xs)"

text \<open>\<^verbatim>\<open>async_read\<close> of exactly \<open>n\<close> bytes, from the socket itself.\<close>

fun read_exactly :: "nat \<Rightarrow> string list \<Rightarrow> (string \<times> string list) option" where
  "read_exactly n [] = (if n = 0 then Some ([], []) else None)"
| "read_exactly n (x # xs) =
     (if n < length x then Some (take n x, drop n x # xs)
      else map_option (\<lambda>(bs, r). (x @ bs, r)) (read_exactly (n - length x) xs))"

lemma read_until_Some:
  "read_until d buf xs = Some (n, buf', xs') \<Longrightarrow>
     buf' @ concat xs' = buf @ concat xs \<and> (\<exists>line. take n buf' = line @ d \<and> search d buf' 0 = Some (length line))"
proof (induction d buf xs rule: read_until.induct)
  case (1 d buf)
  then obtain i where i: "search d buf 0 = Some i" "n = i + length d" "buf' = buf" "xs' = []"
    by (auto split: option.splits)
  with search_split [OF i(1)] search_Some [OF i(1)] show ?case
    by (auto simp: take_add intro!: exI [of _ "take i buf"])
next
  case (2 d buf x xs)
  show ?case
  proof (cases "search d buf 0")
    case None
    with 2 show ?thesis by auto
  next
    case (Some i)
    with "2.prems" have i: "n = i + length d" "buf' = buf" "xs' = x # xs" by auto
    with Some search_split [OF Some] search_Some [OF Some] show ?thesis
      by (auto simp: take_add intro!: exI [of _ "take i buf"])
  qed
qed

lemma read_exactly_Some:
  "read_exactly n xs = Some (bs, xs') \<Longrightarrow> length bs = n \<and> bs @ concat xs' = concat xs"
proof (induction n xs arbitrary: bs rule: read_exactly.induct)
  case (2 n x xs)
  show ?case
  proof (cases "n < length x")
    case True
    with "2.prems" show ?thesis by auto
  next
    case False
    with "2.prems" obtain cs where "read_exactly (n - length x) xs = Some (cs, xs')" "bs = x @ cs"
      by auto
    with "2.IH" [OF False] False show ?thesis by auto
  qed
qed (auto split: if_splits)

lemma read_exactly_None: "read_exactly n xs = None \<longleftrightarrow> length (concat xs) < n"
  by (induction n xs rule: read_exactly.induct) auto

end
