(* ===== verification/Session_Ftp.thy ===== *)
theory Session_Ftp
  imports Session_State
begin

unbundle bit_operations_syntax

text \<open>
  \<^verbatim>\<open>ftp_command_handlers.cpp\<close>: one function per FTP command and the dispatcher \<open>handleFtp\<close>.
  A handler that indexes the tokens without looking at their number has no defined result when
  they are too few.
\<close>

section \<open>The handlers\<close>

definition token :: "FtpParser \<Rightarrow> nat \<Rightarrow> string result" where
  "token p i = and_then (vector_at (ftp_tokens p) i) (\<lambda>v. Inr (sv_chars v))"

definition handleFtpUser :: "FtpParser \<Rightarrow> session \<Rightarrow> session result" where
  "handleFtpUser parser s =
     (let s1 = s\<lparr>logged_in_user := None\<rparr> in
      if length (ftp_tokens parser) \<noteq> 2 then
        Inr (ftp_reply_to SYNTAX_ERROR_PARAMETERS ''No username provided'' s1)
      else
        and_then (token parser 1) (\<lambda>name.
          Inr (ftp_reply_to USER_NAME_OK ''Please provide password'' (s1\<lparr>last_username := name\<rparr>))))"

definition handleFtpPass :: "FtpParser \<Rightarrow> session \<Rightarrow> session result" where
  "handleFtpPass parser s =
     (if last_ftp_command s \<noteq> FtpCommand.User then
        Inr (ftp_reply_to COMMANDS_BAD_SEQUENCE ''Please specify username first'' s)
      else if length (ftp_tokens parser) \<noteq> 2 then
        Inr (ftp_reply_to SYNTAX_ERROR_PARAMETERS ''No password provided'' s)
      else
        and_then (token parser 1) (\<lambda>pass.
          let user = \<lparr>username = last_username s, password = pass\<rparr> in
          if db_verify (user_database s) user then
            Inr (ftp_reply_to USER_LOGGED_IN ''Login successful'' (s\<lparr>logged_in_user := Some user\<rparr>))
          else Inr (ftp_reply_to NOT_LOGGED_IN ''Failed to log in'' s)))"

text \<open>The listing that LIST and \<^verbatim>\<open>GET /\<close> send: a line for every path.\<close>

definition directory_listing :: "MemoryFs \<Rightarrow> string" where
  "directory_listing m = concat (map (\<lambda>p. p @ [CHR 0x0A]) (fs_list m))"

definition not_logged_in :: "session \<Rightarrow> session" where
  "not_logged_in s = ftp_reply_to NOT_LOGGED_IN ''Not logged in'' s"

definition handleFtpList :: "FtpParser \<Rightarrow> session \<Rightarrow> session result" where
  "handleFtpList parser s =
     (if logged_in_user s = None then Inr (not_logged_in s)
      else
        let s1 = ftp_reply_to FILE_STATUS_OK_OPENING_DATA_CONNECTION ''Listing all objects stored'' s
        in Inr (accept_and_send (directory_listing (filesystem s1)) s1))"

definition handleFtpRetr :: "FtpParser \<Rightarrow> session \<Rightarrow> session result" where
  "handleFtpRetr parser s =
     (if logged_in_user s = None then Inr (not_logged_in s)
      else if \<not> is_open (ftp_data_acceptor s) then
        Inr (ftp_reply_to ERROR_OPENING_DATA_CONNECTION ''Error opening data connection'' s)
      else
        and_then (token parser 1) (\<lambda>arg.
          let filepath = current_working_dir s @ arg in
          case fs_get (filesystem s) filepath of
            (Success, Some file) \<Rightarrow>
              Inr (accept_and_send file
                (ftp_reply_to FILE_STATUS_OK_OPENING_DATA_CONNECTION ''Sending file'' s))
          | (Success, None) \<Rightarrow> Inl Undefined_Behaviour
          | _ \<Rightarrow> Inr (ftp_reply_to ACTION_NOT_TAKEN ''File not found'' s)))"

definition handleFtpStor :: "FtpParser \<Rightarrow> session \<Rightarrow> session result" where
  "handleFtpStor parser s =
     (if logged_in_user s = None then Inr (not_logged_in s)
      else if length (ftp_tokens parser) \<noteq> 2 then
        Inr (ftp_reply_to SYNTAX_ERROR_PARAMETERS ''No file specified'' s)
      else if \<not> is_open (ftp_data_acceptor s) then
        Inr (ftp_reply_to ERROR_OPENING_DATA_CONNECTION ''Faile to open data connection'' s)
      else
        and_then (token parser 1) (\<lambda>arg.
          let s1 = ftp_reply_to FILE_STATUS_OK_OPENING_DATA_CONNECTION ''Ready to receive'' s
          in Inr (acceptFile [] (current_working_dir s1 @ arg) s1)))"

definition handleFtpDele :: "FtpParser \<Rightarrow> session \<Rightarrow> session result" where
  "handleFtpDele parser s =
     (if logged_in_user s = None then Inr (not_logged_in s)
      else
        and_then (token parser 1) (\<lambda>filepath.
          case fs_remove (filesystem s) filepath of
            (status, fs') \<Rightarrow>
              let s1 = s\<lparr>filesystem := fs'\<rparr> in
              (case status of
                 Success \<Rightarrow> Inr (ftp_reply_to FILE_ACTION_COMPLETED ''File deleted'' s1)
               | _ \<Rightarrow> Inr (ftp_reply_to ACTION_NOT_TAKEN ''Unable to delete file'' s1))))"

text \<open>The address and the port of the data connection, byte by byte.\<close>

definition passive_endpoint :: "8 word list \<Rightarrow> port \<Rightarrow> string" where
  "passive_endpoint ip_bytes p =
     ''('' @ concat (map (\<lambda>b. to_string (unat b) @ '','') ip_bytes)
     @ to_string (unat (drop_bit 8 p AND 0xFF)) @ '','' @ to_string (unat (p AND 0xFF)) @ '')''"

definition handleFtpPasv :: "acceptor_env \<Rightarrow> FtpParser \<Rightarrow> session \<Rightarrow> session result" where
  "handleFtpPasv env parser s =
     (if logged_in_user s = None then Inr (not_logged_in s)
      else
        case configureDataAcceptor env s of
          (False, s1) \<Rightarrow> Inr (ftp_reply_to SERVICE_NOT_AVAILABLE ''Passive mode not supported'' s1)
        | (True, s1) \<Rightarrow>
            (case (local_address s1, ftp_data_acceptor s1) of
               (Some ip_bytes, Listening p) \<Rightarrow>
                 Inr (ftp_reply_to ENTERING_PASSIVE_MODE
                   (''Entering passive mode '' @ passive_endpoint ip_bytes p) s1)
             | (None, _) \<Rightarrow> Inl (Terminate Bad_Address_Cast)
             | _ \<Rightarrow> Inl (Terminate System_Error)))"

definition handleFtpType :: "FtpParser \<Rightarrow> session \<Rightarrow> session result" where
  "handleFtpType parser s =
     (if logged_in_user s = None then Inr (not_logged_in s)
      else Inr (ftp_reply_to COMMAND_OK ''Mode switched'' s))"

definition handleFtpQuit :: "FtpParser \<Rightarrow> session \<Rightarrow> session result" where
  "handleFtpQuit parser s =
     Inr (ftp_reply_to SERVICE_CLOSING_CONTROL_CONNECTION ''Connection closed''
       (s\<lparr>logged_in_user := None, current_working_dir := ''/'',
          last_ftp_command := FtpCommand.Unrecognized, last_username := []\<rparr>))"

definition handleFtpCwd :: "FtpParser \<Rightarrow> session \<Rightarrow> session result" where
  "handleFtpCwd parser s =
     (if logged_in_user s = None then Inr (not_logged_in s)
      else if length (ftp_tokens parser) \<noteq> 2 then
        Inr (ftp_reply_to SYNTAX_ERROR_PARAMETERS ''No directory specified'' s)
      else
        and_then (token parser 1) (\<lambda>dir.
          Inr (ftp_reply_to FILE_ACTION_COMPLETED ''Working directory changed''
            (s\<lparr>current_working_dir := current_working_dir s @ dir @ ''/''\<rparr>))))"

section \<open>The dispatcher\<close>

text \<open>\<^verbatim>\<open>ftp_handlers_\<close>; a command that is not in the table would throw out of \<open>handleFtp\<close>.\<close>

definition ftp_handlers ::
    "acceptor_env \<Rightarrow> FtpCommand \<Rightarrow> (FtpParser \<Rightarrow> session \<Rightarrow> session result) option" where
  "ftp_handlers env c =
     (case c of
        FtpCommand.User \<Rightarrow> Some handleFtpUser
      | Pass \<Rightarrow> Some handleFtpPass
      | FtpCommand.List \<Rightarrow> Some handleFtpList
      | Retr \<Rightarrow> Some handleFtpRetr
      | Stor \<Rightarrow> Some handleFtpStor
      | Dele \<Rightarrow> Some handleFtpDele
      | Pasv \<Rightarrow> Some (handleFtpPasv env)
      | FtpCommand.Type \<Rightarrow> Some handleFtpType
      | Quit \<Rightarrow> Some handleFtpQuit
      | Cwd \<Rightarrow> Some handleFtpCwd
      | FtpCommand.Unrecognized \<Rightarrow> None)"

definition handleFtp :: "acceptor_env \<Rightarrow> string \<Rightarrow> session \<Rightarrow> session result" where
  "handleFtp env request s =
     and_then (parse_ftp request) (\<lambda>parser.
     and_then
       (if ftp_valid parser then
          (case ftp_handlers env (ftp_command parser) of
             None \<Rightarrow> Inl (Terminate Out_Of_Range)
           | Some handler \<Rightarrow>
               and_then (handler parser s) (\<lambda>s1.
                 Inr (s1\<lparr>last_ftp_command := ftp_command parser\<rparr>)))
        else
          Inr (sendMessage (ftp_serialise (FtpResponse1 SYNTAX_ERROR_UNRECOGNIZED_COMMAND)) s))
       (\<lambda>s2. Inr (receiveMessage s2)))"

end
