(* ===== verification/Session_Http.thy ===== *)
theory Session_Http
  imports Session_Ftp
begin

text \<open>
  \<^verbatim>\<open>http_method_handlers.cpp\<close>: reading the rest of a request head, authentication, and one
  function per method. \<open>handleHttp\<close> and \<open>authHttpUser\<close> are \<^verbatim>\<open>noexcept\<close>: an exception in
  them ends the process.
\<close>

definition authHttpUser :: "HttpParser \<Rightarrow> session \<Rightarrow> bool result" where
  "authHttpUser parser s =
     (if authenticate s then
        and_then (getAuthInfo parser) (\<lambda>auth_info.
          case auth_info of
            None \<Rightarrow> Inl Undefined_Behaviour
          | Some i \<Rightarrow>
              Inr (db_verify (user_database s)
                \<lparr>username = auth_username i, password = auth_password i\<rparr>))
      else Inr True)"

definition handleHttpGet :: "HttpParser \<Rightarrow> session \<Rightarrow> session result" where
  "handleHttpGet parser s =
     and_then
       (if sv_chars (http_uri parser) = ''/'' then
          Inr (http_reply_to (HttpResponse_resource Ok (directory_listing (filesystem s))) s)
        else
          (case fs_get (filesystem s) (sv_chars (http_uri parser)) of
             (Success, Some file) \<Rightarrow> Inr (http_reply_to (HttpResponse_resource Ok file) s)
           | (Success, None) \<Rightarrow> Inl Undefined_Behaviour
           | (FileNotFound, _) \<Rightarrow> Inr (http_reply_to (HttpResponse_status NotFound) s)
           | _ \<Rightarrow> Inr (http_reply_to (HttpResponse_status InternalServerError) s)))
       (\<lambda>s1. Inr (receiveMessage s1))"

text \<open>
  The body is read from the socket, not from the stream buffer the head was read into.
\<close>

definition handleHttpPut :: "HttpParser \<Rightarrow> session \<Rightarrow> session result" where
  "handleHttpPut parser s =
     (let s1 =
        (case header_field parser ''expect'' of
           Some v \<Rightarrow>
             if sv_chars v = ''100-continue'' then http_reply_to (HttpResponse_status Continue) s
             else s
         | None \<Rightarrow> s);
          file_size = unat (resource_size parser);
          filepath = sv_chars (http_uri parser)
      in if file_size > string_max_size then Inl (Terminate Length_Error)
         else Inr (s1\<lparr>body_reads := body_reads s1 @ [(file_size, filepath)]\<rparr>))"

text \<open>The completion handler of that read: the file it filled, or an error.\<close>

definition body_read :: "nat \<times> string \<Rightarrow> File option \<Rightarrow> session \<Rightarrow> session" where
  "body_read b file s =
     receiveMessage
       (case file of
          None \<Rightarrow> http_reply_to (HttpResponse_status InternalServerError) s
        | Some f \<Rightarrow>
            (case fs_add (filesystem s) (snd b) f of
               (status, fs') \<Rightarrow>
                 let s1 = s\<lparr>filesystem := fs'\<rparr> in
                 (case status of
                    Success \<Rightarrow> http_reply_to (HttpResponse_status Created) s1
                  | AlreadyExists \<Rightarrow> http_reply_to (HttpResponse_status NotFound) s1
                  | _ \<Rightarrow> http_reply_to (HttpResponse_status InternalServerError) s1)))"

definition handleHttpDelete :: "HttpParser \<Rightarrow> session \<Rightarrow> session result" where
  "handleHttpDelete parser s =
     (case fs_remove (filesystem s) (sv_chars (http_uri parser)) of
        (status, fs') \<Rightarrow>
          let s1 = s\<lparr>filesystem := fs'\<rparr>;
              s2 = (case status of
                      Success \<Rightarrow> http_reply_to (HttpResponse_status Ok) s1
                    | FileNotFound \<Rightarrow> http_reply_to (HttpResponse_status NotFound) s1
                    | _ \<Rightarrow> http_reply_to (HttpResponse_status InternalServerError) s1)
          in Inr (receiveMessage s2))"

definition http_handlers :: "HttpMethod \<Rightarrow> (HttpParser \<Rightarrow> session \<Rightarrow> session result) option" where
  "http_handlers m =
     (case m of
        Get \<Rightarrow> Some handleHttpGet
      | Put \<Rightarrow> Some handleHttpPut
      | Delete \<Rightarrow> Some handleHttpDelete
      | HttpMethod.Unrecognized \<Rightarrow> None)"

text \<open>The answer to a whole request head.\<close>

definition answerHttp :: "string \<Rightarrow> session \<Rightarrow> session result" where
  "answerHttp request s =
     and_then (parse_http request) (\<lambda>parser.
       if \<not> http_valid parser then Inr (http_reply_to (HttpResponse_status BadRequest) s)
       else
         and_then (authHttpUser parser s) (\<lambda>authorised.
           if \<not> authorised then
             Inr (http_reply_to
               (HttpResponse_headers Unauthorized
                 [(''WWW-Authenticate'', ''Basic''), (''Content-Length'', ''0'')]) s)
           else
             (case http_handlers (http_method parser) of
                None \<Rightarrow> Inl (Terminate Out_Of_Range)
              | Some handler \<Rightarrow> handler parser s)))"

text \<open>
  \<open>handleHttp\<close> first reads on, in a blocking call, until the empty line. That call throws when
  the connection ends first, and waits when the empty line has not arrived.
\<close>

definition handleHttp :: "string \<Rightarrow> session \<Rightarrow> session result" where
  "handleHttp request s =
     (case read_until (crlf @ crlf) (input_stream s) (socket_rx s) of
        None \<Rightarrow> Inl (if socket_eof s then Terminate System_Error else Would_Block)
      | Some (n, buf, rx) \<Rightarrow>
          answerHttp (request @ take n buf) (s\<lparr>input_stream := drop n buf, socket_rx := rx\<rparr>))"

end
