(* ===== verification/Session_Step.thy ===== *)
theory Session_Step
  imports Session_Http
begin

text \<open>
  The session as a state machine: its start, the completion handler of \<open>receiveMessage\<close>, and
  one step per thing that can happen to a session. The relation \<open>session_step\<close> has a rule for
  each; \<open>react\<close> is the same as a function, and \<open>reachable_session\<close> holds of every state a
  session can come to.
\<close>

section \<open>Start, and what a received line leads to\<close>

definition welcome_message :: string where
  "welcome_message = ftp_serialise (FtpResponse2 SERVICE_READY_FOR_NEW_USER ''Welcome to ObjectStorage server'')"

text \<open>\<^verbatim>\<open>Session::Session\<close>: a session on the shared users and files.\<close>

definition new_session ::
    "UserDatabase \<Rightarrow> bool \<Rightarrow> MemoryFs \<Rightarrow> PortRange \<Rightarrow> 8 word list option \<Rightarrow> port \<Rightarrow> session" where
  "new_session db auth fs ports address client =
     \<lparr>user_database = db, authenticate = auth, filesystem = fs, local_address = address,
      client_port = client, serializer = [], input_stream = [], output_queue = [],
      ftp_data_acceptor = Closed, ftp_data_serializer = [], ftp_data_socket = None,
      ftp_data_buffer = [], ftp_port_range = ports, last_username = [], logged_in_user = None,
      last_ftp_command = FtpCommand.Unrecognized, current_working_dir = ''/'',
      socket_rx = [], socket_eof = False, control_closed = False, receives = 0, writes = [], accepts = [],
      data_writes = [], file_reads = [], body_reads = [], next_socket = 0,
      closed_sockets = [], wire = [], data_wire = [], sent_log = []\<rparr>"

definition is_ftp_client :: "session \<Rightarrow> bool" where
  "is_ftp_client s \<longleftrightarrow>
     min_port (ftp_port_range s) \<le> client_port s \<and> client_port s < max_port (ftp_port_range s)"

definition start :: "session \<Rightarrow> session" where
  "start s =
     (let s1 = s\<lparr>serializer := serializer s @ [ReceiveMessage]\<rparr>
      in if is_ftp_client s1 then sendMessage welcome_message s1 else s1)"

text \<open>
  The completion handler of \<open>receiveMessage\<close>. On an error the session closes the data
  connection and starts to receive again.
\<close>

definition message_received :: "acceptor_env \<Rightarrow> session \<Rightarrow> session result" where
  "message_received env s =
     (case read_until crlf (input_stream s) (socket_rx s) of
        None \<Rightarrow> Inl Would_Block
      | Some (header_length, buf, rx) \<Rightarrow>
          let packet = take header_length buf;
              s1 = s\<lparr>receives := receives s - 1, input_stream := drop header_length buf,
                     socket_rx := rx\<rparr>
          in and_then (detectProtocol packet) (\<lambda>p.
               case p of
                 Http \<Rightarrow> handleHttp packet s1
               | Ftp \<Rightarrow> handleFtp env packet s1))"

definition receive_failed :: "session \<Rightarrow> session" where
  "receive_failed s =
     (let s1 = s\<lparr>receives := receives s - 1, input_stream := input_stream s @ concat (socket_rx s),
                 socket_rx := []\<rparr>
      in receiveMessage (post_data_task CloseFtpDataSocket (close_acceptor s1)))"

section \<open>The end of a session\<close>

text \<open>
  A session lives as long as something holds a pointer to it, and only posted tasks and the
  completion handlers of outstanding operations do. When there is none its destructor runs.
\<close>

definition unused :: "session \<Rightarrow> bool" where
  "unused s \<longleftrightarrow> serializer s = [] \<and> ftp_data_serializer s = [] \<and> receives s = 0 \<and> writes s = []
     \<and> accepts s = [] \<and> data_writes s = [] \<and> file_reads s = [] \<and> body_reads s = []"

definition destroy :: "session \<Rightarrow> session" where
  "destroy s = closeFtpDataSocket (closeSocket s)"

section \<open>Tasks\<close>

fun run_task :: "task \<Rightarrow> session \<Rightarrow> session result" where
  "run_task ReceiveMessage s = Inr (receiveMessage s)"
| "run_task (EnqueueMessage m) s = enqueue_message m s"

fun run_data_task :: "data_task \<Rightarrow> session \<Rightarrow> session result" where
  "run_data_task CloseFtpDataSocket s = Inr (closeFtpDataSocket s)"
| "run_data_task (SendFtpData k) s = send_ftp_data k s"
| "run_data_task (EnqueueFtpData f k) s = enqueue_ftp_data f k s"
| "run_data_task (SaveFile f p) s = Inr (save_file f p s)"

section \<open>Steps\<close>

text \<open>
  What can happen: bytes arrive, the client closes, an outstanding operation ends (in one way
  or another), or a strand runs its next task. The message of an error code, which the system
  supplies, is taken to be a single line.
\<close>

definition single_line :: "string \<Rightarrow> bool" where
  "single_line text \<longleftrightarrow> \<not> occurs crlf text"

fun sane_error :: "string option \<Rightarrow> bool" where
  "sane_error None = True"
| "sane_error (Some text) = single_line text"

datatype event =
    Arrive string
  | PeerCloses
  | MessageReceived acceptor_env
  | ReceiveFailed
  | RunTask
  | RunDataTask
  | MessageWritten string bool
  | AcceptDone pending_accept "string option"
  | DataWritten "nat \<times> File" bool
  | FileRead pending_read string bool
  | BodyRead "nat \<times> string"
  | BodyFailed "nat \<times> string"
  | Destroyed

inductive session_step :: "session \<Rightarrow> event \<Rightarrow> session result \<Rightarrow> bool" where
  arrive: "\<not> socket_eof s \<Longrightarrow> x \<noteq> [] \<Longrightarrow>
     session_step s (Arrive x) (Inr (s\<lparr>socket_rx := socket_rx s @ [x]\<rparr>))"
| peer_closes: "\<not> socket_eof s \<Longrightarrow>
     session_step s PeerCloses (Inr (s\<lparr>socket_eof := True\<rparr>))"
| message_received: "0 < receives s \<Longrightarrow> read_until crlf (input_stream s) (socket_rx s) \<noteq> None \<Longrightarrow>
     session_step s (MessageReceived env) (message_received env s)"
| receive_failed: "0 < receives s \<Longrightarrow> read_until crlf (input_stream s) (socket_rx s) = None \<Longrightarrow>
     session_step s ReceiveFailed (Inr (receive_failed s))"
| run_task: "serializer s = t # ts \<Longrightarrow>
     session_step s RunTask (run_task t (s\<lparr>serializer := ts\<rparr>))"
| run_data_task: "ftp_data_serializer s = t # ts \<Longrightarrow>
     session_step s RunDataTask (run_data_task t (s\<lparr>ftp_data_serializer := ts\<rparr>))"
| message_written: "m \<in> set (writes s) \<Longrightarrow>
     session_step s (MessageWritten m ok) (message_written m ok (s\<lparr>writes := remove1 m (writes s)\<rparr>))"
| accept_done: "a \<in> set (accepts s) \<Longrightarrow> (error = None \<Longrightarrow> can_succeed a) \<Longrightarrow> sane_error error \<Longrightarrow>
     session_step s (AcceptDone a error)
       (Inr (accept_done (on_accept a) error (s\<lparr>accepts := remove1 a (accepts s)\<rparr>)))"
| data_written: "w \<in> set (data_writes s) \<Longrightarrow>
     session_step s (DataWritten w ok) (data_written w ok (s\<lparr>data_writes := remove1 w (data_writes s)\<rparr>))"
| file_read: "r \<in> set (file_reads s) \<Longrightarrow> length chunk \<le> receive_buffer_size \<Longrightarrow>
     (\<not> error \<Longrightarrow> length chunk = receive_buffer_size) \<Longrightarrow>
     session_step s (FileRead r chunk error)
       (Inr (file_read r chunk error (s\<lparr>file_reads := remove1 r (file_reads s)\<rparr>)))"
| body_read: "b \<in> set (body_reads s) \<Longrightarrow> read_exactly (fst b) (socket_rx s) = Some (f, rx) \<Longrightarrow>
     session_step s (BodyRead b)
       (Inr (body_read b (Some f) (s\<lparr>body_reads := remove1 b (body_reads s), socket_rx := rx\<rparr>)))"
| body_failed: "b \<in> set (body_reads s) \<Longrightarrow> read_exactly (fst b) (socket_rx s) = None \<Longrightarrow>
     session_step s (BodyFailed b)
       (Inr (body_read b None (s\<lparr>body_reads := remove1 b (body_reads s), socket_rx := []\<rparr>)))"
| destroyed: "unused s \<Longrightarrow> \<not> control_closed s \<Longrightarrow> session_step s Destroyed (Inr (destroy s))"

inductive_cases session_stepE [consumes 1, case_names arrive peer_closes message_received
    receive_failed run_task run_data_task message_written accept_done data_written file_read
    body_read body_failed destroyed]: "session_step s e r"

fun react :: "event \<Rightarrow> session \<Rightarrow> session result option" where
  "react (Arrive x) s =
     (if \<not> socket_eof s \<and> x \<noteq> [] then Some (Inr (s\<lparr>socket_rx := socket_rx s @ [x]\<rparr>)) else None)"
| "react PeerCloses s = (if \<not> socket_eof s then Some (Inr (s\<lparr>socket_eof := True\<rparr>)) else None)"
| "react (MessageReceived env) s =
     (if 0 < receives s \<and> read_until crlf (input_stream s) (socket_rx s) \<noteq> None
      then Some (message_received env s) else None)"
| "react ReceiveFailed s =
     (if 0 < receives s \<and> read_until crlf (input_stream s) (socket_rx s) = None
      then Some (Inr (receive_failed s)) else None)"
| "react RunTask s =
     (case serializer s of [] \<Rightarrow> None | t # ts \<Rightarrow> Some (run_task t (s\<lparr>serializer := ts\<rparr>)))"
| "react RunDataTask s =
     (case ftp_data_serializer s of
        [] \<Rightarrow> None | t # ts \<Rightarrow> Some (run_data_task t (s\<lparr>ftp_data_serializer := ts\<rparr>)))"
| "react (MessageWritten m ok) s =
     (if m \<in> set (writes s) then Some (message_written m ok (s\<lparr>writes := remove1 m (writes s)\<rparr>)) else None)"
| "react (AcceptDone a error) s =
     (if a \<in> set (accepts s) \<and> (error \<noteq> None \<or> can_succeed a) \<and> sane_error error
      then Some (Inr (accept_done (on_accept a) error (s\<lparr>accepts := remove1 a (accepts s)\<rparr>))) else None)"
| "react (DataWritten w ok) s =
     (if w \<in> set (data_writes s)
      then Some (data_written w ok (s\<lparr>data_writes := remove1 w (data_writes s)\<rparr>)) else None)"
| "react (FileRead r chunk error) s =
     (if r \<in> set (file_reads s) \<and> length chunk \<le> receive_buffer_size
         \<and> (error \<or> length chunk = receive_buffer_size)
      then Some (Inr (file_read r chunk error (s\<lparr>file_reads := remove1 r (file_reads s)\<rparr>))) else None)"
| "react (BodyRead b) s =
     (if b \<in> set (body_reads s)
      then map_option (\<lambda>(f, rx). Inr (body_read b (Some f)
             (s\<lparr>body_reads := remove1 b (body_reads s), socket_rx := rx\<rparr>)))
           (read_exactly (fst b) (socket_rx s))
      else None)"
| "react (BodyFailed b) s =
     (if b \<in> set (body_reads s) \<and> read_exactly (fst b) (socket_rx s) = None
      then Some (Inr (body_read b None (s\<lparr>body_reads := remove1 b (body_reads s), socket_rx := []\<rparr>)))
      else None)"
| "react Destroyed s = (if unused s \<and> \<not> control_closed s then Some (Inr (destroy s)) else None)"

lemma session_step_iff: "session_step s e r \<longleftrightarrow> react e s = Some r"
proof
  assume "session_step s e r"
  then show "react e s = Some r" by (cases rule: session_step.cases) auto
next
  assume "react e s = Some r"
  then show "session_step s e r"
    by (cases e) (auto intro: session_step.intros split: if_splits list.splits)
qed

section \<open>Runs and reachable states\<close>

fun run_events :: "event list \<Rightarrow> session \<Rightarrow> session result option" where
  "run_events [] s = Some (Inr s)"
| "run_events (e # es) s =
     (case react e s of
        Some (Inr s') \<Rightarrow> run_events es s'
      | Some (Inl x) \<Rightarrow> (if es = [] then Some (Inl x) else None)
      | None \<Rightarrow> None)"

inductive reachable_session :: "session \<Rightarrow> session \<Rightarrow> bool" for s0 where
  init: "reachable_session s0 s0"
| step: "reachable_session s0 s \<Longrightarrow> session_step s e (Inr s') \<Longrightarrow> reachable_session s0 s'"

lemma run_events_append:
  "run_events es s = Some (Inr s') \<Longrightarrow> run_events (es @ es') s = run_events es' s'"
  by (induction es arbitrary: s) (auto split: option.splits sum.splits if_splits)

lemma run_events_reachable:
  "run_events es s = Some (Inr s') \<Longrightarrow> reachable_session s0 s \<Longrightarrow> reachable_session s0 s'"
proof (induction es arbitrary: s)
  case (Cons e es)
  then obtain s1 where "react e s = Some (Inr s1)" "run_events es s1 = Some (Inr s')"
    by (auto split: option.splits sum.splits if_splits)
  with Cons show ?case by (metis reachable_session.step session_step_iff)
qed simp

section \<open>A session to try things on\<close>

definition sample_users :: UserDatabase where
  "sample_users = [''Nord'' \<mapsto> ''VPN'']"

definition sample_ports :: PortRange where
  "sample_ports = \<lparr>min_port = 2000, max_port = 3000\<rparr>"

definition sample_session :: session where
  "sample_session = new_session sample_users True (fs_empty front_order) sample_ports (Some [127, 0, 0, 1]) 40000"

definition sample_env :: acceptor_env where
  "sample_env = \<lparr>open_ok = True, bind_ok = True, listen_ok = True, bound_port = 50123\<rparr>"

end
