(* ===== verification/Session_Contract.thy ===== *)
theory Session_Contract
  imports Session_Step
begin

text \<open>
  What every FTP command handler and every HTTP method handler keeps to, stated as two
  interfaces, and the proof that each handler of the code does. What \<open>handleFtp\<close> and
  \<open>handleHttp\<close> do then follows from the contracts, whichever handler they choose.
\<close>

declare handleFtpUser_def [handler_defs] handleFtpPass_def [handler_defs]
  handleFtpList_def [handler_defs] handleFtpRetr_def [handler_defs] handleFtpStor_def [handler_defs]
  handleFtpDele_def [handler_defs] handleFtpPasv_def [handler_defs] handleFtpType_def [handler_defs]
  handleFtpQuit_def [handler_defs] handleFtpCwd_def [handler_defs]
  handleHttpGet_def [handler_defs] handleHttpPut_def [handler_defs] handleHttpDelete_def [handler_defs]
  not_logged_in_def [handler_defs] http_reply_to_def [handler_defs]
  accept_and_send_def [handler_defs] acceptFile_def [handler_defs] async_accept_def [handler_defs]
  make_socket_def [handler_defs] configureDataAcceptor_def [handler_defs]
  close_acceptor_def [handler_defs] receiveMessage_def [handler_defs]

section \<open>Frames\<close>

text \<open>
  \<open>posted ms s s'\<close>: on the way from \<open>s\<close> to \<open>s'\<close> the messages \<open>ms\<close> were handed to
  \<open>sendMessage\<close>, and the control connection, the reply queue and the data connection were
  not touched.
\<close>

definition posted :: "string list \<Rightarrow> session \<Rightarrow> session \<Rightarrow> bool" where
  "posted ms s s' \<longleftrightarrow>
     serializer s' = serializer s @ map EnqueueMessage ms \<and> sent_log s' = sent_log s @ ms
     \<and> output_queue s' = output_queue s \<and> writes s' = writes s \<and> wire s' = wire s
     \<and> input_stream s' = input_stream s \<and> socket_rx s' = socket_rx s \<and> socket_eof s' = socket_eof s
     \<and> ftp_data_serializer s' = ftp_data_serializer s \<and> ftp_data_buffer s' = ftp_data_buffer s
     \<and> ftp_data_socket s' = ftp_data_socket s \<and> data_writes s' = data_writes s
     \<and> data_wire s' = data_wire s \<and> file_reads s' = file_reads s
     \<and> closed_sockets s' = closed_sockets s
     \<and> user_database s' = user_database s \<and> authenticate s' = authenticate s"

text \<open>Nothing that has to do with the stored files was touched.\<close>

definition files_untouched :: "session \<Rightarrow> session \<Rightarrow> bool" where
  "files_untouched s s' \<longleftrightarrow>
     filesystem s' = filesystem s \<and> accepts s' = accepts s
     \<and> ftp_data_acceptor s' = ftp_data_acceptor s \<and> body_reads s' = body_reads s"

lemma posted_refl [simp]: "posted [] s s"
  by (simp add: posted_def)

lemma posted_trans: "posted ms s s1 \<Longrightarrow> posted ns s1 s2 \<Longrightarrow> posted (ms @ ns) s s2"
  by (simp add: posted_def)

lemma posted_sendMessage [simp]: "posted [m] s (sendMessage m' s') \<longleftrightarrow> m = m' \<and> posted [] s s'"
  by (auto simp: posted_def sendMessage_def)

lemma posted_updates [simp]:
  "posted ms s (s'\<lparr>filesystem := x1\<rparr>) = posted ms s s'"
  "posted ms s (s'\<lparr>ftp_data_acceptor := x2\<rparr>) = posted ms s s'"
  "posted ms s (s'\<lparr>accepts := x3\<rparr>) = posted ms s s'"
  "posted ms s (s'\<lparr>next_socket := x4\<rparr>) = posted ms s s'"
  "posted ms s (s'\<lparr>last_username := x5\<rparr>) = posted ms s s'"
  "posted ms s (s'\<lparr>logged_in_user := x6\<rparr>) = posted ms s s'"
  "posted ms s (s'\<lparr>current_working_dir := x7\<rparr>) = posted ms s s'"
  "posted ms s (s'\<lparr>last_ftp_command := x8\<rparr>) = posted ms s s'"
  "posted ms s (s'\<lparr>receives := x9\<rparr>) = posted ms s s'"
  "posted ms s (s'\<lparr>body_reads := x10\<rparr>) = posted ms s s'"
  by (simp_all add: posted_def)

lemma sendMessage_frame [simp]:
  "filesystem (sendMessage m s) = filesystem s" "accepts (sendMessage m s) = accepts s"
  "ftp_data_acceptor (sendMessage m s) = ftp_data_acceptor s"
  "body_reads (sendMessage m s) = body_reads s" "receives (sendMessage m s) = receives s"
  "logged_in_user (sendMessage m s) = logged_in_user s"
  "current_working_dir (sendMessage m s) = current_working_dir s"
  "next_socket (sendMessage m s) = next_socket s" "local_address (sendMessage m s) = local_address s"
  "user_database (sendMessage m s) = user_database s" "authenticate (sendMessage m s) = authenticate s"
  by (simp_all add: sendMessage_def)

text \<open>A working directory: it starts and it ends with a slash.\<close>

definition cwd_ok :: "string \<Rightarrow> bool" where
  "cwd_ok d \<longleftrightarrow> d \<noteq> [] \<and> hd d = CHR ''/'' \<and> last d = CHR ''/''"

lemma cwd_ok_root [simp]: "cwd_ok ''/''"
  by (simp add: cwd_ok_def)

lemma cwd_ok_append [simp]: "cwd_ok d \<Longrightarrow> cwd_ok (d @ x @ ''/'')"
  by (simp add: cwd_ok_def)

section \<open>FTP command handlers\<close>

text \<open>A reply a client can read: its text is one line.\<close>

definition is_ftp_reply :: "string \<Rightarrow> bool" where
  "is_ftp_reply m \<longleftrightarrow> (\<exists>r. single_line (ftp_text r) \<and> m = ftp_serialise r)"

lemma is_ftp_reply [simp]:
  "single_line text \<Longrightarrow> is_ftp_reply (ftp_serialise (FtpResponse2 code text))"
  "is_ftp_reply (ftp_serialise (FtpResponse1 code))"
  by (force simp: is_ftp_reply_def FtpResponse2_def FtpResponse1_def single_line_def)+

lemma single_line_Cons [simp]: "c \<noteq> CHR 0x0D \<Longrightarrow> single_line (c # s) = single_line s"
  by (simp add: single_line_def occurs_crlf_Cons)

lemma single_line_Nil [simp]: "single_line []"
  by (simp add: single_line_def)

lemma single_line_no_cr: "list_all (\<lambda>c. c \<noteq> CHR 0x0D) s \<Longrightarrow> single_line s"
  by (simp add: single_line_def no_cr_no_crlf)

lemma passive_endpoint_no_cr: "list_all (\<lambda>c. c \<noteq> CHR 0x0D) (passive_endpoint ip p)"
  by (induction ip) (simp_all add: passive_endpoint_def to_string_no_cr)

lemma passive_endpoint_single_line [simp]: "single_line (passive_endpoint ip p)"
  by (rule single_line_no_cr) (rule passive_endpoint_no_cr)

text \<open>
  The contract: a handler that returns has answered with exactly one reply, has not touched
  the reading of the control connection, has logged in no user but one the database verifies,
  has kept the working directory a directory, and without a logged in user has not touched
  files at all.
\<close>

locale ftp_handler =
  fixes handle :: "FtpParser \<Rightarrow> session \<Rightarrow> session result"
  assumes replies: "handle p s = Inr s' \<Longrightarrow>
      \<exists>m. is_ftp_reply m \<and> posted [m] s s'"
    and reading: "handle p s = Inr s' \<Longrightarrow> receives s' = receives s \<and> body_reads s' = body_reads s"
    and login: "handle p s = Inr s' \<Longrightarrow> logged_in_user s' = Some u \<Longrightarrow>
      logged_in_user s = Some u \<or> db_verify (user_database s) u"
    and dir: "handle p s = Inr s' \<Longrightarrow> cwd_ok (current_working_dir s) \<Longrightarrow> cwd_ok (current_working_dir s')"
    and guard: "logged_in_user s = None \<Longrightarrow> handle p s = Inr s' \<Longrightarrow> files_untouched s s'"

lemmas handler_simps = handler_defs ftp_reply_to_def files_untouched_def and_then_eq_Inr Let_def

lemma handleFtpUser_contract: "ftp_handler handleFtpUser"
  by unfold_locales (auto simp: handler_simps split: if_splits)

lemma handleFtpPass_contract: "ftp_handler handleFtpPass"
  by unfold_locales (auto simp: handler_simps split: if_splits)

lemma handleFtpList_contract: "ftp_handler handleFtpList"
  by unfold_locales (auto simp: handler_simps split: if_splits)

lemma handleFtpRetr_contract: "ftp_handler handleFtpRetr"
  by unfold_locales (auto simp: handler_simps fs_get_def split: if_splits option.splits)

lemma handleFtpStor_contract: "ftp_handler handleFtpStor"
  by unfold_locales (auto simp: handler_simps split: if_splits)

lemma handleFtpDele_contract: "ftp_handler handleFtpDele"
  by unfold_locales (auto simp: handler_simps fs_remove_def split: if_splits)

lemma handleFtpPasv_contract: "ftp_handler (handleFtpPasv env)"
  by unfold_locales (auto simp: handler_simps split: if_splits option.splits acceptor.splits)

lemma handleFtpType_contract: "ftp_handler handleFtpType"
  by unfold_locales (auto simp: handler_simps split: if_splits)

lemma handleFtpQuit_contract: "ftp_handler handleFtpQuit"
  by unfold_locales (auto simp: handler_simps split: if_splits)

lemma handleFtpCwd_contract: "ftp_handler handleFtpCwd"
  by unfold_locales (auto simp: handler_simps split: if_splits)


text \<open>Every handler of the table keeps the contract.\<close>

lemma ftp_handlers_contract: "ftp_handlers env c = Some handle \<Longrightarrow> ftp_handler handle"
  by (cases c)
    (auto simp: ftp_handlers_def intro: handleFtpUser_contract handleFtpPass_contract
      handleFtpList_contract handleFtpRetr_contract handleFtpStor_contract handleFtpDele_contract
      handleFtpPasv_contract handleFtpType_contract handleFtpQuit_contract handleFtpCwd_contract)

interpretation user_handler: ftp_handler handleFtpUser by (rule handleFtpUser_contract)
interpretation pass_handler: ftp_handler handleFtpPass by (rule handleFtpPass_contract)
interpretation quit_handler: ftp_handler handleFtpQuit by (rule handleFtpQuit_contract)

text \<open>
  The handlers that want a user to be logged in: without one they answer 530 and nothing else.
\<close>

locale guarded_handler = ftp_handler +
  assumes refuses: "logged_in_user s = None \<Longrightarrow> handle p s = Inr (not_logged_in s)"

interpretation list_handler: guarded_handler handleFtpList
  by (intro guarded_handler.intro handleFtpList_contract guarded_handler_axioms.intro)
    (simp add: handleFtpList_def)

interpretation retr_handler: guarded_handler handleFtpRetr
  by (intro guarded_handler.intro handleFtpRetr_contract guarded_handler_axioms.intro)
    (simp add: handleFtpRetr_def)

interpretation stor_handler: guarded_handler handleFtpStor
  by (intro guarded_handler.intro handleFtpStor_contract guarded_handler_axioms.intro)
    (simp add: handleFtpStor_def)

interpretation dele_handler: guarded_handler handleFtpDele
  by (intro guarded_handler.intro handleFtpDele_contract guarded_handler_axioms.intro)
    (simp add: handleFtpDele_def)

interpretation pasv_handler: guarded_handler "handleFtpPasv env" for env
  by (intro guarded_handler.intro handleFtpPasv_contract guarded_handler_axioms.intro)
    (simp add: handleFtpPasv_def)

interpretation type_handler: guarded_handler handleFtpType
  by (intro guarded_handler.intro handleFtpType_contract guarded_handler_axioms.intro)
    (simp add: handleFtpType_def)

interpretation cwd_handler: guarded_handler handleFtpCwd
  by (intro guarded_handler.intro handleFtpCwd_contract guarded_handler_axioms.intro)
    (simp add: handleFtpCwd_def)

section \<open>The FTP dispatcher\<close>

text \<open>
  What \<open>handleFtp\<close> does, whichever handler it runs: the contract's clauses, and one more read
  of the control connection.
\<close>

lemma handleFtp_cases:
  assumes "handleFtp env request s = Inr s'"
  obtains (handled) parser handle s1 where "parse_ftp request = Inr parser" "ftp_valid parser"
      "ftp_handler handle" "ftp_handlers env (ftp_command parser) = Some handle" "handle parser s = Inr s1"
      "s' = receiveMessage (s1\<lparr>last_ftp_command := ftp_command parser\<rparr>)"
  | (unknown) parser where "parse_ftp request = Inr parser" "\<not> ftp_valid parser"
      "s' = receiveMessage (sendMessage (ftp_serialise (FtpResponse1 SYNTAX_ERROR_UNRECOGNIZED_COMMAND)) s)"
proof -
  obtain parser where p: "parse_ftp request = Inr parser"
    using assms by (auto simp: handleFtp_def and_then_eq_Inr)
  show thesis
  proof (cases "ftp_valid parser")
    case True
    with assms p obtain handle s1 where h: "ftp_handlers env (ftp_command parser) = Some handle"
        "handle parser s = Inr s1" "s' = receiveMessage (s1\<lparr>last_ftp_command := ftp_command parser\<rparr>)"
      by (auto simp: handleFtp_def and_then_eq_Inr split: option.splits)
    then show thesis using handled [OF p True] ftp_handlers_contract by blast
  next
    case False
    with assms p show thesis by (intro unknown) (simp_all add: handleFtp_def)
  qed
qed

lemma handleFtp_replies:
  assumes "handleFtp env request s = Inr s'"
  shows "\<exists>m. is_ftp_reply m \<and> posted [m] s s'"
  using assms
proof (cases rule: handleFtp_cases)
  case (handled parser handle s1)
  with ftp_handler.replies [OF handled(3,5)] show ?thesis
    by (auto simp: receiveMessage_def)
qed (simp add: receiveMessage_def)

lemma handleFtp_reading:
  assumes "handleFtp env request s = Inr s'"
  shows "receives s' = Suc (receives s) \<and> body_reads s' = body_reads s"
  using assms
proof (cases rule: handleFtp_cases)
  case (handled parser handle s1)
  with ftp_handler.reading [OF handled(3,5)] show ?thesis by (simp add: receiveMessage_def)
qed (simp add: receiveMessage_def)

lemma handleFtp_login:
  assumes "handleFtp env request s = Inr s'" "logged_in_user s' = Some u"
  shows "logged_in_user s = Some u \<or> db_verify (user_database s) u"
  using assms(1)
proof (cases rule: handleFtp_cases)
  case (handled parser handle s1)
  with assms(2) ftp_handler.login [OF handled(3,5)] show ?thesis by (simp add: receiveMessage_def)
qed (use assms(2) in \<open>simp add: receiveMessage_def\<close>)

lemma handleFtp_dir:
  assumes "handleFtp env request s = Inr s'" "cwd_ok (current_working_dir s)"
  shows "cwd_ok (current_working_dir s')"
  using assms(1)
proof (cases rule: handleFtp_cases)
  case (handled parser handle s1)
  with assms(2) ftp_handler.dir [OF handled(3,5)] show ?thesis by (simp add: receiveMessage_def)
qed (use assms(2) in \<open>simp add: receiveMessage_def\<close>)

text \<open>
  What a command asks of the store: DELE from someone who is logged in the removal of the path it
  names, all others nothing.
\<close>

definition store_after :: "fs_op option \<Rightarrow> MemoryFs \<Rightarrow> MemoryFs" where
  "store_after x m = (case x of None \<Rightarrow> m | Some x \<Rightarrow> snd (memfs.step x m))"

lemma store_after_simps [simp]:
  "store_after None m = m" "store_after (Some (FsRemove p)) m = snd (fs_remove m p)"
  "store_after (Some (FsAdd p f)) m = snd (fs_add m p f)"
  by (simp_all add: store_after_def)

lemma store_after_abstract:
  assumes "fs_inv m"
  shows "fs_inv (store_after x m)"
    and "fs_map (store_after x m) = (case x of None \<Rightarrow> fs_map m | Some x \<Rightarrow> snd (abstract_step x (fs_map m)))"
  using assms memfs.step_refines by (auto simp: store_after_def split: option.split)

definition command_op :: "string \<Rightarrow> session \<Rightarrow> fs_op option" where
  "command_op packet s =
     (case parse_ftp packet of
        Inl _ \<Rightarrow> None
      | Inr p \<Rightarrow>
          if ftp_valid p \<and> ftp_command p = Dele \<and> logged_in_user s \<noteq> None
          then Some (FsRemove (sv_chars (ftp_tokens p ! 1))) else None)"

lemma ftp_handlers_op:
  assumes "ftp_handlers env c = Some handle" "handle p s = Inr s'"
  shows "filesystem s' = store_after
    (if c = Dele \<and> logged_in_user s \<noteq> None then Some (FsRemove (sv_chars (ftp_tokens p ! 1))) else None) (filesystem s)"
  using assms
  by (cases c) (auto simp: ftp_handlers_def handler_simps fs_get_def fs_remove_def token_def vector_at_eq_Inr
      split: if_splits option.splits prod.splits)

lemma handleFtp_op:
  assumes "handleFtp env request s = Inr s'"
  shows "filesystem s' = store_after (command_op request s) (filesystem s)"
  using assms
proof (cases rule: handleFtp_cases)
  case (handled parser handle s1)
  with ftp_handlers_op [OF handled(4,5)] show ?thesis by (simp add: receiveMessage_def command_op_def)
qed (simp add: receiveMessage_def command_op_def)

lemma handleFtp_guard:
  assumes "handleFtp env request s = Inr s'" "logged_in_user s = None"
  shows "files_untouched s s'"
  using assms(1)
proof (cases rule: handleFtp_cases)
  case (handled parser handle s1)
  with ftp_handler.guard [OF handled(3) assms(2) handled(5)] show ?thesis
    by (simp add: receiveMessage_def files_untouched_def)
qed (simp add: receiveMessage_def files_untouched_def)

section \<open>HTTP method handlers\<close>

definition is_http_reply :: "string \<Rightarrow> bool" where
  "is_http_reply m \<longleftrightarrow> (\<exists>r. wf_response r \<and> m = http_serialise r)"

lemma is_http_reply [simp]: "wf_response r \<Longrightarrow> is_http_reply (http_serialise r)"
  by (auto simp: is_http_reply_def)

text \<open>The FTP side of a session: no HTTP request changes it.\<close>

definition ftp_untouched :: "session \<Rightarrow> session \<Rightarrow> bool" where
  "ftp_untouched s s' \<longleftrightarrow>
     logged_in_user s' = logged_in_user s \<and> last_username s' = last_username s
     \<and> last_ftp_command s' = last_ftp_command s
     \<and> current_working_dir s' = current_working_dir s
     \<and> accepts s' = accepts s \<and> ftp_data_acceptor s' = ftp_data_acceptor s"

lemma ftp_untouched_posted [simp]: "ftp_untouched s (sendMessage m s') = ftp_untouched s s'"
  by (simp add: ftp_untouched_def sendMessage_def)

lemma ftp_untouched_updates [simp]:
  "ftp_untouched s (s'\<lparr>filesystem := x1\<rparr>) = ftp_untouched s s'"
  "ftp_untouched s (s'\<lparr>receives := x2\<rparr>) = ftp_untouched s s'"
  "ftp_untouched s (s'\<lparr>body_reads := x3\<rparr>) = ftp_untouched s s'"
  by (simp_all add: ftp_untouched_def)

lemma ftp_untouched_refl [simp]: "ftp_untouched s s"
  by (simp add: ftp_untouched_def)

text \<open>
  The contract of a method handler: at most one response now, exactly one more outstanding read
  of the control connection (of the next message or of a body), at most one file removed, and
  the FTP side as it was.
\<close>

locale http_handler =
  fixes handle :: "HttpParser \<Rightarrow> session \<Rightarrow> session result"
  assumes responds: "handle p s = Inr s' \<Longrightarrow>
      posted [] s s' \<or> (\<exists>m. is_http_reply m \<and> posted [m] s s')"
    and continues: "handle p s = Inr s' \<Longrightarrow>
      receives s' + length (body_reads s') = Suc (receives s + length (body_reads s))"
    and apart: "handle p s = Inr s' \<Longrightarrow> ftp_untouched s s'"

lemma handleHttpGet_contract: "http_handler handleHttpGet"
  by unfold_locales (auto simp: handler_simps fs_get_def split: if_splits option.splits)

lemma handleHttpPut_contract: "http_handler handleHttpPut"
  by unfold_locales (auto simp: handler_simps split: if_splits option.splits)

lemma handleHttpDelete_contract: "http_handler handleHttpDelete"
  by unfold_locales (auto simp: handler_simps fs_remove_def split: if_splits)

interpretation get_handler: http_handler handleHttpGet by (rule handleHttpGet_contract)
interpretation put_handler: http_handler handleHttpPut by (rule handleHttpPut_contract)
interpretation delete_handler: http_handler handleHttpDelete by (rule handleHttpDelete_contract)

lemma http_handlers_contract: "http_handlers m = Some handle \<Longrightarrow> http_handler handle"
  by (cases m)
    (auto simp: http_handlers_def intro: handleHttpGet_contract handleHttpPut_contract
      handleHttpDelete_contract)

section \<open>The HTTP dispatcher\<close>

definition unauthorised :: HttpResponse where
  "unauthorised = HttpResponse_headers Unauthorized
     [(''WWW-Authenticate'', ''Basic''), (''Content-Length'', ''0'')]"

lemma wf_unauthorised [simp]: "wf_response unauthorised"
  by (simp add: unauthorised_def wf_response_def HttpResponse_headers_def HttpResponse_full_def
      wf_header_def framed_def to_string_0 occurs_crlf_Cons)

lemma answerHttp_cases:
  assumes "answerHttp request s = Inr s'"
  obtains (bad) parser where "parse_http request = Inr parser" "\<not> http_valid parser"
      "s' = http_reply_to (HttpResponse_status BadRequest) s"
  | (refused) parser where "parse_http request = Inr parser" "http_valid parser"
      "authHttpUser parser s = Inr False" "s' = http_reply_to unauthorised s"
  | (handled) parser handle where "parse_http request = Inr parser" "http_valid parser"
      "authHttpUser parser s = Inr True" "http_handlers (http_method parser) = Some handle"
      "http_handler handle" "handle parser s = Inr s'"
proof -
  obtain parser where p: "parse_http request = Inr parser"
    using assms by (auto simp: answerHttp_def and_then_eq_Inr)
  consider "\<not> http_valid parser" | "http_valid parser" "authHttpUser parser s = Inr False"
    | handle where "http_valid parser" "authHttpUser parser s = Inr True"
        "http_handlers (http_method parser) = Some handle" "handle parser s = Inr s'"
    using assms p by (auto simp: answerHttp_def and_then_eq_Inr split: if_splits option.splits)
  then show thesis
  proof cases
    case 1
    with assms p show thesis by (intro bad) (simp_all add: answerHttp_def)
  next
    case 2
    with assms p show thesis by (intro refused) (simp_all add: answerHttp_def unauthorised_def)
  next
    case 3
    then show thesis using handled [OF p] http_handlers_contract by blast
  qed
qed

lemma answerHttp_responds:
  assumes "answerHttp request s = Inr s'"
  shows "posted [] s s' \<or> (\<exists>m. is_http_reply m \<and> posted [m] s s')"
  using assms
proof (cases rule: answerHttp_cases)
  case (handled parser handle)
  with http_handler.responds [OF handled(5,6)] show ?thesis by simp
qed (simp_all add: http_reply_to_def)

lemma answerHttp_continues:
  assumes "answerHttp request s = Inr s'"
  shows "receives s' + length (body_reads s') \<le> Suc (receives s + length (body_reads s))"
  using assms
proof (cases rule: answerHttp_cases)
  case (handled parser handle)
  with http_handler.continues [OF handled(5,6)] show ?thesis by simp
qed (simp_all add: http_reply_to_def)

text \<open>Of the store a request asks, if it is a DELETE that is let in, the removal of its URI.\<close>

definition request_op :: "string \<Rightarrow> session \<Rightarrow> fs_op option" where
  "request_op head s =
     (case parse_http head of
        Inl _ \<Rightarrow> None
      | Inr p \<Rightarrow>
          if http_valid p \<and> http_method p = Delete \<and> authHttpUser p s = Inr True
          then Some (FsRemove (sv_chars (http_uri p))) else None)"

lemma http_handlers_op:
  assumes "http_handlers m = Some handle" "handle p s = Inr s'"
  shows "filesystem s' = store_after (if m = Delete then Some (FsRemove (sv_chars (http_uri p))) else None) (filesystem s)"
  using assms
  by (cases m) (auto simp: http_handlers_def handler_simps fs_get_def fs_remove_def
      split: if_splits option.splits prod.splits)

lemma answerHttp_op:
  assumes "answerHttp request s = Inr s'"
  shows "filesystem s' = store_after (request_op request s) (filesystem s)"
  using assms
proof (cases rule: answerHttp_cases)
  case (handled parser handle)
  with http_handlers_op [OF handled(4,6)] show ?thesis by (simp add: request_op_def)
qed (simp_all add: http_reply_to_def request_op_def)

lemma answerHttp_apart:
  assumes "answerHttp request s = Inr s'"
  shows "ftp_untouched s s'"
  using assms
proof (cases rule: answerHttp_cases)
  case (handled parser handle)
  with http_handler.apart [OF handled(5,6)] show ?thesis by simp
qed (simp_all add: http_reply_to_def)

text \<open>\<open>handleHttp\<close> answers the head it has read on a session that has given up its bytes.\<close>

lemma handleHttp_answers:
  assumes "handleHttp request s = Inr s'"
  obtains n buf rx where "read_until (crlf @ crlf) (input_stream s) (socket_rx s) = Some (n, buf, rx)"
    and "answerHttp (request @ take n buf) (s\<lparr>input_stream := drop n buf, socket_rx := rx\<rparr>) = Inr s'"
  using assms by (auto simp: handleHttp_def split: option.splits)

section \<open>Properties\<close>

text \<open>
  C16. As long as nobody is logged in, no FTP command touches files: the session answers with
  exactly one reply, the store, the data acceptor, waiting transfers and the reading of the
  control connection are as before, and who is logged in afterwards has given a password the
  database accepts.
\<close>

theorem ftp_without_login:
  assumes "logged_in_user s = None" and "handleFtp env request s = Inr s'"
  shows "files_untouched s s' \<and> (\<exists>m. is_ftp_reply m \<and> posted [m] s s')
    \<and> receives s' = Suc (receives s)
    \<and> (\<forall>u. logged_in_user s' = Some u \<longrightarrow> db_verify (user_database s) u)"
  using handleFtp_guard [OF assms(2,1)] handleFtp_replies [OF assms(2)] handleFtp_reading [OF assms(2)]
    handleFtp_login [OF assms(2)] assms(1) by auto

lemma parse_dele:
  "parse_ftp (''DELE /a'' @ crlf) = Inr \<lparr>ftp_valid = True, ftp_command = Dele,
     ftp_tokens = [\<lparr>sv_chars = ''DELE'', sv_after = '' /a'' @ crlf\<rparr>, \<lparr>sv_chars = ''/a'', sv_after = crlf\<rparr>]\<rparr>"
  by code_simp

definition refused_session :: session where
  "refused_session = receiveMessage ((not_logged_in sample_session)\<lparr>last_ftp_command := Dele\<rparr>)"

lemma ftp_without_login_witness:
  "files_untouched sample_session refused_session
    \<and> (\<exists>m. is_ftp_reply m \<and> posted [m] sample_session refused_session)
    \<and> receives refused_session = 1 \<and> logged_in_user refused_session = None"
proof -
  have l: "logged_in_user sample_session = None" "receives sample_session = 0"
    by (simp_all add: sample_session_def new_session_def)
  then have "handleFtp sample_env (''DELE /a'' @ crlf) sample_session = Inr refused_session"
    by (simp only: handleFtp_def parse_dele)
      (simp add: ftp_handlers_def handleFtpDele_def refused_session_def)
  from ftp_without_login [OF l(1) this] l show ?thesis
    by (simp add: refused_session_def not_logged_in_def ftp_reply_to_def sendMessage_def receiveMessage_def)
qed

end
