(* ===== verification/Session_Invariants.thy ===== *)
theory Session_Invariants
  imports Session_Contract
begin

text \<open>
  What holds in every state a session can come to: the notion of an invariant of the steps,
  the discipline of the reply queue and that of the reads of the control connection.
\<close>

section \<open>Invariants of the step relation\<close>

locale session_invariant =
  fixes I :: "session \<Rightarrow> bool"
  assumes preserved: "session_step s e (Inr s') \<Longrightarrow> I s \<Longrightarrow> I s'"
begin

lemma reachable: "reachable_session s0 s \<Longrightarrow> I s0 \<Longrightarrow> I s"
  by (induction rule: reachable_session.induct) (auto intro: preserved)

lemma run: "run_events es s = Some (Inr s') \<Longrightarrow> I s \<Longrightarrow> I s'"
  by (rule reachable [OF run_events_reachable [OF _ reachable_session.init]])

end

section \<open>Messages sent\<close>

definition is_reply :: "string \<Rightarrow> bool" where
  "is_reply m \<longleftrightarrow> is_ftp_reply m \<or> is_http_reply m"

text \<open>
  \<open>sends ms s s'\<close>: the messages \<open>ms\<close>, replies all, were handed to \<open>sendMessage\<close>, and neither
  the reply queue nor its write was touched.
\<close>

definition sends :: "string list \<Rightarrow> session \<Rightarrow> session \<Rightarrow> bool" where
  "sends ms s s' \<longleftrightarrow>
     list_all is_reply ms \<and> serializer s' = serializer s @ map EnqueueMessage ms
     \<and> sent_log s' = sent_log s @ ms \<and> output_queue s' = output_queue s \<and> writes s' = writes s
     \<and> wire s' = wire s"

text \<open>Nothing that belongs to the data connection's queue was touched, but for new tasks.\<close>

definition data_tasks :: "data_task list \<Rightarrow> session \<Rightarrow> session \<Rightarrow> bool" where
  "data_tasks ts s s' \<longleftrightarrow>
     ftp_data_serializer s' = ftp_data_serializer s @ ts \<and> ftp_data_buffer s' = ftp_data_buffer s
     \<and> data_writes s' = data_writes s \<and> data_wire s' = data_wire s"

lemma posted_sends: "posted ms s s' \<Longrightarrow> list_all is_reply ms \<Longrightarrow> sends ms s s'"
  by (simp add: posted_def sends_def)

lemma posted_data: "posted ms s s' \<Longrightarrow> data_tasks [] s s'"
  by (simp add: posted_def data_tasks_def)

lemma posted_users: "posted ms s s' \<Longrightarrow> user_database s' = user_database s \<and> authenticate s' = authenticate s"
  by (simp add: posted_def)

definition is_control_event :: "event \<Rightarrow> bool" where
  "is_control_event e \<longleftrightarrow> (case e of RunTask \<Rightarrow> True | MessageWritten m ok \<Rightarrow> True | _ \<Rightarrow> False)"

definition is_data_event :: "event \<Rightarrow> bool" where
  "is_data_event e \<longleftrightarrow> (case e of RunDataTask \<Rightarrow> True | DataWritten w ok \<Rightarrow> True | _ \<Rightarrow> False)"

lemma message_received_cases:
  assumes "message_received env s = Inr s'"
  obtains (ftp) s1 packet where "handleFtp env packet s1 = Inr s'"
      "\<exists>b rx. s1 = s\<lparr>receives := receives s - 1, input_stream := b, socket_rx := rx\<rparr>"
  | (http) s1 request where "answerHttp request s1 = Inr s'"
      "\<exists>b rx. s1 = s\<lparr>receives := receives s - 1, input_stream := b, socket_rx := rx\<rparr>"
proof -
  obtain n buf rx where r: "read_until crlf (input_stream s) (socket_rx s) = Some (n, buf, rx)"
    using assms by (auto simp: message_received_def split: option.splits)
  let ?s = "s\<lparr>receives := receives s - 1, input_stream := drop n buf, socket_rx := rx\<rparr>"
  obtain p where "detectProtocol (take n buf) = Inr p"
    using assms r by (auto simp: message_received_def Let_def and_then_eq_Inr)
  then consider "handleHttp (take n buf) ?s = Inr s'" | "handleFtp env (take n buf) ?s = Inr s'"
    using assms r by (cases p) (simp_all add: message_received_def Let_def)
  then show thesis
  proof cases
    case 1
    then obtain k b2 rx2 where "answerHttp (take n buf @ take k b2)
        (?s\<lparr>input_stream := drop k b2, socket_rx := rx2\<rparr>) = Inr s'"
      by (rule handleHttp_answers)
    then show thesis by (rule http) auto
  next
    case 2
    then show thesis by (rule ftp) auto
  qed
qed

lemma message_received_posted:
  assumes "message_received env s = Inr s'"
  shows "\<exists>ms s1. posted ms s1 s' \<and> list_all is_reply ms \<and>
    (\<exists>b rx. s1 = s\<lparr>receives := receives s - 1, input_stream := b, socket_rx := rx\<rparr>)"
  using assms
proof (cases rule: message_received_cases)
  case (ftp s1 packet)
  then obtain m where "is_ftp_reply m" "posted [m] s1 s'" using handleFtp_replies by blast
  with ftp(2) show ?thesis
    by (intro exI [of _ "[m]"] exI [of _ s1]) (auto simp: is_reply_def)
next
  case (http s1 request)
  from answerHttp_responds [OF http(1)]
  consider "posted [] s1 s'" | m where "is_http_reply m" "posted [m] s1 s'" by blast
  then show ?thesis
  proof cases
    case 1
    with http(2) show ?thesis by (intro exI [of _ "[]"] exI [of _ s1]) simp
  next
    case 2
    with http(2) show ?thesis
      by (intro exI [of _ "[m]"] exI [of _ s1]) (auto simp: is_reply_def)
  qed
qed

lemma message_received_sends:
  assumes "message_received env s = Inr s'"
  shows "\<exists>ms. sends ms s s' \<and> data_tasks [] s s' \<and> user_database s' = user_database s
    \<and> authenticate s' = authenticate s"
  using message_received_posted [OF assms] by (auto simp: posted_def sends_def data_tasks_def)

text \<open>Everything but the two events of the reply queue itself only sends.\<close>

lemmas completion_defs =
  message_written_def sendMessageHandler_def enqueue_message_def receiveMessage_def
  receive_failed_def post_data_task_def close_acceptor_def closeFtpDataSocket_def close_socket_def
  send_ftp_data_def sendFtpDataHandler_def enqueue_ftp_data_def enqueueFtpDataHandler_def
  save_file_def saveFile_def file_read_def receiveFile_def accept_done_def data_written_def
  body_read_def ftp_reply_to_def http_reply_to_def sendMessage_def destroy_def closeSocket_def
  Let_def

lemma run_data_task_sends:
  assumes "run_data_task t s = Inr s'"
  shows "\<exists>ms. sends ms s s'"
  using assms
  by (cases t)
    (auto simp: completion_defs sends_def is_reply_def fs_add_def split: list.splits option.splits if_splits)

lemma accept_done_sends:
  "sane_error error \<Longrightarrow> \<exists>ms. sends ms s (accept_done h error s)"
  by (cases error; cases h) (auto simp: completion_defs sends_def is_reply_def)

lemma body_read_sends: "\<exists>ms. sends ms s (body_read b file s)"
  by (auto simp: completion_defs sends_def is_reply_def fs_add_def split: option.splits)

lemma data_written_sends: "data_written w ok s = Inr s' \<Longrightarrow> sends [] s s'"
  by (auto simp: completion_defs sends_def split: list.splits if_splits)

lemma file_read_sends: "sends [] s (file_read r chunk error s)"
  by (auto simp: completion_defs sends_def)

lemma sends_updates [simp]:
  "sends ms (s\<lparr>ftp_data_serializer := x1\<rparr>) s' = sends ms s s'"
  "sends ms (s\<lparr>accepts := x2\<rparr>) s' = sends ms s s'"
  "sends ms (s\<lparr>data_writes := x3\<rparr>) s' = sends ms s s'"
  "sends ms (s\<lparr>file_reads := x4\<rparr>) s' = sends ms s s'"
  "sends ms (s\<lparr>body_reads := x5\<rparr>) s' = sends ms s s'"
  "sends ms (s\<lparr>socket_rx := x6\<rparr>) s' = sends ms s s'"
  by (simp_all add: sends_def)

lemma step_sends:
  assumes "session_step s e (Inr s')" and "\<not> is_control_event e"
  shows "\<exists>ms. sends ms s s'"
  using assms
proof (cases rule: session_stepE)
  case (message_received env)
  then show ?thesis using message_received_sends [of env s s'] by metis
next
  case (run_data_task t ts)
  then show ?thesis using run_data_task_sends [of t "s\<lparr>ftp_data_serializer := ts\<rparr>" s'] by simp
next
  case (accept_done a error)
  then show ?thesis
    using accept_done_sends [of error "s\<lparr>accepts := remove1 a (accepts s)\<rparr>" "on_accept a"] by simp
next
  case (data_written w ok)
  then show ?thesis
    using data_written_sends [of w ok "s\<lparr>data_writes := remove1 w (data_writes s)\<rparr>" s'] by auto
next
  case (file_read r chunk error)
  then show ?thesis
    using file_read_sends [of "s\<lparr>file_reads := remove1 r (file_reads s)\<rparr>" r chunk error] by auto
next
  case (body_read b f rx)
  then show ?thesis
    using body_read_sends [of "s\<lparr>body_reads := remove1 b (body_reads s), socket_rx := rx\<rparr>" b "Some f"]
    by simp
next
  case (body_failed b)
  then show ?thesis
    using body_read_sends [of "s\<lparr>body_reads := remove1 b (body_reads s), socket_rx := []\<rparr>" b None]
    by simp
qed (auto simp: sends_def is_control_event_def completion_defs intro!: exI [of _ "[]"] split: option.splits)

section \<open>The reply queue\<close>

text \<open>The messages whose tasks have not run yet.\<close>

fun queued :: "task list \<Rightarrow> string list" where
  "queued [] = []"
| "queued (ReceiveMessage # ts) = queued ts"
| "queued (EnqueueMessage m # ts) = m # queued ts"

lemma queued_append [simp]: "queued (ts @ us) = queued ts @ queued us"
  by (induction ts rule: queued.induct) simp_all

lemma queued_messages [simp]: "queued (map EnqueueMessage ms) = ms"
  by (induction ms) simp_all

text \<open>
  Messages leave in the order they were sent, none is lost or doubled, and at most one write
  is in progress, of the message at the head of the queue.
\<close>

definition reply_inv :: "session \<Rightarrow> bool" where
  "reply_inv s \<longleftrightarrow>
     sent_log s = wire s @ output_queue s @ queued (serializer s)
     \<and> list_all is_reply (sent_log s)
     \<and> (writes s = [] \<or> (\<exists>m rest. output_queue s = m # rest \<and> writes s = [m]))"

lemma reply_inv_sends: "sends ms s s' \<Longrightarrow> reply_inv s \<Longrightarrow> reply_inv s'"
  by (auto simp: sends_def reply_inv_def)

lemma reply_inv_message_written:
  assumes "reply_inv s" "m \<in> set (writes s)"
    "message_written m ok (s\<lparr>writes := remove1 m (writes s)\<rparr>) = Inr s'"
  shows "reply_inv s'"
  using assms by (auto simp: reply_inv_def completion_defs split: list.splits if_splits)

lemma reply_inv_run_task:
  assumes "reply_inv s" "serializer s = t # ts" "run_task t (s\<lparr>serializer := ts\<rparr>) = Inr s'"
  shows "reply_inv s'"
  using assms by (cases t) (auto simp: reply_inv_def completion_defs split: list.splits if_splits)

interpretation replies: session_invariant reply_inv
proof
  fix s e s'
  assume step: "session_step s e (Inr s')" and inv: "reply_inv s"
  show "reply_inv s'"
  proof (cases "is_control_event e")
    case False
    with step inv show ?thesis using step_sends reply_inv_sends by blast
  next
    case True
    from step show ?thesis
    proof (cases rule: session_stepE)
      case (run_task t ts)
      with inv show ?thesis using reply_inv_run_task by metis
    next
      case (message_written m ok)
      with inv show ?thesis using reply_inv_message_written by metis
    qed (use True in \<open>simp_all add: is_control_event_def\<close>)
  qed
qed

section \<open>Reads of the control connection\<close>

text \<open>
  At most one read of the control connection is outstanding or waits to be started: two reads
  never compete for the bytes of the client.
\<close>

definition reads :: "session \<Rightarrow> nat" where
  "reads s = receives s + length (body_reads s) + count_list (serializer s) ReceiveMessage"

definition reads_inv :: "session \<Rightarrow> bool" where
  "reads_inv s \<longleftrightarrow> reads s \<le> 1"

lemma count_messages [simp]: "count_list (map EnqueueMessage ms) ReceiveMessage = 0"
  by (induction ms) simp_all

lemma message_received_reads:
  assumes "message_received env s = Inr s'" "0 < receives s"
  shows "reads s' \<le> reads s"
  using assms(1)
proof (cases rule: message_received_cases)
  case (ftp s1 packet)
  then obtain m where "posted [m] s1 s'" using handleFtp_replies by blast
  moreover have "receives s' = Suc (receives s1)" "body_reads s' = body_reads s1"
    using handleFtp_reading [OF ftp(1)] by simp_all
  ultimately show ?thesis using ftp(2) assms(2) by (auto simp: reads_def posted_def)
next
  case (http s1 request)
  have "\<exists>ms. posted ms s1 s'" using answerHttp_responds [OF http(1)] by blast
  moreover have "receives s' + length (body_reads s') \<le> Suc (receives s1 + length (body_reads s1))"
    using answerHttp_continues [OF http(1)] .
  ultimately show ?thesis using http(2) assms(2) by (auto simp: reads_def posted_def)
qed

lemma length_remove1_in: "x \<in> set xs \<Longrightarrow> Suc (length (remove1 x xs)) = length xs"
  using length_pos_if_in_set [of x xs] by (simp add: length_remove1)

lemma step_reads:
  assumes "session_step s e (Inr s')"
  shows "reads s' \<le> reads s"
  using assms
proof (cases rule: session_stepE)
  case (message_received env)
  then show ?thesis using message_received_reads by metis
next
  case (run_task t ts)
  then show ?thesis by (cases t) (auto simp: reads_def completion_defs split: if_splits list.splits)
next
  case (run_data_task t ts)
  then show ?thesis
    by (cases t) (auto simp: reads_def completion_defs fs_add_def split: if_splits list.splits option.splits)
next
  case (accept_done a error)
  then show ?thesis
    by (cases error; cases "on_accept a") (auto simp: reads_def completion_defs)
next
  case (body_read b f rx)
  then show ?thesis
    using length_remove1_in [of b "body_reads s"] by (auto simp: reads_def completion_defs fs_add_def)
next
  case (body_failed b)
  then show ?thesis
    using length_remove1_in [of b "body_reads s"] by (auto simp: reads_def completion_defs)
qed (auto simp: reads_def completion_defs split: if_splits list.splits option.splits)

interpretation one_read: session_invariant reads_inv
  by unfold_locales (auto simp: reads_inv_def dest: step_reads)

end
