(* ===== verification/Session_Data.thy ===== *)
theory Session_Data
  imports Session_Invariants
begin

text \<open>
  The data connection: the queue of data to send, what a download delivers, what an upload
  stores, and the state after a failed write from which the queue does not recover.
\<close>

section \<open>The data queue\<close>

text \<open>
  A trigger is a task that will send the head of the queue, or a write of it that is in
  progress. There is at most one, only while the queue is not empty, and a write in progress
  is of the head of the queue.
\<close>

fun send_tasks :: "data_task list \<Rightarrow> nat" where
  "send_tasks [] = 0"
| "send_tasks (SendFtpData k # ts) = Suc (send_tasks ts)"
| "send_tasks (CloseFtpDataSocket # ts) = send_tasks ts"
| "send_tasks (EnqueueFtpData f k # ts) = send_tasks ts"
| "send_tasks (SaveFile f p # ts) = send_tasks ts"

lemma send_tasks_append [simp]: "send_tasks (ts @ us) = send_tasks ts + send_tasks us"
  by (induction ts rule: send_tasks.induct) simp_all

definition triggers :: "session \<Rightarrow> nat" where
  "triggers s = send_tasks (ftp_data_serializer s) + length (data_writes s)"

definition data_inv :: "session \<Rightarrow> bool" where
  "data_inv s \<longleftrightarrow> triggers s \<le> 1 \<and> (0 < triggers s \<longrightarrow> ftp_data_buffer s \<noteq> [])
     \<and> (\<forall>w \<in> set (data_writes s). \<exists>rest. ftp_data_buffer s = Some (snd w) # rest)"

lemma data_tasks_updates [simp]:
  "data_tasks ts (s\<lparr>serializer := x1\<rparr>) s' = data_tasks ts s s'"
  "data_tasks ts (s\<lparr>accepts := x2\<rparr>) s' = data_tasks ts s s'"
  "data_tasks ts (s\<lparr>writes := x3\<rparr>) s' = data_tasks ts s s'"
  "data_tasks ts (s\<lparr>file_reads := x4\<rparr>) s' = data_tasks ts s s'"
  "data_tasks ts (s\<lparr>body_reads := x5\<rparr>) s' = data_tasks ts s s'"
  "data_tasks ts (s\<lparr>socket_rx := x6\<rparr>) s' = data_tasks ts s s'"
  by (simp_all add: data_tasks_def)

text \<open>Every other event leaves the queue alone; it may post tasks that are no triggers.\<close>

lemma run_task_data: "run_task t s = Inr s' \<Longrightarrow> data_tasks [] s s'"
  by (cases t) (auto simp: data_tasks_def completion_defs split: list.splits if_splits)

lemma accept_done_data:
  "\<exists>ts. data_tasks ts s (accept_done h error s) \<and> send_tasks ts = 0"
  by (cases error; cases h) (auto simp: data_tasks_def completion_defs)

lemma message_written_data: "message_written m ok s = Inr s' \<Longrightarrow> data_tasks [] s s'"
  by (auto simp: data_tasks_def completion_defs split: list.splits if_splits)

lemma file_read_data: "\<exists>ts. data_tasks ts s (file_read r chunk error s) \<and> send_tasks ts = 0"
  by (auto simp: data_tasks_def completion_defs)

lemma body_read_data: "data_tasks [] s (body_read b file s)"
  by (auto simp: data_tasks_def completion_defs fs_add_def split: option.splits)

lemma receive_failed_data: "data_tasks [CloseFtpDataSocket] s (receive_failed s)"
  by (simp add: data_tasks_def completion_defs)

lemma step_data:
  assumes "session_step s e (Inr s')" and "\<not> is_data_event e"
  shows "\<exists>ts. data_tasks ts s s' \<and> send_tasks ts = 0"
  using assms
proof (cases rule: session_stepE)
  case (message_received env)
  then have "data_tasks [] s s'" using message_received_sends [of env s s'] by metis
  then show ?thesis by (metis send_tasks.simps(1))
next
  case receive_failed
  then show ?thesis using receive_failed_data [of s] by (auto intro: exI [of _ "[CloseFtpDataSocket]"])
next
  case (run_task t ts)
  then show ?thesis
    using run_task_data [of t "s\<lparr>serializer := ts\<rparr>" s'] by (auto intro!: exI [of _ "[]"])
next
  case (message_written m ok)
  then show ?thesis
    using message_written_data [of m ok "s\<lparr>writes := remove1 m (writes s)\<rparr>" s']
    by (auto intro!: exI [of _ "[]"])
next
  case (accept_done a error)
  then show ?thesis
    using accept_done_data [of "s\<lparr>accepts := remove1 a (accepts s)\<rparr>" "on_accept a" error] by simp
next
  case (file_read r chunk error)
  then show ?thesis
    using file_read_data [of "s\<lparr>file_reads := remove1 r (file_reads s)\<rparr>" r chunk error] by simp
next
  case (body_read b f rx)
  then show ?thesis
    using body_read_data [of "s\<lparr>body_reads := remove1 b (body_reads s), socket_rx := rx\<rparr>" b "Some f"]
    by (auto intro!: exI [of _ "[]"])
next
  case (body_failed b)
  then show ?thesis
    using body_read_data [of "s\<lparr>body_reads := remove1 b (body_reads s), socket_rx := []\<rparr>" b None]
    by (auto intro!: exI [of _ "[]"])
qed (auto simp: data_tasks_def is_data_event_def destroy_def closeSocket_def closeFtpDataSocket_def
    close_socket_def split: option.splits intro!: exI [of _ "[]"])

lemma data_inv_tasks: "data_tasks ts s s' \<Longrightarrow> send_tasks ts = 0 \<Longrightarrow> data_inv s \<Longrightarrow> data_inv s'"
  by (auto simp: data_tasks_def data_inv_def triggers_def)

text \<open>The tasks that do not send leave the queue alone, too.\<close>

lemma save_file_data: "data_tasks [] s (save_file f p s)"
  by (auto simp: data_tasks_def completion_defs fs_add_def split: option.splits)

lemma close_data: "data_tasks [] s (closeFtpDataSocket s)"
  by (auto simp: data_tasks_def completion_defs split: option.splits)

lemma data_inv_run_data_task:
  assumes "data_inv s" "ftp_data_serializer s = t # ts"
    "run_data_task t (s\<lparr>ftp_data_serializer := ts\<rparr>) = Inr s'"
  shows "data_inv s'"
proof (cases t)
  case CloseFtpDataSocket
  with assms(3) have "data_tasks [] (s\<lparr>ftp_data_serializer := ts\<rparr>) s'"
    using close_data by auto
  moreover have "data_inv (s\<lparr>ftp_data_serializer := ts\<rparr>)"
    using assms(1,2) CloseFtpDataSocket by (simp add: data_inv_def triggers_def)
  ultimately show ?thesis by (metis data_inv_tasks send_tasks.simps(1))
next
  case (SendFtpData k)
  with assms(1,2) obtain d rest where b: "ftp_data_buffer s = d # rest" "send_tasks ts = 0"
      "data_writes s = []"
    by (auto simp: data_inv_def triggers_def neq_Nil_conv)
  with SendFtpData assms(3) show ?thesis
    by (cases d) (auto simp: data_inv_def triggers_def completion_defs)
next
  case (EnqueueFtpData f k)
  with assms show ?thesis
    by (cases "ftp_data_buffer s") (auto simp: data_inv_def triggers_def completion_defs)
next
  case (SaveFile f p)
  with assms(3) have "data_tasks [] (s\<lparr>ftp_data_serializer := ts\<rparr>) s'"
    using save_file_data by auto
  moreover have "data_inv (s\<lparr>ftp_data_serializer := ts\<rparr>)"
    using assms(1,2) SaveFile by (simp add: data_inv_def triggers_def)
  ultimately show ?thesis by (metis data_inv_tasks send_tasks.simps(1))
qed

lemma data_inv_data_written:
  assumes "data_inv s" "w \<in> set (data_writes s)"
    "data_written w ok (s\<lparr>data_writes := remove1 w (data_writes s)\<rparr>) = Inr s'"
  shows "data_inv s'"
proof -
  from assms(1,2) have "data_writes s = [w]" "send_tasks (ftp_data_serializer s) = 0"
    by (auto simp: data_inv_def triggers_def in_set_conv_decomp)
  with assms(3) show ?thesis
    by (auto simp: data_inv_def triggers_def completion_defs split: list.splits if_splits)
qed

interpretation data_queue: session_invariant data_inv
proof
  fix s e s'
  assume step: "session_step s e (Inr s')" and inv: "data_inv s"
  show "data_inv s'"
  proof (cases "is_data_event e")
    case False
    with step inv show ?thesis using step_data data_inv_tasks by blast
  next
    case True
    from step show ?thesis
    proof (cases rule: session_stepE)
      case (run_data_task t ts)
      with inv show ?thesis using data_inv_run_data_task by metis
    next
      case (data_written w ok)
      with inv show ?thesis using data_inv_data_written by metis
    qed (use True in \<open>simp_all add: is_data_event_def\<close>)
  qed
qed

text \<open>With both invariants, only a received message can make a session stop.\<close>

lemma no_stop:
  assumes "session_step s e r" "reply_inv s" "data_inv s" "\<And>env. e \<noteq> MessageReceived env"
  shows "\<exists>s'. r = Inr s'"
  using assms
proof (cases rule: session_stepE)
  case (run_task t ts)
  then show ?thesis by (cases t) (auto simp: completion_defs split: list.splits)
next
  case (run_data_task t ts)
  with assms(3) show ?thesis
    by (cases t) (auto simp: completion_defs data_inv_def triggers_def neq_Nil_conv split: option.splits)
next
  case (message_written m ok)
  with assms(2) show ?thesis
    by (auto simp: completion_defs reply_inv_def split: list.splits)
next
  case (data_written w ok)
  moreover from this assms(3) obtain rest where "ftp_data_buffer s = Some (snd w) # rest"
    by (auto simp: data_inv_def)
  ultimately show ?thesis by (simp add: completion_defs)
qed (use assms(4) in auto)

section \<open>A queue that nothing sends\<close>

text \<open>
  When a write fails, its completion handler takes the data off the queue and returns: the
  mark behind it stays, and nothing is left that would send it.
\<close>

definition data_stuck :: "session \<Rightarrow> bool" where
  "data_stuck s \<longleftrightarrow> ftp_data_buffer s \<noteq> [] \<and> triggers s = 0"

lemma data_stuck_step:
  assumes "session_step s e (Inr s')" "data_stuck s"
  shows "data_stuck s' \<and> data_wire s' = data_wire s"
proof (cases "is_data_event e")
  case False
  with assms(1) obtain ts where "data_tasks ts s s'" "send_tasks ts = 0" using step_data by blast
  with assms(2) show ?thesis by (auto simp: data_tasks_def data_stuck_def triggers_def)
next
  case True
  from assms(1) show ?thesis
  proof (cases rule: session_stepE)
    case (run_data_task t ts)
    with assms(2) show ?thesis
      using save_file_data [of "s\<lparr>ftp_data_serializer := ts\<rparr>"]
      by (cases t) (auto simp: data_stuck_def triggers_def data_tasks_def enqueue_ftp_data_def
          closeFtpDataSocket_def close_socket_def Let_def split: option.splits)
  next
    case (data_written w ok)
    with assms(2) show ?thesis by (simp add: data_stuck_def triggers_def)
  qed (use True in \<open>simp_all add: is_data_event_def\<close>)
qed

interpretation stuck: session_invariant data_stuck
  by unfold_locales (simp add: data_stuck_step)

lemma data_stuck_wire:
  "reachable_session s0 s \<Longrightarrow> data_stuck s0 \<Longrightarrow> data_wire s = data_wire s0"
proof (induction rule: reachable_session.induct)
  case (step s e s')
  then show ?case using data_stuck_step stuck.reachable by metis
qed simp

end
