(* ===== verification/Session_Files.thy ===== *)
theory Session_Files
  imports Session_Data
begin

text \<open>
  Who is logged in, where the session is, and what a session does to the stored files: they
  are added whole, removed on request, and never changed in between.
\<close>

section \<open>Login and working directory\<close>

text \<open>
  \<open>access_inv db\<close>: the session asks the database \<open>db\<close>, a user who is logged in has given a
  password the database accepts, and the working directory is one.
\<close>

definition access_inv :: "UserDatabase \<Rightarrow> session \<Rightarrow> bool" where
  "access_inv db s \<longleftrightarrow>
     user_database s = db \<and> (\<forall>u. logged_in_user s = Some u \<longrightarrow> db_verify db u)
     \<and> cwd_ok (current_working_dir s)"

definition same_access :: "session \<Rightarrow> session \<Rightarrow> bool" where
  "same_access s s' \<longleftrightarrow>
     user_database s' = user_database s \<and> logged_in_user s' = logged_in_user s
     \<and> current_working_dir s' = current_working_dir s"

lemma access_inv_same: "same_access s s' \<Longrightarrow> access_inv db s \<Longrightarrow> access_inv db s'"
  by (simp add: same_access_def access_inv_def)

lemma step_same_access:
  assumes "session_step s e (Inr s')" "\<And>env. e \<noteq> MessageReceived env"
  shows "same_access s s'"
  using assms
proof (cases rule: session_stepE)
  case (run_task t ts)
  then show ?thesis by (cases t) (auto simp: same_access_def completion_defs split: if_splits list.splits)
next
  case (run_data_task t ts)
  then show ?thesis
    by (cases t) (auto simp: same_access_def completion_defs fs_add_def
        split: if_splits list.splits option.splits)
next
  case (accept_done a error)
  then show ?thesis by (cases error; cases "on_accept a") (auto simp: same_access_def completion_defs)
qed (use assms(2) in \<open>auto simp: same_access_def completion_defs fs_add_def
    split: if_splits list.splits option.splits\<close>)

lemma message_received_access:
  assumes "message_received env s = Inr s'" "access_inv db s"
  shows "access_inv db s'"
  using assms(1)
proof (cases rule: message_received_cases)
  case (ftp s1 packet)
  from handleFtp_replies [OF ftp(1)] obtain m where "posted [m] s1 s'" by blast
  then have db: "user_database s' = user_database s1" using posted_users by blast
  have s1: "access_inv db s1" using ftp(2) assms(2) by (auto simp: access_inv_def)
  with handleFtp_login [OF ftp(1)] handleFtp_dir [OF ftp(1)] db show ?thesis
    by (auto simp: access_inv_def)
next
  case (http s1 request)
  have "\<exists>ms. posted ms s1 s'" using answerHttp_responds [OF http(1)] by blast
  then have "user_database s' = user_database s1" using posted_users by blast
  with answerHttp_apart [OF http(1)] http(2) assms(2) show ?thesis
    by (auto simp: access_inv_def ftp_untouched_def)
qed

interpretation access: session_invariant "access_inv db" for db
proof
  fix s e s'
  assume step: "session_step s e (Inr s')" and inv: "access_inv db s"
  show "access_inv db s'"
  proof (cases "\<exists>env. e = MessageReceived env")
    case True
    with step have "\<exists>env. message_received env s = Inr s'"
      by (cases rule: session_stepE) auto
    with inv show ?thesis using message_received_access by blast
  next
    case False
    with step inv show ?thesis using step_same_access access_inv_same by blast
  qed
qed

section \<open>Stored files\<close>

text \<open>
  Every step of a session is at most one operation of the store, and its event says which:
  \<open>session_op\<close> reads it off the bytes of the message that is received, off the task that saves
  an upload, and off the bytes of a body that has come in.
\<close>

definition message_op :: "session \<Rightarrow> fs_op option" where
  "message_op s =
     (case read_until crlf (input_stream s) (socket_rx s) of
        None \<Rightarrow> None
      | Some (n, buf, rx) \<Rightarrow>
          (case detectProtocol (take n buf) of
             Inr Ftp \<Rightarrow> command_op (take n buf) s
           | Inr Http \<Rightarrow>
               (case read_until (crlf @ crlf) (drop n buf) rx of
                  None \<Rightarrow> None
                | Some (k, buf', _) \<Rightarrow> request_op (take n buf @ take k buf') s)
           | Inl _ \<Rightarrow> None))"

fun session_op :: "event \<Rightarrow> session \<Rightarrow> fs_op option" where
  "session_op (MessageReceived env) s = message_op s"
| "session_op RunDataTask s =
     (case ftp_data_serializer s of SaveFile file path # _ \<Rightarrow> Some (FsAdd path file) | _ \<Rightarrow> None)"
| "session_op (BodyRead (n, path)) s = map_option (\<lambda>(file, _). FsAdd path file) (read_exactly n (socket_rx s))"
| "session_op _ s = None"

lemma command_op_reading:
  "command_op x (s\<lparr>receives := r, input_stream := b, socket_rx := rx\<rparr>) = command_op x s"
  by (simp add: command_op_def split: sum.split)

lemma request_op_reading:
  "request_op x (s\<lparr>receives := r, input_stream := b, socket_rx := rx\<rparr>) = request_op x s"
proof -
  have "authHttpUser p (s\<lparr>receives := r, input_stream := b, socket_rx := rx\<rparr>) = authHttpUser p s" for p
    by (simp add: authHttpUser_def)
  then show ?thesis by (simp add: request_op_def split: sum.split)
qed

lemma message_received_op:
  assumes "message_received env s = Inr s'"
  shows "filesystem s' = store_after (message_op s) (filesystem s)"
proof -
  obtain n buf rx where r: "read_until crlf (input_stream s) (socket_rx s) = Some (n, buf, rx)"
    using assms by (auto simp: message_received_def split: option.splits)
  let ?s = "s\<lparr>receives := receives s - 1, input_stream := drop n buf, socket_rx := rx\<rparr>"
  obtain p where p: "detectProtocol (take n buf) = Inr p"
    using assms r by (auto simp: message_received_def Let_def and_then_eq_Inr)
  show ?thesis
  proof (cases p)
    case Http
    with assms r p have "handleHttp (take n buf) ?s = Inr s'" by (simp add: message_received_def Let_def)
    then obtain k b2 rx2 where h: "read_until (crlf @ crlf) (drop n buf) rx = Some (k, b2, rx2)"
        "answerHttp (take n buf @ take k b2) (?s\<lparr>input_stream := drop k b2, socket_rx := rx2\<rparr>) = Inr s'"
      by (rule handleHttp_answers) simp
    from answerHttp_op [OF h(2)] r p h(1) Http show ?thesis
      by (simp add: message_op_def request_op_reading)
  next
    case Ftp
    with assms r p have "handleFtp env (take n buf) ?s = Inr s'" by (simp add: message_received_def Let_def)
    from handleFtp_op [OF this] r p Ftp show ?thesis by (simp add: message_op_def command_op_reading)
  qed
qed

lemma save_file_files: "filesystem (save_file f p s) = snd (fs_add (filesystem s) p f)"
  by (auto simp: completion_defs case_prod_beta split: option.splits Status.splits)

lemma body_read_files:
  "filesystem (body_read b file s) =
     (case file of None \<Rightarrow> filesystem s | Some f \<Rightarrow> snd (fs_add (filesystem s) (snd b) f))"
  by (auto simp: completion_defs case_prod_beta split: option.splits Status.splits)

lemma step_op:
  assumes "session_step s e (Inr s')"
  shows "filesystem s' = store_after (session_op e s) (filesystem s)"
  using assms
proof (cases rule: session_stepE)
  case (message_received env)
  then show ?thesis using message_received_op [of env s s'] by simp
next
  case (run_task t ts)
  then show ?thesis by (cases t) (auto simp: completion_defs split: if_splits list.splits)
next
  case (run_data_task t ts)
  then show ?thesis
    by (cases t) (auto simp: save_file_files send_ftp_data_def sendMessage_def
        ftp_reply_to_def close_socket_def closeFtpDataSocket_def enqueue_ftp_data_def
        sendFtpDataHandler_def post_data_task_def Let_def split: if_splits list.splits option.splits)
next
  case (accept_done a error)
  then show ?thesis by (cases error; cases "on_accept a") (auto simp: completion_defs)
next
  case (body_read b f rx)
  then show ?thesis by (cases b) (simp add: body_read_files)
next
  case (body_failed b)
  then show ?thesis by (simp add: body_read_files)
qed (auto simp: completion_defs split: if_splits list.splits option.splits)

text \<open>Hence: paths stay distinct, and what is stored under a path stays or goes, but never changes.\<close>

lemma step_fs_inv: "session_step s e (Inr s') \<Longrightarrow> fs_inv (filesystem s) \<Longrightarrow> fs_inv (filesystem s')"
  by (simp add: step_op store_after_abstract)

interpretation stored: session_invariant "\<lambda>s. fs_inv (filesystem s)"
  by unfold_locales (rule step_fs_inv)

lemma session_op_cases:
  assumes "session_op e s = Some x"
  obtains (remove) env path where "e = MessageReceived env" "x = FsRemove path"
  | (add) path f where "x = FsAdd path f"
  using assms
proof (cases "(e, s)" rule: session_op.cases)
  case (1 env s)
  with assms have "\<exists>path. x = FsRemove path"
    by (auto simp: message_op_def command_op_def request_op_def
        split: option.splits sum.splits AppLayerProtocol.splits if_splits)
  with 1 remove show thesis by blast
qed (use assms add in \<open>auto split: list.splits data_task.splits\<close>)

lemma step_keeps_content:
  assumes "session_step s e (Inr s')" "fs_inv (filesystem s)" "fs_map (filesystem s) path = Some f"
  shows "fs_map (filesystem s') path = Some f
    \<or> (\<exists>env. e = MessageReceived env) \<and> fs_map (filesystem s') path = None"
proof (cases "session_op e s")
  case None
  with assms(3) step_op [OF assms(1)] show ?thesis by simp
next
  case (Some x)
  then show ?thesis
  proof (cases rule: session_op_cases)
    case (remove env p)
    with Some assms step_op [OF assms(1)] show ?thesis by (simp add: memfs.remove_abs)
  next
    case (add p g)
    with Some assms step_op [OF assms(1)] memfs.add_keeps [OF assms(2,3)] show ?thesis by simp
  qed
qed

text \<open>A store with one file, to try properties on.\<close>

definition full_store :: MemoryFs where
  "full_store = \<lparr>fs_entries = [(''/a'', ''old'')], fs_order = front_order\<rparr>"

end
