(* ===== verification/Session_Transfer.thy ===== *)
theory Session_Transfer
  imports Session_Files
begin

text \<open>
  From bytes to stored files and back: how a request is cut out of what arrives, however it
  was cut on the way, what the PUT, GET and DELETE requests of a client come to, and what becomes
  of requests that are refused, cut short or not to be read.
\<close>

section \<open>Cutting a request out of the stream\<close>

abbreviation no_cr :: "string \<Rightarrow> bool" where
  "no_cr s \<equiv> list_all (\<lambda>c. c \<noteq> CHR 0x0D) s"

lemma search_no_cr:
  "no_cr l \<Longrightarrow> search (CHR 0x0D # p) (l @ xs) i = search (CHR 0x0D # p) xs (i + length l)"
  by (induction l arbitrary: i) auto

lemma search_line_no_cr: "no_cr l \<Longrightarrow> search crlf (l @ crlf @ rest) 0 = Some (length l)"
  by (rule search_line) (rule no_cr_no_crlf)

text \<open>The place of the first empty line behind a list of lines that are not empty.\<close>

lemma search_blank_line:
  "ls \<noteq> [] \<Longrightarrow> \<forall>l \<in> set ls. no_cr l \<and> l \<noteq> [] \<Longrightarrow>
     search (crlf @ crlf) (concat (map (\<lambda>l. l @ crlf) ls) @ crlf @ rest) i
       = Some (i + length (concat (map (\<lambda>l. l @ crlf) ls)) - 2)"
proof (induction ls arbitrary: i)
  case (Cons l ls)
  then have l: "no_cr l" by simp
  let ?more = "concat (map (\<lambda>l. l @ crlf) ls) @ crlf @ rest"
  have "search (crlf @ crlf) (concat (map (\<lambda>l. l @ crlf) (l # ls)) @ crlf @ rest) i
      = search (crlf @ crlf) (crlf @ ?more) (i + length l)"
    using search_no_cr [OF l, of "CHR 0x0A # crlf" "crlf @ ?more" i] by (simp add: crlf_def)
  also have "\<dots> = Some (i + length (concat (map (\<lambda>l. l @ crlf) (l # ls))) - 2)"
  proof (cases ls)
    case Nil
    then show ?thesis by (simp add: crlf_def)
  next
    case (Cons l' ls')
    with Cons.prems obtain c cs where c: "l' = c # cs" "c \<noteq> CHR 0x0D" by (cases l') auto
    then have "search (crlf @ crlf) (crlf @ ?more) (i + length l)
        = search (crlf @ crlf) ?more (Suc (Suc (i + length l)))"
      by (simp add: crlf_def Cons)
    also have "\<dots> = Some (Suc (Suc (i + length l)) + length (concat (map (\<lambda>l. l @ crlf) ls)) - 2)"
      using Cons.prems Cons by (intro Cons.IH) auto
    finally show ?thesis by (simp add: crlf_def)
  qed
  finally show ?case .
qed simp

text \<open>Where the bytes are cut does not matter to \<open>read_until\<close> and \<open>read_exactly\<close>.\<close>

lemma read_until_segments:
  assumes "search d (buf @ concat xs) 0 = Some n"
  shows "\<exists>buf' xs'. read_until d buf xs = Some (n + length d, buf', xs')
    \<and> buf' @ concat xs' = buf @ concat xs \<and> n + length d \<le> length buf'"
  using assms
proof (induction d buf xs rule: read_until.induct)
  case (1 d buf)
  then show ?case using search_Some [of d buf 0 n] by simp
next
  case (2 d buf x xs)
  show ?case
  proof (cases "search d buf 0")
    case None
    with 2 show ?thesis by simp
  next
    case (Some i)
    with "2.prems" search_append [OF Some, of "concat (x # xs)"] have "i = n" by simp
    with Some search_Some [OF Some] show ?thesis by simp
  qed
qed

lemma read_until_first:
  assumes "search d (buf @ concat xs) 0 = Some n"
  obtains buf' xs' where "read_until d buf xs = Some (n + length d, buf', xs')"
    "take (n + length d) buf' = take (n + length d) (buf @ concat xs)"
    "drop (n + length d) buf' @ concat xs' = drop (n + length d) (buf @ concat xs)"
proof -
  obtain buf' xs' where r: "read_until d buf xs = Some (n + length d, buf', xs')"
      "buf' @ concat xs' = buf @ concat xs" "n + length d \<le> length buf'"
    using read_until_segments [OF assms] by blast
  then show thesis using that [OF r(1)]
    by (metis drop_append take_append diff_is_0_eq drop0 take0 append_Nil2)
qed

lemma read_until_consumes:
  "read_until d buf xs = Some (n, buf', xs') \<Longrightarrow> length xs' \<le> length xs
     \<and> (search d buf 0 = None \<longrightarrow> length xs' < length xs)"
  by (induction d buf xs rule: read_until.induct) (force split: option.splits)+

lemma read_exactly_segments:
  assumes "concat xs = bs @ rest"
  obtains xs' where "read_exactly (length bs) xs = Some (bs, xs')" "concat xs' = rest"
proof -
  have "read_exactly (length bs) xs \<noteq> None" using assms by (simp add: read_exactly_None)
  then obtain cs xs' where r: "read_exactly (length bs) xs = Some (cs, xs')" by auto
  from read_exactly_Some [OF r] assms have "length cs = length bs" "cs @ concat xs' = bs @ rest"
    by simp_all
  then have "cs = bs" "concat xs' = rest" by simp_all
  with r that show thesis by blast
qed

text \<open>The bytes a session has not looked at yet.\<close>

definition pending :: "session \<Rightarrow> string" where
  "pending s = input_stream s @ concat (socket_rx s)"

definition after_read :: "session \<Rightarrow> string \<Rightarrow> string list \<Rightarrow> session" where
  "after_read s b rx = s\<lparr>receives := receives s - 1, input_stream := b, socket_rx := rx\<rparr>"

lemma pending_after_read [simp]: "pending (after_read s b rx) = b @ concat rx"
  by (simp add: pending_def after_read_def)

text \<open>A line that is no HTTP request line goes to \<open>handleFtp\<close>.\<close>

lemma receive_line:
  assumes "pending s = line @ crlf @ rest" "no_cr line" "\<not> occurs ''HTTP'' line"
  shows "\<exists>b rx. message_received env s = handleFtp env (line @ crlf) (after_read s b rx)
    \<and> b @ concat rx = rest"
proof -
  have "search crlf (input_stream s @ concat (socket_rx s)) 0 = Some (length line)"
    using assms(1) search_line_no_cr [OF assms(2)] by (simp add: pending_def)
  then obtain buf rx where r: "read_until crlf (input_stream s) (socket_rx s)
        = Some (length line + 2, buf, rx)"
      "take (length line + 2) buf = line @ crlf" "drop (length line + 2) buf @ concat rx = rest"
    using assms(1) by (elim read_until_first) (simp add: pending_def [symmetric] crlf_def)
  have "detectProtocol (line @ crlf) = Inr Ftp"
    using detectProtocol_line [of line "[]"] assms(2,3) by (simp add: no_cr_no_crlf)
  with r show ?thesis
    by (intro exI [of _ "drop (length line + 2) buf"] exI [of _ rx])
      (simp add: message_received_def after_read_def)
qed

text \<open>A request head with at least one header line goes to \<open>answerHttp\<close>.\<close>

definition plain_header :: "request_header \<Rightarrow> bool" where
  "plain_header h \<longleftrightarrow> wf_request_header h \<and> no_cr (header_text h)"

definition raw_head :: "string \<Rightarrow> string list \<Rightarrow> string" where
  "raw_head line ls = concat (map (\<lambda>l. l @ crlf) (line # ls)) @ crlf"

lemma lines_read:
  assumes p: "pending s = raw_head l ls @ rest"
    and l: "no_cr l" "occurs ''HTTP'' l" and ls: "ls \<noteq> []" "\<forall>x \<in> set ls. no_cr x \<and> x \<noteq> []"
  obtains n buf rx k buf2 rx2 where
    "read_until crlf (input_stream s) (socket_rx s) = Some (n, buf, rx)" "detectProtocol (take n buf) = Inr Http"
    "read_until (crlf @ crlf) (drop n buf) rx = Some (k, buf2, rx2)" "take n buf @ take k buf2 = raw_head l ls"
    "drop k buf2 @ concat rx2 = rest" "input_stream s = [] \<Longrightarrow> length rx2 < length (socket_rx s)"
proof -
  let ?h = "concat (map (\<lambda>l. l @ crlf) ls) @ crlf"
  have all: "pending s = l @ crlf @ ?h @ rest" using p by (simp add: raw_head_def)
  then have "search crlf (input_stream s @ concat (socket_rx s)) 0 = Some (length l)"
    using search_line_no_cr [OF l(1)] by (simp add: pending_def)
  then obtain buf rx where r: "read_until crlf (input_stream s) (socket_rx s)
        = Some (length l + 2, buf, rx)"
      "take (length l + 2) buf = l @ crlf" "drop (length l + 2) buf @ concat rx = ?h @ rest"
    using all by (elim read_until_first) (simp add: pending_def [symmetric] crlf_def)
  obtain k where k: "search (crlf @ crlf) (?h @ rest) 0 = Some k" "k + 4 = length ?h"
    using search_blank_line [OF ls, of rest 0] ls(1) by (cases ls) (auto simp: crlf_def)
  then have "search (crlf @ crlf) (drop (length l + 2) buf @ concat rx) 0 = Some k" using r(3) by simp
  then obtain buf2 rx2 where r2: "read_until (crlf @ crlf) (drop (length l + 2) buf) rx
        = Some (length ?h, buf2, rx2)"
      "take (length ?h) buf2 = ?h" "drop (length ?h) buf2 @ concat rx2 = rest"
    using k(2) r(3) by (elim read_until_first) (simp add: crlf_def)
  have "detectProtocol (l @ crlf) = Inr Http"
    using detectProtocol_line [of l "[]"] l by (simp add: no_cr_no_crlf)
  moreover have "length rx2 \<le> length rx" "input_stream s = [] \<Longrightarrow> length rx < length (socket_rx s)"
    using read_until_consumes [OF r2(1)] read_until_consumes [OF r(1)] by (auto simp: crlf_def)
  ultimately show thesis
    using r(2) r2(2,3) by (intro that [OF r(1) _ r2(1)]) (auto simp: raw_head_def)
qed

lemma receive_lines:
  assumes "pending s = raw_head l ls @ rest"
    and "no_cr l" "occurs ''HTTP'' l" "ls \<noteq> []" "\<forall>x \<in> set ls. no_cr x \<and> x \<noteq> []"
  shows "\<exists>b rx. message_received env s = answerHttp (raw_head l ls) (after_read s b rx)
    \<and> b @ concat rx = rest \<and> (input_stream s = [] \<longrightarrow> length rx < length (socket_rx s))"
proof -
  obtain n buf rx k buf2 rx2 where r:
    "read_until crlf (input_stream s) (socket_rx s) = Some (n, buf, rx)" "detectProtocol (take n buf) = Inr Http"
    "read_until (crlf @ crlf) (drop n buf) rx = Some (k, buf2, rx2)" "take n buf @ take k buf2 = raw_head l ls"
    "drop k buf2 @ concat rx2 = rest" "input_stream s = [] \<Longrightarrow> length rx2 < length (socket_rx s)"
    using lines_read [OF assms] by metis
  then have "message_received env s = answerHttp (raw_head l ls) (after_read s (drop k buf2) rx2)"
    by (simp add: message_received_def handleHttp_def after_read_def)
  with r(5,6) show ?thesis by blast
qed

lemma request_line_http: "occurs ''HTTP'' version \<Longrightarrow> occurs ''HTTP'' (request_line m uri version)"
  unfolding occurs_iff request_line_def by (metis append.assoc)

lemma request_line_no_cr: "wf_word m \<Longrightarrow> wf_word uri \<Longrightarrow> wf_word version \<Longrightarrow> no_cr (request_line m uri version)"
  by (simp add: request_line_def wf_wordD)

lemma receive_head:
  assumes p: "pending s = request_head m uri version hs @ rest"
    and "hs \<noteq> []" "list_all plain_header hs"
    and "wf_word m" "wf_word uri" "wf_word version" and http: "occurs ''HTTP'' version"
  shows "\<exists>b rx. message_received env s = answerHttp (request_head m uri version hs) (after_read s b rx)
    \<and> b @ concat rx = rest \<and> (input_stream s = [] \<longrightarrow> length rx < length (socket_rx s))"
proof -
  have "request_head m uri version hs = raw_head (request_line m uri version) (map header_text hs)"
    by (simp add: raw_head_def request_head_def)
  moreover have "map header_text hs \<noteq> []" "\<forall>l \<in> set (map header_text hs). no_cr l \<and> l \<noteq> []"
    using assms(2,3) by (auto simp: list_all_iff plain_header_def header_text_def)
  ultimately show ?thesis
    using receive_lines [OF _ request_line_no_cr [OF assms(4-6)] request_line_http [OF http]] p by simp
qed

section \<open>Requests a client writes\<close>

text \<open>
  A request the parser reads: words in the request line, header lines without line breaks in
  them, and a body size that \<open>atoi\<close> reads.
\<close>

definition plain_request :: "string \<Rightarrow> string \<Rightarrow> string \<Rightarrow> request_header list \<Rightarrow> bool" where
  "plain_request m uri version hs \<longleftrightarrow>
     wf_word m \<and> wf_word uri \<and> wf_word version \<and> occurs ''HTTP'' version
     \<and> hs \<noteq> [] \<and> list_all plain_header hs \<and> size_field_ok hs"

definition presents :: "request_header list \<Rightarrow> string \<Rightarrow> User \<Rightarrow> bool" where
  "presents hs scheme user \<longleftrightarrow>
     fields_of hs kAuthenticationKey = Some (basic_credentials scheme (username user) (password user))
     \<and> CHR '' '' \<notin> set scheme \<and> CHR '':'' \<notin> set (username user) \<and> CHR '':'' \<notin> set (password user)"

text \<open>The client is let in: nobody asks, or it presents credentials the database accepts.\<close>

definition let_in :: "request_header list \<Rightarrow> string \<Rightarrow> User \<Rightarrow> session \<Rightarrow> bool" where
  "let_in hs scheme user s \<longleftrightarrow>
     \<not> authenticate s \<or> presents hs scheme user \<and> db_verify (user_database s) user"

lemma presents_auth_info:
  assumes "presents hs scheme user" "view_chars (header_fields p) = fields_of hs"
  shows "getAuthInfo p = Inr (Some \<lparr>auth_username = username user, auth_password = password user\<rparr>)"
proof -
  obtain w where "header_field p kAuthenticationKey = Some w"
      "sv_chars w = basic_credentials scheme (username user) (password user)"
    using header_field_chars [OF assms(2), of kAuthenticationKey] assms(1)
    by (auto simp: presents_def)
  with assms(1) show ?thesis by (subst getAuthInfo_credentials) (auto simp: presents_def)
qed

lemma authHttpUser_presents:
  assumes "presents hs scheme user" "view_chars (header_fields p) = fields_of hs" "authenticate s"
  shows "authHttpUser p s = Inr (db_verify (user_database s) user)"
  using presents_auth_info [OF assms(1,2)] assms(3) by (cases user) (simp add: authHttpUser_def)

lemma let_in_auth:
  assumes "let_in hs scheme user s" "view_chars (header_fields p) = fields_of hs"
  shows "authHttpUser p s = Inr True"
proof (cases "authenticate s")
  case True
  with assms show ?thesis by (auto simp: let_in_def authHttpUser_presents)
qed (simp add: authHttpUser_def)

definition parses_to :: "HttpParser \<Rightarrow> HttpMethod \<Rightarrow> string \<Rightarrow> request_header list \<Rightarrow> bool" where
  "parses_to p meth uri hs \<longleftrightarrow>
     http_valid p \<and> http_method p = meth \<and> sv_chars (http_uri p) = uri
     \<and> view_chars (header_fields p) = fields_of hs \<and> unat (resource_size p) = size_of_request hs"

lemma plain_request_parses:
  assumes "plain_request m uri version hs" "kMethodMap m = Some meth"
  obtains p where "parse_http (request_head m uri version hs) = Inr p" "parses_to p meth uri hs"
proof -
  have "list_all wf_request_header hs"
    using assms(1) by (simp add: plain_request_def plain_header_def list_all_iff)
  then have "\<exists>p. parse_http (request_head m uri version hs) = Inr p \<and> http_valid p
      \<and> http_method p = meth \<and> sv_chars (http_uri p) = uri
      \<and> view_chars (header_fields p) = fields_of hs \<and> unat (resource_size p) = size_of_request hs"
    using assms by (intro parse_http_request_head) (simp_all add: plain_request_def)
  then show thesis using that by (auto simp: parses_to_def)
qed

lemma answer_let_in:
  assumes "plain_request m uri version hs" "kMethodMap m = Some meth" "let_in hs scheme user s"
    and "http_handlers meth = Some handle"
  obtains p where "parses_to p meth uri hs" "answerHttp (request_head m uri version hs) s = handle p s"
proof -
  obtain p where p: "parse_http (request_head m uri version hs) = Inr p" "parses_to p meth uri hs"
    using plain_request_parses [OF assms(1,2)] .
  have "authHttpUser p s = Inr True"
    using let_in_auth [OF assms(3)] p(2) by (simp add: parses_to_def)
  with p assms(4) that show thesis by (simp add: answerHttp_def parses_to_def)
qed

lemma answer_refused:
  assumes "plain_request m uri version hs" "kMethodMap m = Some meth"
    and "authenticate s" "presents hs scheme user" "\<not> db_verify (user_database s) user"
  shows "answerHttp (request_head m uri version hs) s = Inr (http_reply_to unauthorised s)"
proof -
  obtain p where p: "parse_http (request_head m uri version hs) = Inr p" "parses_to p meth uri hs"
    using plain_request_parses [OF assms(1,2)] .
  have "authHttpUser p s = Inr False"
    using authHttpUser_presents [OF assms(4) _ assms(3)] p(2) assms(5) by (simp add: parses_to_def)
  with p show ?thesis by (simp add: answerHttp_def parses_to_def unauthorised_def)
qed

text \<open>A client that presents nothing, where credentials are asked for.\<close>

lemma answer_no_credentials:
  assumes "plain_request m uri version hs" "kMethodMap m = Some meth"
    and "authenticate s" "fields_of hs kAuthenticationKey = None"
  shows "answerHttp (request_head m uri version hs) s = Inl Undefined_Behaviour"
proof -
  obtain p where p: "parse_http (request_head m uri version hs) = Inr p" "parses_to p meth uri hs"
    using plain_request_parses [OF assms(1,2)] .
  have "header_field p kAuthenticationKey = None"
    using p(2) header_field_chars [of p "fields_of hs" kAuthenticationKey] assms(4)
    by (simp add: parses_to_def)
  with p assms(3) show ?thesis
    by (simp add: answerHttp_def parses_to_def authHttpUser_def getAuthInfo_missing)
qed

section \<open>Answers to GET, PUT and DELETE\<close>

definition get_answer :: "MemoryFs \<Rightarrow> string \<Rightarrow> HttpResponse" where
  "get_answer m uri =
     (if uri = ''/'' then HttpResponse_resource Ok (directory_listing m)
      else case fs_map m uri of
        Some f \<Rightarrow> HttpResponse_resource Ok f
      | None \<Rightarrow> HttpResponse_status NotFound)"

lemma handleHttpGet_answer:
  "sv_chars (http_uri p) = uri \<Longrightarrow>
     handleHttpGet p s = Inr (receiveMessage (http_reply_to (get_answer (filesystem s) uri) s))"
  by (cases "fs_map (filesystem s) uri")
    (auto simp: handleHttpGet_def get_answer_def fs_get_def exists_def fs_map_def)

lemma answer_get:
  assumes "plain_request ''GET'' uri version hs" "let_in hs scheme user s"
  shows "answerHttp (request_head ''GET'' uri version hs) s
    = Inr (receiveMessage (http_reply_to (get_answer (filesystem s) uri) s))"
  by (rule answer_let_in [OF assms(1) _ assms(2), where meth = Get and handle = handleHttpGet])
    (auto simp: kMethodMap_def http_handlers_def parses_to_def handleHttpGet_answer)

definition expects_continue :: "request_header list \<Rightarrow> bool" where
  "expects_continue hs \<longleftrightarrow> fields_of hs ''expect'' = Some ''100-continue''"

lemma answer_put:
  assumes "plain_request ''PUT'' uri version hs" "let_in hs scheme user s"
  shows "answerHttp (request_head ''PUT'' uri version hs) s
    = Inr ((if expects_continue hs then http_reply_to (HttpResponse_status Continue) s else s)
        \<lparr>body_reads := body_reads s @ [(size_of_request hs, uri)]\<rparr>)"
proof (rule answer_let_in [OF assms(1) _ assms(2), where meth = Put and handle = handleHttpPut])
  fix p
  assume p: "parses_to p Put uri hs"
  have "size_of_request hs \<le> string_max_size"
    using size_of_request_bound [of hs] assms(1) by (simp add: plain_request_def string_max_size_def)
  moreover have "map_option sv_chars (header_field p ''expect'') = fields_of hs ''expect''"
    using p header_field_chars by (simp add: parses_to_def)
  moreover assume "answerHttp (request_head ''PUT'' uri version hs) s = handleHttpPut p s"
  ultimately show ?thesis
    using p by (auto simp: handleHttpPut_def parses_to_def expects_continue_def http_reply_to_def
        Let_def split: option.splits)
qed (simp_all add: kMethodMap_def http_handlers_def)

definition delete_answer :: "MemoryFs \<Rightarrow> string \<Rightarrow> HttpResponse" where
  "delete_answer m uri = HttpResponse_status (if fs_map m uri = None then NotFound else Ok)"

lemma answer_delete:
  assumes "plain_request ''DELETE'' uri version hs" "let_in hs scheme user s"
    and inv: "fs_inv (filesystem s)"
  shows "answerHttp (request_head ''DELETE'' uri version hs) s
    = Inr (receiveMessage (http_reply_to (delete_answer (filesystem s) uri)
        (s\<lparr>filesystem := snd (fs_remove (filesystem s) uri)\<rparr>)))"
proof (rule answer_let_in [OF assms(1) _ assms(2), where meth = Delete and handle = handleHttpDelete])
  fix p
  assume "parses_to p Delete uri hs"
    and "answerHttp (request_head ''DELETE'' uri version hs) s = handleHttpDelete p s"
  with memfs.remove_status [OF inv, of uri] show ?thesis
    by (auto simp: handleHttpDelete_def parses_to_def delete_answer_def case_prod_beta domIff)
qed (simp_all add: kMethodMap_def http_handlers_def)

section \<open>Upload and download over HTTP\<close>

lemma message_received_runs:
  assumes "message_received env s = Inr s'" "0 < receives s"
  shows "run_events (MessageReceived env # es) s = run_events es s'"
proof -
  have "read_until crlf (input_stream s) (socket_rx s) \<noteq> None"
    using assms(1) by (auto simp: message_received_def split: option.splits)
  with assms show ?thesis by simp
qed

lemma run_arrivals:
  "\<not> socket_eof s \<Longrightarrow> [] \<notin> set xs \<Longrightarrow>
     run_events (map Arrive xs @ es) s = run_events es (s\<lparr>socket_rx := socket_rx s @ xs\<rparr>)"
proof (induction xs arbitrary: s)
  case (Cons x xs)
  from Cons.prems Cons.IH [of "s\<lparr>socket_rx := socket_rx s @ [x]\<rparr>"] show ?case by auto
qed simp

lemma pending_arrived [simp]: "pending (s\<lparr>socket_rx := socket_rx s @ xs\<rparr>) = pending s @ concat xs"
  by (simp add: pending_def)

definition put_answer :: "MemoryFs \<Rightarrow> string \<Rightarrow> HttpResponse" where
  "put_answer m path = HttpResponse_status (if fs_map m path = None then Created else NotFound)"

definition continue_messages :: "request_header list \<Rightarrow> string list" where
  "continue_messages hs =
     (if expects_continue hs then [http_serialise (HttpResponse_status Continue)] else [])"

text \<open>A session between two requests: one read of the next message, nothing else to come.\<close>

definition ready :: "session \<Rightarrow> bool" where
  "ready s \<longleftrightarrow> receives s = 1 \<and> body_reads s = [] \<and> \<not> socket_eof s \<and> fs_inv (filesystem s)"

definition same_client :: "session \<Rightarrow> session \<Rightarrow> bool" where
  "same_client s s' \<longleftrightarrow> authenticate s' = authenticate s \<and> user_database s' = user_database s"

text \<open>What HTTP requests leave alone: the FTP side of the session and its data connection.\<close>

definition ftp_apart :: "session \<Rightarrow> session \<Rightarrow> bool" where
  "ftp_apart s s' \<longleftrightarrow> ftp_untouched s s' \<and> data_tasks [] s s' \<and> local_address s' = local_address s"

lemma let_in_same: "same_client s s' \<Longrightarrow> let_in hs scheme user s' = let_in hs scheme user s"
  by (simp add: same_client_def let_in_def)

lemma body_read_file:
  assumes "fs_inv (filesystem s)"
  shows "body_read (n, path) (Some f) s = receiveMessage (http_reply_to (put_answer (filesystem s) path)
    (s\<lparr>filesystem := snd (fs_add (filesystem s) path f)\<rparr>))"
  using memfs.add_status [OF assms, of path f]
  by (auto simp: body_read_def put_answer_def case_prod_beta domIff)

text \<open>
  A PUT request, its head and its body cut in any way: the file is in the store and the answer
  on its way. The body arrives after the head has been read.
\<close>

lemma put_run:
  assumes s: "ready s" "pending s = request_head ''PUT'' path version hs"
    and r: "plain_request ''PUT'' path version hs" "let_in hs scheme user s"
    and body: "size_of_request hs = length body" "concat xs = body" "[] \<notin> set xs"
  obtains s' where
    "run_events (MessageReceived env # map Arrive xs @ BodyRead (length body, path) # es) s = run_events es s'"
    "ready s'" "same_client s s'" "pending s' = []"
    "filesystem s' = snd (fs_add (filesystem s) path body)"
    "sent_log s' = sent_log s @ continue_messages hs
       @ [http_serialise (put_answer (filesystem s) path)]"
    "ftp_apart s s'"
proof -
  let ?head = "request_head ''PUT'' path version hs"
  obtain b rx where m: "message_received env s = answerHttp ?head (after_read s b rx)" "b = []" "concat rx = []"
    using receive_head [of s "''PUT''" path version hs "[]" env] s(2) r(1)
    by (auto simp: plain_request_def)
  let ?s = "after_read s b rx"
  have "let_in hs scheme user ?s"
    using r(2) by (simp add: let_in_def after_read_def)
  note a = answer_put [OF r(1) this]
  let ?s1 = "?s\<lparr>serializer := serializer s @ map EnqueueMessage (continue_messages hs),
      sent_log := sent_log s @ continue_messages hs, body_reads := [(length body, path)]\<rparr>"
  have "message_received env s = Inr ?s1"
    using m(1) a body(1) s(1)
    by (simp add: continue_messages_def http_reply_to_def sendMessage_def after_read_def ready_def)
  with s(1) have "run_events (MessageReceived env # map Arrive xs @ BodyRead (length body, path) # es) s
      = run_events (map Arrive xs @ BodyRead (length body, path) # es) ?s1"
    by (intro message_received_runs) (simp_all add: ready_def)
  also have "\<dots> = run_events (BodyRead (length body, path) # es) (?s1\<lparr>socket_rx := socket_rx ?s1 @ xs\<rparr>)"
    using s(1) body(3) by (intro run_arrivals) (simp_all add: ready_def after_read_def)
  finally have run: "run_events (MessageReceived env # map Arrive xs @ BodyRead (length body, path) # es) s
      = run_events (BodyRead (length body, path) # es) (?s1\<lparr>socket_rx := rx @ xs\<rparr>)"
    by (simp add: after_read_def)
  have "concat (rx @ xs) = body @ []" using m(3) body(2) by simp
  then obtain rx' where rx': "read_exactly (length body) (rx @ xs) = Some (body, rx')" "concat rx' = []"
    by (rule read_exactly_segments)
  let ?s2 = "?s1\<lparr>body_reads := [], socket_rx := rx'\<rparr>"
  let ?s' = "body_read (length body, path) (Some body) ?s2"
  have "run_events (MessageReceived env # map Arrive xs @ BodyRead (length body, path) # es) s = run_events es ?s'"
    unfolding run using rx'(1) by (simp add: after_read_def)
  moreover have fs: "filesystem ?s2 = filesystem s" "fs_inv (filesystem ?s2)"
    using s(1) by (simp_all add: ready_def after_read_def)
  then have s': "?s' = receiveMessage (http_reply_to (put_answer (filesystem s) path)
      (?s2\<lparr>filesystem := snd (fs_add (filesystem s) path body)\<rparr>))"
    using body_read_file [OF fs(2), of "length body" path body] by simp
  have "ready ?s'" "same_client s ?s'" "pending ?s' = []"
    using s(1) m(2) rx'(2) memfs.add_inv [of "filesystem s" path body] unfolding s'
    by (simp_all add: ready_def same_client_def pending_def after_read_def http_reply_to_def
        sendMessage_def receiveMessage_def)
  moreover have "filesystem ?s' = snd (fs_add (filesystem s) path body)"
    "sent_log ?s' = sent_log s @ continue_messages hs @ [http_serialise (put_answer (filesystem s) path)]"
    unfolding s' by (simp_all add: after_read_def http_reply_to_def sendMessage_def receiveMessage_def)
  moreover have "ftp_apart s ?s'"
    unfolding s' by (simp add: ftp_apart_def ftp_untouched_def data_tasks_def after_read_def http_reply_to_def
        sendMessage_def receiveMessage_def)
  ultimately show thesis using that by blast
qed

text \<open>A request that is answered at once, with what it does to the store.\<close>

lemma one_answer_run:
  assumes s: "ready s" "pending s = request_head m uri version hs @ rest"
    and r: "plain_request m uri version hs" and "fs_inv files"
    and answer: "\<And>b rx. answerHttp (request_head m uri version hs) (after_read s b rx)
      = Inr (receiveMessage (http_reply_to a ((after_read s b rx)\<lparr>filesystem := files\<rparr>)))"
  obtains s' where "run_events (MessageReceived env # es) s = run_events es s'"
    "ready s'" "same_client s s'" "pending s' = rest" "filesystem s' = files"
    "sent_log s' = sent_log s @ [http_serialise a]" "ftp_apart s s'"
proof -
  obtain b rx where m: "message_received env s = answerHttp (request_head m uri version hs) (after_read s b rx)"
      "b @ concat rx = rest"
    using receive_head [OF s(2), of env] r by (auto simp: plain_request_def)
  let ?s' = "receiveMessage (http_reply_to a ((after_read s b rx)\<lparr>filesystem := files\<rparr>))"
  have "message_received env s = Inr ?s'" using m(1) answer by simp
  with s(1) have "run_events (MessageReceived env # es) s = run_events es ?s'"
    by (intro message_received_runs) (simp_all add: ready_def)
  moreover have "ready ?s'" "same_client s ?s'" "pending ?s' = rest" "filesystem ?s' = files"
    "sent_log ?s' = sent_log s @ [http_serialise a]"
    using s(1) m(2) assms(4) by (simp_all add: ready_def same_client_def pending_def after_read_def
        http_reply_to_def sendMessage_def receiveMessage_def)
  moreover have "ftp_apart s ?s'"
    by (simp add: ftp_apart_def ftp_untouched_def data_tasks_def after_read_def http_reply_to_def
        sendMessage_def receiveMessage_def)
  ultimately show thesis using that by blast
qed

lemma after_read_client [simp]:
  "filesystem (after_read s b rx) = filesystem s"
  "let_in hs scheme user (after_read s b rx) = let_in hs scheme user s"
  by (simp_all add: after_read_def let_in_def)

lemma get_run:
  assumes s: "ready s" "pending s = request_head ''GET'' uri version hs @ rest"
    and r: "plain_request ''GET'' uri version hs" "let_in hs scheme user s"
  obtains s' where "run_events (MessageReceived env # es) s = run_events es s'"
    "ready s'" "same_client s s'" "pending s' = rest" "filesystem s' = filesystem s"
    "sent_log s' = sent_log s @ [http_serialise (get_answer (filesystem s) uri)]"
    "ftp_apart s s'"
proof (rule one_answer_run [OF s r(1), of "filesystem s" "get_answer (filesystem s) uri" env es])
  show "answerHttp (request_head ''GET'' uri version hs) (after_read s b rx) = Inr (receiveMessage
      (http_reply_to (get_answer (filesystem s) uri) ((after_read s b rx)\<lparr>filesystem := filesystem s\<rparr>)))" for b rx
    using r(2) answer_get [OF r(1), of scheme user "after_read s b rx"]
    by (simp add: after_read_def let_in_def)
qed (use s(1) that in \<open>simp_all add: ready_def\<close>)

lemma delete_run:
  assumes s: "ready s" "pending s = request_head ''DELETE'' uri version hs @ rest"
    and r: "plain_request ''DELETE'' uri version hs" "let_in hs scheme user s"
  obtains s' where "run_events (MessageReceived env # es) s = run_events es s'"
    "ready s'" "same_client s s'" "pending s' = rest" "filesystem s' = snd (fs_remove (filesystem s) uri)"
    "sent_log s' = sent_log s @ [http_serialise (delete_answer (filesystem s) uri)]"
    "ftp_apart s s'"
proof (rule one_answer_run [OF s r(1), of "snd (fs_remove (filesystem s) uri)" "delete_answer (filesystem s) uri" env es])
  have "fs_inv (filesystem s)" using s(1) by (simp add: ready_def)
  then show "fs_inv (snd (fs_remove (filesystem s) uri))" by (rule memfs.remove_inv)
  show "answerHttp (request_head ''DELETE'' uri version hs) (after_read s b rx) = Inr (receiveMessage
      (http_reply_to (delete_answer (filesystem s) uri)
        ((after_read s b rx)\<lparr>filesystem := snd (fs_remove (filesystem s) uri)\<rparr>)))" for b rx
    using s(1) r(2) answer_delete [OF r(1), of scheme user "after_read s b rx"] by (simp add: ready_def)
qed (use that in blast)

section \<open>Requests that are not answered\<close>

lemma read_until_none:
  "search d (buf @ concat xs) 0 = None \<Longrightarrow> read_until d buf xs = None"
proof (induction d buf xs rule: read_until.induct)
  case (1 d buf)
  then show ?case by simp
next
  case (2 d buf x xs)
  have "search d buf 0 = None"
  proof (rule ccontr)
    assume "search d buf 0 \<noteq> None"
    then obtain k where "search d buf 0 = Some k" by blast
    with search_append [of d buf 0 k "concat (x # xs)"] "2.prems" show False by simp
  qed
  with 2 show ?case by simp
qed

lemma receive_unfinished:
  assumes "pending s = line @ crlf @ rest" "no_cr line" "occurs ''HTTP'' line"
    and "\<not> occurs (crlf @ crlf) rest"
  shows "message_received env s = Inl (if socket_eof s then Terminate System_Error else Would_Block)"
proof -
  have "search crlf (input_stream s @ concat (socket_rx s)) 0 = Some (length line)"
    using assms(1) search_line_no_cr [OF assms(2)] by (simp add: pending_def)
  then obtain buf rx where r: "read_until crlf (input_stream s) (socket_rx s)
        = Some (length line + 2, buf, rx)"
      "take (length line + 2) buf = line @ crlf" "drop (length line + 2) buf @ concat rx = rest"
    using assms(1) by (elim read_until_first) (simp add: pending_def [symmetric] crlf_def)
  have "detectProtocol (line @ crlf) = Inr Http"
    using detectProtocol_line [of line "[]"] assms(2,3) by (simp add: no_cr_no_crlf)
  moreover have "read_until (crlf @ crlf) (drop (length line + 2) buf) rx = None"
    using assms(4) r(3) by (intro read_until_none) (simp add: occurs_def)
  ultimately show ?thesis using r by (simp add: message_received_def handleHttp_def)
qed

text \<open>
  The body of a PUT request that came in one piece with the head: the reading of the head took
  it into the stream buffer, where the reading of the body does not look.
\<close>

lemma put_read_ahead:
  assumes "input_stream s = []" "socket_rx s = [request_head ''PUT'' path version hs @ body]"
    and r: "plain_request ''PUT'' path version hs" "let_in hs scheme user s"
  obtains s' where "message_received env s = Inr s'" "input_stream s' = body" "socket_rx s' = []"
    "body_reads s' = body_reads s @ [(size_of_request hs, path)]"
proof -
  have p: "pending s = request_head ''PUT'' path version hs @ body"
    using assms(1,2) by (simp add: pending_def)
  obtain b rx where m: "message_received env s = answerHttp (request_head ''PUT'' path version hs) (after_read s b rx)"
      "b @ concat rx = body" "input_stream s = [] \<longrightarrow> length rx < length (socket_rx s)"
    using receive_head [OF p, where env = env] r(1) by (auto simp: plain_request_def)
  have "let_in hs scheme user (after_read s b rx)"
    using r(2) by (simp add: let_in_def after_read_def)
  note a = answer_put [OF r(1) this]
  have "rx = []" using m(3) assms(1,2) by simp
  with m a that show thesis by (auto simp: after_read_def http_reply_to_def sendMessage_def split: if_splits)
qed

text \<open>A size below zero: as a \<^verbatim>\<open>std::size_t\<close> it is larger than any string may be.\<close>

lemma negative_size_unat:
  assumes "- (2 ^ 31) \<le> v" "v < 0"
  shows "string_max_size < unat (word_of_int v :: 64 word)"
proof -
  have "v mod 2 ^ 64 = (v + 2 ^ 64) mod 2 ^ 64" by simp
  also have "\<dots> = v + 2 ^ 64" using assms by (intro mod_pos_pos_trivial) simp_all
  finally have "uint (word_of_int v :: 64 word) = v + 2 ^ 64" by (simp add: uint_word_of_int)
  then have "int string_max_size < uint (word_of_int v :: 64 word)"
    using assms(1) by (simp add: string_max_size_def)
  then show ?thesis by (simp only: uint_nat of_nat_less_iff)
qed

lemma answer_put_negative:
  assumes "wf_word uri" "wf_word version" "list_all wf_request_header hs" "says_size hs v" "v < 0"
    and "let_in hs scheme user s"
  shows "answerHttp (request_head ''PUT'' uri version hs) s = Inl (Terminate Length_Error)"
proof -
  have "wf_word ''PUT''" "kMethodMap ''PUT'' = Some Put"
    by (simp_all add: wf_word_def kMethodMap_def)
  then obtain p where p: "parse_http (request_head ''PUT'' uri version hs) = Inr p" "http_valid p"
      "http_method p = Put" "view_chars (header_fields p) = fields_of hs" "resource_size p = word_of_int v"
    using parse_http_request_size assms(1-4) by blast
  have "- (2 ^ 31) \<le> v" using assms(4,5) by (auto simp: says_size_def split: option.splits)
  then have "string_max_size < unat (resource_size p)"
    using negative_size_unat assms(5) p(5) by simp
  moreover have "authHttpUser p s = Inr True" using let_in_auth [OF assms(6) p(4)] .
  ultimately show ?thesis
    using p by (simp add: answerHttp_def http_handlers_def handleHttpPut_def Let_def)
qed

section \<open>Properties\<close>

text \<open>Requests and sessions to try the properties on.\<close>

definition put_headers :: "request_header list" where
  "put_headers = [(''Content-Length'', 1, ''5''), (''Authorization'', 1, ''Basic Tm9yZDpWUE4='')]"

definition get_headers :: "request_header list" where
  "get_headers = [(''Authorization'', 1, ''Basic Tm9yZDpWUE4='')]"

definition bad_headers :: "request_header list" where
  "bad_headers = [(''Authorization'', 1, ''Basic Tm9yZDp4'')]"

definition plain_headers :: "request_header list" where
  "plain_headers = [(''Accept'', 1, ''*/*'')]"

definition nord :: User where
  "nord = \<lparr>username = ''Nord'', password = ''VPN''\<rparr>"

definition http_session :: "string list \<Rightarrow> session" where
  "http_session rx = sample_session\<lparr>receives := 1, socket_rx := rx\<rparr>"

lemma sample_fields:
  "fields_of put_headers kContentLengthKey = Some ''5''"
  "fields_of get_headers kContentLengthKey = None"
  "fields_of bad_headers kContentLengthKey = None"
  "fields_of plain_headers kContentLengthKey = None"
  "fields_of plain_headers kAuthenticationKey = None"
  "fields_of put_headers kAuthenticationKey = Some (basic_credentials ''Basic'' ''Nord'' ''VPN'')"
  "fields_of get_headers kAuthenticationKey = Some (basic_credentials ''Basic'' ''Nord'' ''VPN'')"
  "fields_of bad_headers kAuthenticationKey = Some (basic_credentials ''Basic'' ''Nord'' ''x'')"
  by code_simp+

lemma sample_plain:
  "list_all plain_header put_headers" "list_all plain_header get_headers"
  "list_all plain_header bad_headers" "list_all plain_header plain_headers" "occurs ''HTTP'' ''HTTP/1.1''"
  by code_simp+

lemma sample_requests:
  "plain_request ''PUT'' ''/a'' ''HTTP/1.1'' put_headers"
  "plain_request ''GET'' ''/a'' ''HTTP/1.1'' get_headers"
  "plain_request ''GET'' ''/a'' ''HTTP/1.1'' bad_headers"
  "plain_request ''DELETE'' ''/a'' ''HTTP/1.1'' plain_headers"
  "plain_request ''DELETE'' ''/a'' ''HTTP/1.1'' get_headers"
proof -
  have "read_dec ''5'' = 5" "to_string 5 = ''5''" by code_simp+
  then have "size_field_ok put_headers" "size_field_ok get_headers" "size_field_ok bad_headers"
      "size_field_ok plain_headers"
    by (simp_all add: size_field_ok_def sample_fields)
  moreover have "put_headers \<noteq> []" "get_headers \<noteq> []" "bad_headers \<noteq> []" "plain_headers \<noteq> []"
    by (simp_all add: put_headers_def get_headers_def bad_headers_def plain_headers_def)
  ultimately show
    "plain_request ''PUT'' ''/a'' ''HTTP/1.1'' put_headers"
    "plain_request ''GET'' ''/a'' ''HTTP/1.1'' get_headers"
    "plain_request ''GET'' ''/a'' ''HTTP/1.1'' bad_headers"
    "plain_request ''DELETE'' ''/a'' ''HTTP/1.1'' plain_headers"
    "plain_request ''DELETE'' ''/a'' ''HTTP/1.1'' get_headers"
    using sample_plain by (simp_all add: plain_request_def wf_word_def)
qed

lemma sample_presents:
  "presents put_headers ''Basic'' nord" "presents get_headers ''Basic'' nord"
  "presents bad_headers ''Basic'' \<lparr>username = ''Nord'', password = ''x''\<rparr>"
  by (simp_all add: presents_def sample_fields nord_def)

lemma sample_verifies:
  "db_verify (user_database (http_session rx)) nord"
  "\<not> db_verify (user_database (http_session rx)) \<lparr>username = ''Nord'', password = ''x''\<rparr>"
  by (simp_all add: http_session_def sample_session_def new_session_def sample_users_def nord_def
      db_verify_iff requirePassword_def kUsersWithoutPassword_def)

lemma sample_let_in:
  "let_in put_headers ''Basic'' nord (http_session rx)" "let_in get_headers ''Basic'' nord (http_session rx)"
  using sample_presents sample_verifies by (simp_all add: let_in_def)

lemma sample_ready: "ready (http_session rx)"
  by (simp add: ready_def http_session_def sample_session_def new_session_def)

lemma sample_pending: "pending (http_session rx) = concat rx"
  by (simp add: pending_def http_session_def sample_session_def new_session_def)

text \<open>A request with credentials the database does not accept.\<close>

lemma receive_refused:
  assumes "plain_request m uri version hs" "kMethodMap m = Some meth"
    and "authenticate s" "presents hs scheme user" "\<not> db_verify (user_database s) user"
    and "pending s = request_head m uri version hs @ rest"
  obtains b rx where "message_received env s = Inr (http_reply_to unauthorised (after_read s b rx))"
    "b @ concat rx = rest"
proof -
  obtain b rx where "message_received env s = answerHttp (request_head m uri version hs) (after_read s b rx)"
      "b @ concat rx = rest"
    using receive_head [OF assms(6), where env = env] assms(1) by (auto simp: plain_request_def)
  moreover have "answerHttp (request_head m uri version hs) (after_read s b rx)
      = Inr (http_reply_to unauthorised (after_read s b rx))"
    using assms by (intro answer_refused) (simp_all add: after_read_def)
  ultimately show thesis using that by simp
qed

text \<open>A session that does nothing but wait for its client's next message.\<close>

definition quiet :: "session \<Rightarrow> bool" where
  "quiet s \<longleftrightarrow> receives s = 1 \<and> unused (s\<lparr>receives := 0\<rparr>) \<and> output_queue s = [] \<and> \<not> control_closed s"

lemma react_destroyed:
  assumes "unused s"
  shows "react e (destroy s) = None"
proof -
  have "unused (destroy s)" "control_closed (destroy s)" "socket_eof (destroy s)"
    using assms by (auto simp: unused_def destroy_def closeSocket_def closeFtpDataSocket_def
        close_socket_def split: option.splits)
  then show ?thesis by (cases e) (simp_all add: unused_def)
qed

text \<open>An answer that no further read follows is the last thing a quiet session does.\<close>

lemma last_answer_run:
  assumes "quiet s" "message_received env s = Inr (http_reply_to r (after_read s b rx))"
  obtains s' where "run_events [MessageReceived env, RunTask, MessageWritten (http_serialise r) True, Destroyed] s
      = Some (Inr s')"
    "wire s' = wire s @ [http_serialise r]" "control_closed s'" "logged_in_user s' = logged_in_user s"
    "filesystem s' = filesystem s" "\<And>e. react e s' = None"
proof -
  let ?m = "http_serialise r"
  let ?s1 = "(after_read s b rx)\<lparr>sent_log := sent_log s @ [?m], serializer := [], writes := [],
      output_queue := [], wire := wire s @ [?m]\<rparr>"
  have q: "receives s = 1" "serializer s = []" "output_queue s = []" "writes s = []" "\<not> control_closed s"
      "unused ?s1"
    using assms(1) by (auto simp: quiet_def unused_def after_read_def)
  have "run_events [MessageReceived env, RunTask, MessageWritten ?m True, Destroyed] s
      = run_events [RunTask, MessageWritten ?m True, Destroyed] (http_reply_to r (after_read s b rx))"
    using assms(2) q(1) by (intro message_received_runs) simp_all
  also have "\<dots> = run_events [Destroyed] ?s1"
    using q by (simp add: http_reply_to_def sendMessage_def enqueue_message_def sendMessageHandler_def
        message_written_def after_read_def)
  also have "\<dots> = Some (Inr (destroy ?s1))"
    using q by (simp add: after_read_def)
  finally show thesis
    using react_destroyed [OF q(6)]
    by (intro that [of "destroy ?s1"])
      (auto simp: destroy_def closeSocket_def closeFtpDataSocket_def close_socket_def after_read_def split: option.splits)
qed

text \<open>
  C17. A client that presents credentials the database does not accept is answered 401, and that
  is all it gets: no other request is read, the session ends and closes the connection once the
  answer is written, nothing can happen to it any more, and the store is as before.
\<close>

theorem refused_client_disconnected:
  assumes "plain_request m uri version hs" "kMethodMap m = Some meth"
    and "authenticate s" "presents hs scheme user" "\<not> db_verify (user_database s) user"
    and "pending s = request_head m uri version hs @ rest" "quiet s"
  shows "\<exists>s'. run_events [MessageReceived env, RunTask, MessageWritten (http_serialise unauthorised) True, Destroyed] s
      = Some (Inr s')
    \<and> wire s' = wire s @ [http_serialise unauthorised] \<and> control_closed s'
    \<and> logged_in_user s' = logged_in_user s \<and> filesystem s' = filesystem s \<and> (\<forall>e. react e s' = None)"
proof -
  obtain b rx where m: "message_received env s = Inr (http_reply_to unauthorised (after_read s b rx))"
    by (rule receive_refused [OF assms(1-6), where env = env])
  show ?thesis by (rule last_answer_run [OF assms(7) m]) blast
qed

lemma refused_client_disconnected_witness:
  "\<exists>s'. run_events [MessageReceived sample_env, RunTask, MessageWritten (http_serialise unauthorised) True, Destroyed]
      (http_session [request_head ''GET'' ''/a'' ''HTTP/1.1'' bad_headers, ''x'']) = Some (Inr s')
    \<and> wire s' = [http_serialise unauthorised] \<and> control_closed s'"
proof -
  let ?s = "http_session [request_head ''GET'' ''/a'' ''HTTP/1.1'' bad_headers, ''x'']"
  have "kMethodMap ''GET'' = Some Get" by (simp add: kMethodMap_def)
  moreover have "authenticate ?s" "quiet ?s" "wire ?s = []"
    by (simp_all add: http_session_def sample_session_def new_session_def quiet_def unused_def)
  moreover have "pending ?s = request_head ''GET'' ''/a'' ''HTTP/1.1'' bad_headers @ ''x''"
    by (simp add: sample_pending)
  ultimately show ?thesis
    using refused_client_disconnected [OF sample_requests(3) _ _ sample_presents(3) sample_verifies(2),
        where env = sample_env] by (metis append_Nil)
qed

text \<open>
  C32. A request with a method that is not in the table is answered 400, before anybody asks for
  credentials, and that is all the client gets: the session ends and closes the connection once
  the answer is written, and the store is as before.
\<close>

theorem unknown_method_disconnected:
  assumes "wf_word m" "wf_word uri" "wf_word version" "occurs ''HTTP'' version" "kMethodMap m = None"
    and "hs \<noteq> []" "list_all plain_header hs"
    and "pending s = request_head m uri version hs @ rest" "quiet s"
  shows "\<exists>s'. run_events [MessageReceived env, RunTask,
        MessageWritten (http_serialise (HttpResponse_status BadRequest)) True, Destroyed] s = Some (Inr s')
    \<and> wire s' = wire s @ [http_serialise (HttpResponse_status BadRequest)] \<and> control_closed s'
    \<and> filesystem s' = filesystem s \<and> (\<forall>e. react e s' = None)"
proof -
  obtain b rx where "message_received env s = answerHttp (request_head m uri version hs) (after_read s b rx)"
    using receive_head [OF assms(8,6,7,1-4), where env = env] by blast
  moreover have "parse_http (request_head m uri version hs) = Inr invalid_request"
    using parse_http_unknown [OF assms(1-3,5)] by (simp add: request_head_def)
  ultimately have m: "message_received env s
      = Inr (http_reply_to (HttpResponse_status BadRequest) (after_read s b rx))"
    by (simp add: answerHttp_def invalid_request_def)
  show ?thesis by (rule last_answer_run [OF assms(9) m]) blast
qed

lemma unknown_method_disconnected_witness:
  "\<exists>s'. run_events [MessageReceived sample_env, RunTask,
        MessageWritten (http_serialise (HttpResponse_status BadRequest)) True, Destroyed]
      (http_session [request_head ''POST'' ''/a'' ''HTTP/1.1'' plain_headers]) = Some (Inr s')
    \<and> wire s' = [http_serialise (HttpResponse_status BadRequest)] \<and> control_closed s'"
proof -
  let ?s = "http_session [request_head ''POST'' ''/a'' ''HTTP/1.1'' plain_headers]"
  have w: "wf_word ''POST''" "wf_word ''/a''" "wf_word ''HTTP/1.1''" by (simp_all add: wf_word_def)
  have m: "kMethodMap ''POST'' = None" "plain_headers \<noteq> []" by (simp_all add: kMethodMap_def plain_headers_def)
  have s: "pending ?s = request_head ''POST'' ''/a'' ''HTTP/1.1'' plain_headers @ []" "quiet ?s" "wire ?s = []"
    by (simp add: sample_pending)
      (simp_all add: http_session_def sample_session_def new_session_def quiet_def unused_def)
  from unknown_method_disconnected [OF w sample_plain(5) m(1,2) sample_plain(4) s(1,2), where env = sample_env] s(3)
  show ?thesis by (metis append_Nil)
qed

text \<open>
  C38. A PUT request whose \<open>Content-Length\<close> is below zero ends the process: the size becomes a
  number no string can have, and the exception of \<^verbatim>\<open>resize\<close> leaves a \<^verbatim>\<open>noexcept\<close> function.
\<close>

theorem put_negative_size:
  assumes "wf_word uri" "wf_word version" "occurs ''HTTP'' version"
    and "hs \<noteq> []" "list_all plain_header hs" "says_size hs v" "v < 0"
    and "let_in hs scheme user s" and "pending s = request_head ''PUT'' uri version hs @ rest"
  shows "message_received env s = Inl (Terminate Length_Error)"
proof -
  have "wf_word ''PUT''" by (simp add: wf_word_def)
  then obtain b rx where "message_received env s
      = answerHttp (request_head ''PUT'' uri version hs) (after_read s b rx)"
    using receive_head [OF assms(9) assms(4,5) _ assms(1-3), where env = env] by blast
  moreover have "list_all wf_request_header hs"
    using assms(5) by (simp add: plain_header_def list_all_iff)
  then have "answerHttp (request_head ''PUT'' uri version hs) (after_read s b rx)
      = Inl (Terminate Length_Error)"
    using assms(1,2,6-8) by (intro answer_put_negative) (simp_all add: let_in_def after_read_def)
  ultimately show ?thesis by simp
qed

lemma put_negative_size_witness:
  "message_received sample_env ((http_session [request_head ''PUT'' ''/a'' ''HTTP/1.1''
      [(''Content-Length'', 1, ''-1'')]])\<lparr>authenticate := False\<rparr>) = Inl (Terminate Length_Error)"
proof (rule put_negative_size [where v = "-1" and hs = "[(''Content-Length'', 1, ''-1'')]"])
  have "fields_of [(''Content-Length'', 1, ''-1'')] kContentLengthKey = Some ''-1''"
    "int_text (-1) = ''-1''" by code_simp+
  then show "says_size [(''Content-Length'', 1, ''-1'')] (-1)" by (simp add: says_size_def)
  show "list_all plain_header [(''Content-Length'', 1, ''-1'')]" by code_simp
  show "occurs ''HTTP'' ''HTTP/1.1''" by (rule sample_plain)
  show "let_in [(''Content-Length'', 1, ''-1'')] [] nord ((http_session [request_head ''PUT'' ''/a'' ''HTTP/1.1''
      [(''Content-Length'', 1, ''-1'')]])\<lparr>authenticate := False\<rparr>)"
    by (simp add: let_in_def)
  show "pending ((http_session [request_head ''PUT'' ''/a'' ''HTTP/1.1'' [(''Content-Length'', 1, ''-1'')]])
      \<lparr>authenticate := False\<rparr>) = request_head ''PUT'' ''/a'' ''HTTP/1.1'' [(''Content-Length'', 1, ''-1'')] @ []"
    by (simp add: pending_def http_session_def sample_session_def new_session_def)
qed (simp_all add: wf_word_def)

definition full_session :: "string list \<Rightarrow> session" where
  "full_session rx = (http_session rx)\<lparr>filesystem := full_store\<rparr>"

lemma full_session_simps:
  "ready (full_session rx)" "pending (full_session rx) = concat rx"
  "let_in get_headers ''Basic'' nord (full_session rx)"
  "fs_map (filesystem (full_session rx)) ''/a'' = Some ''old''"
  using sample_ready sample_let_in(2) [of rx] sample_pending
  by (simp_all add: full_session_def ready_def pending_def let_in_def full_store_def fs_inv_def fs_map_def)

text \<open>
  C35. A request head with no empty line behind its first line is never refused: the session
  waits for the empty line in a blocking call, and if the connection ends first the process
  ends. A request line with an empty line right behind it (no header fields at all) is such a
  head, and so is any FTP command with \<open>HTTP\<close> in its argument.
\<close>

theorem unfinished_head:
  assumes "pending s = line @ crlf @ rest" "no_cr line" "occurs ''HTTP'' line"
    and "\<not> occurs (crlf @ crlf) rest"
  shows "message_received env s = Inl (if socket_eof s then Terminate System_Error else Would_Block)"
  using assms by (rule receive_unfinished)

lemma unfinished_head_witness:
  "message_received sample_env (http_session [''GET / HTTP/1.1'' @ crlf @ crlf])
     = Inl (if socket_eof (http_session [''GET / HTTP/1.1'' @ crlf @ crlf])
            then Terminate System_Error else Would_Block)"
proof (rule unfinished_head)
  show "pending (http_session [''GET / HTTP/1.1'' @ crlf @ crlf]) = ''GET / HTTP/1.1'' @ crlf @ crlf"
    by (simp add: sample_pending)
  show "occurs ''HTTP'' ''GET / HTTP/1.1''" "\<not> occurs (crlf @ crlf) crlf" by code_simp+
qed simp

text \<open>
  C31. When the body of a PUT request comes in one piece with its head, the body is lost: it
  stays behind in the stream buffer, and the read of the body cannot end before as many bytes
  again have come.
\<close>

theorem put_body_read_ahead_lost:
  assumes "input_stream s = []" "socket_rx s = [request_head ''PUT'' path version hs @ body]"
    and "plain_request ''PUT'' path version hs" "let_in hs scheme user s"
    and "size_of_request hs = length body" "body \<noteq> []"
  shows "\<exists>s'. message_received env s = Inr s' \<and> input_stream s' = body
    \<and> body_reads s' = body_reads s @ [(length body, path)]
    \<and> (\<forall>xs. length (concat xs) < length body \<longrightarrow>
         react (BodyRead (length body, path)) (s'\<lparr>socket_rx := socket_rx s' @ xs\<rparr>) = None)"
proof -
  obtain s' where s': "message_received env s = Inr s'" "input_stream s' = body" "socket_rx s' = []"
      "body_reads s' = body_reads s @ [(size_of_request hs, path)]"
    using assms(1-4) by (rule put_read_ahead [where env = env])
  have "react (BodyRead (length body, path)) (s'\<lparr>socket_rx := xs\<rparr>) = None"
    if "length (concat xs) < length body" for xs
    using that by (simp add: read_exactly_None)
  with s' assms(5) show ?thesis by auto
qed

lemma put_body_read_ahead_lost_witness:
  "\<exists>s'. message_received sample_env (http_session [request_head ''PUT'' ''/a'' ''HTTP/1.1'' put_headers @ ''hello'']) = Inr s'
    \<and> input_stream s' = ''hello''
    \<and> body_reads s' = body_reads (http_session [request_head ''PUT'' ''/a'' ''HTTP/1.1'' put_headers @ ''hello''])
        @ [(length ''hello'', ''/a'')]
    \<and> react (BodyRead (length ''hello'', ''/a'')) (s'\<lparr>socket_rx := socket_rx s' @ [''he'', ''ll'']\<rparr>) = None"
proof -
  let ?s = "http_session [request_head ''PUT'' ''/a'' ''HTTP/1.1'' put_headers @ ''hello'']"
  have "read_dec ''5'' = 5" by code_simp
  then have n: "size_of_request put_headers = length ''hello''"
    by (simp add: size_of_request_def sample_fields)
  have s: "input_stream ?s = []" "socket_rx ?s = [request_head ''PUT'' ''/a'' ''HTTP/1.1'' put_headers @ ''hello'']"
    by (simp_all add: http_session_def sample_session_def new_session_def)
  have "''hello'' \<noteq> []" "length (concat [''he'', ''ll'']) < length ''hello''" by simp_all
  with put_body_read_ahead_lost [OF s sample_requests(1) sample_let_in(1) n, where env = sample_env]
  show ?thesis by blast
qed

text \<open>A read that fails again and again.\<close>

fun spin :: "nat \<Rightarrow> event list" where
  "spin 0 = []"
| "spin (Suc n) = ReceiveFailed # spin n"

text \<open>
  C39. Once the client has closed its side and no line end is left to read, the session does
  not stop: every time its read fails it starts the next one, which fails again.
\<close>

theorem closed_connection_spins:
  assumes "0 < receives s" "\<not> occurs crlf (pending s)"
  shows "\<exists>s'. run_events (spin n) s = Some (Inr s') \<and> 0 < receives s' \<and> pending s' = pending s
    \<and> length (ftp_data_serializer s') = length (ftp_data_serializer s) + n"
  using assms
proof (induction n arbitrary: s)
  case 0
  then show ?case by simp
next
  case (Suc n)
  have "read_until crlf (input_stream s) (socket_rx s) = None"
    using Suc.prems(2) by (intro read_until_none) (simp add: occurs_def pending_def)
  with Suc.prems(1) have "run_events (spin (Suc n)) s = run_events (spin n) (receive_failed s)" by simp
  moreover have "0 < receives (receive_failed s)" "pending (receive_failed s) = pending s"
    "length (ftp_data_serializer (receive_failed s)) = Suc (length (ftp_data_serializer s))"
    by (simp_all add: completion_defs pending_def)
  ultimately show ?case using Suc.IH [of "receive_failed s"] Suc.prems(2) by auto
qed

lemma closed_connection_spins_witness:
  "\<exists>s'. run_events (spin 1000) ((http_session [])\<lparr>socket_eof := True\<rparr>) = Some (Inr s') \<and> 0 < receives s'
    \<and> pending s' = pending ((http_session [])\<lparr>socket_eof := True\<rparr>)
    \<and> length (ftp_data_serializer s') = length (ftp_data_serializer ((http_session [])\<lparr>socket_eof := True\<rparr>)) + 1000"
  by (rule closed_connection_spins)
    (simp_all add: http_session_def sample_session_def new_session_def pending_def)

end
