(* ===== verification/Ftp_Transfer.thy ===== *)
theory Ftp_Transfer
  imports Session_Transfer
begin

text \<open>
  Downloads and uploads over FTP: what RETR and STOR start, what the data connection carries
  and what is stored in the end; and the address a client reads out of the answer to PASV.
\<close>

section \<open>The data connection of a download\<close>

definition data_idle :: "session \<Rightarrow> bool" where
  "data_idle s \<longleftrightarrow> ftp_data_serializer s = [] \<and> ftp_data_buffer s = [] \<and> data_writes s = []"

definition ftp_message :: "FtpReplyCode \<Rightarrow> string \<Rightarrow> string" where
  "ftp_message code text = ftp_serialise (FtpResponse2 code text)"

text \<open>The control connection and what the session knows of its client.\<close>

definition same_control :: "session \<Rightarrow> session \<Rightarrow> bool" where
  "same_control s s' \<longleftrightarrow>
     receives s' = receives s \<and> body_reads s' = body_reads s \<and> socket_eof s' = socket_eof s
     \<and> pending s' = pending s \<and> same_client s s' \<and> logged_in_user s' = logged_in_user s
     \<and> current_working_dir s' = current_working_dir s \<and> local_address s' = local_address s"

lemma save_file_control: "same_control s (save_file f p s)"
  by (auto simp: same_control_def same_client_def pending_def completion_defs case_prod_beta
      split: option.splits Status.splits)

text \<open>
  The client connects, the file and the mark are queued, the file is written, the mark closes
  the connection.
\<close>

definition download_events :: "pending_accept \<Rightarrow> nat \<Rightarrow> File \<Rightarrow> event list" where
  "download_events a k f =
     [AcceptDone a None, RunDataTask, RunDataTask, RunDataTask, DataWritten (k, f) True, RunDataTask]"

lemma download_run:
  assumes "data_idle s" "a \<in> set (accepts s)" "can_succeed a" "on_accept a = SendOnAccept k f"
  obtains s' where "run_events (download_events a k f @ es) s = run_events es s'"
    "data_idle s'" "data_wire s' = data_wire s @ [(k, f)]" "k \<in> set (closed_sockets s')"
    "sent_log s' = sent_log s @ [ftp_message CLOSING_DATA_CONNECTION ''Done'']"
    "filesystem s' = filesystem s" "same_control s s'"
  using assms that
  by (simp add: download_events_def data_idle_def completion_defs ftp_message_def
      same_control_def same_client_def pending_def)

text \<open>A write that fails: the client went away. The queue keeps the mark, and is stuck.\<close>

definition broken_download_events :: "pending_accept \<Rightarrow> nat \<Rightarrow> File \<Rightarrow> event list" where
  "broken_download_events a k f =
     [AcceptDone a None, RunDataTask, RunDataTask, RunDataTask, DataWritten (k, f) False]"

lemma broken_download_run:
  assumes "data_idle s" "a \<in> set (accepts s)" "can_succeed a" "on_accept a = SendOnAccept k f"
  obtains s' where "run_events (broken_download_events a k f) s = Some (Inr s')"
    "data_stuck s'" "data_wire s' = data_wire s"
  using assms that
  by (simp add: broken_download_events_def data_idle_def completion_defs data_stuck_def triggers_def)

section \<open>The data connection of an upload\<close>

fun upload_events :: "pending_read \<Rightarrow> string list \<Rightarrow> string \<Rightarrow> event list" where
  "upload_events r [] last_chunk = [FileRead r last_chunk True, RunDataTask]"
| "upload_events r (c # cs) last_chunk =
     FileRead r c False # upload_events (r\<lparr>read_file := read_file r @ c\<rparr>) cs last_chunk"

definition stor_message :: "MemoryFs \<Rightarrow> string \<Rightarrow> string" where
  "stor_message m path =
     (if fs_map m path = None then ftp_message CLOSING_DATA_CONNECTION ''File saved''
      else ftp_message FILE_ACTION_NOT_TAKEN ''File not saved'')"

lemma stor_message_sent:
  "fs_inv (filesystem s) \<Longrightarrow>
     sent_log (save_file f path s) = sent_log s @ [stor_message (filesystem s) path]"
  using memfs.add_status [of "filesystem s" path f]
  by (auto simp: completion_defs stor_message_def ftp_message_def case_prod_beta domIff
      split: option.splits)

text \<open>
  Full buffers, then what is left when the connection ends: the file stored is what was sent,
  byte for byte.
\<close>

lemma upload_run:
  assumes "ftp_data_serializer s = []" "r \<in> set (file_reads s)" "fs_inv (filesystem s)"
    and "\<forall>c \<in> set cs. length c = receive_buffer_size" "length last_chunk \<le> receive_buffer_size"
  obtains s' where "run_events (upload_events r cs last_chunk @ es) s = run_events es s'"
    "data_tasks [] s s'" "same_control s s'"
    "filesystem s' = snd (fs_add (filesystem s) (read_path r) (read_file r @ concat cs @ last_chunk))"
    "sent_log s' = sent_log s @ [stor_message (filesystem s) (read_path r)]"
  using assms
proof (induction cs arbitrary: r s thesis)
  case Nil
  let ?f = "read_file r @ last_chunk"
  let ?s1 = "s\<lparr>file_reads := remove1 r (file_reads s), ftp_data_serializer := []\<rparr>"
  have "run_events (upload_events r [] last_chunk @ es) s = run_events es (save_file ?f (read_path r) ?s1)"
    using Nil.prems by (auto simp: file_read_def saveFile_def post_data_task_def)
  moreover have "data_tasks [] s (save_file ?f (read_path r) ?s1)"
    using save_file_data [of ?s1 ?f "read_path r"] Nil.prems(2) by (simp add: data_tasks_def)
  moreover have "same_control s (save_file ?f (read_path r) ?s1)"
    using save_file_control [of ?s1] by (simp add: same_control_def same_client_def pending_def)
  ultimately show ?case
    using Nil.prems(1) [of "save_file ?f (read_path r) ?s1"] Nil.prems(4)
    by (simp add: save_file_files stor_message_sent)
next
  case (Cons c cs)
  let ?r = "r\<lparr>read_file := read_file r @ c\<rparr>"
  let ?s1 = "s\<lparr>file_reads := remove1 r (file_reads s) @ [?r]\<rparr>"
  have c: "length c = receive_buffer_size" "0 < length c"
    using Cons.prems(5) by (auto simp: receive_buffer_size_def)
  have f: "file_read r c False (s\<lparr>file_reads := remove1 r (file_reads s)\<rparr>) = ?s1"
    using c(2) by (simp add: file_read_def receiveFile_def)
  have "run_events (upload_events r (c # cs) last_chunk @ es) s
      = run_events (upload_events ?r cs last_chunk @ es) ?s1"
    using Cons.prems(3) c(1) f by simp
  moreover obtain s' where "run_events (upload_events ?r cs last_chunk @ es) ?s1 = run_events es s'"
      "data_tasks [] ?s1 s'" "same_control ?s1 s'"
      "filesystem s' = snd (fs_add (filesystem ?s1) (read_path ?r) (read_file ?r @ concat cs @ last_chunk))"
      "sent_log s' = sent_log ?s1 @ [stor_message (filesystem ?s1) (read_path ?r)]"
    by (rule Cons.IH [where r = ?r and s = ?s1]) (use Cons.prems in auto)
  ultimately show ?case using Cons.prems(1) [of s']
    by (simp add: same_control_def same_client_def pending_def data_tasks_def)
qed

section \<open>The commands\<close>

text \<open>An FTP command line: the command's name and one argument.\<close>

definition command_line :: "string \<Rightarrow> string \<Rightarrow> string" where
  "command_line name arg = name @ '' '' @ arg"

definition plain_argument :: "string \<Rightarrow> string \<Rightarrow> bool" where
  "plain_argument name arg \<longleftrightarrow>
     CHR '' '' \<notin> set arg \<and> no_cr arg \<and> \<not> occurs ''HTTP'' (command_line name arg)"

lemma parse_command_line:
  assumes "kCommandMap (toUpperCase name) = Some c" "CHR '' '' \<notin> set name" "CHR '' '' \<notin> set arg"
  obtains p where "parse_ftp (command_line name arg @ crlf) = Inr p" "ftp_valid p"
    "ftp_command p = c" "length (ftp_tokens p) = 2" "token p 1 = Inr arg"
proof -
  obtain ts where ts: "parse_ftp (join '' '' [name, arg] @ crlf)
        = Inr \<lparr>ftp_valid = True, ftp_command = c, ftp_tokens = ts\<rparr>" "map sv_chars ts = [name, arg]"
    using parse_ftp_words [of "[name, arg]" c] assms by auto
  then obtain t u where "ts = [t, u]" "sv_chars u = arg" by (auto simp: map_eq_Cons_conv)
  with ts(1) that show thesis by (simp add: command_line_def token_def)
qed

text \<open>The session state a command leaves behind, apart from the command's own changes.\<close>

definition answered :: "FtpCommand \<Rightarrow> string \<Rightarrow> session \<Rightarrow> session" where
  "answered c m s = receiveMessage ((sendMessage m s)\<lparr>last_ftp_command := c\<rparr>)"

definition logged_in :: "session \<Rightarrow> bool" where
  "logged_in s \<longleftrightarrow> logged_in_user s \<noteq> None"

lemma handleFtp_retr:
  assumes "CHR '' '' \<notin> set name" "logged_in s" "is_open (ftp_data_acceptor s)"
    and "fs_map (filesystem s) (current_working_dir s @ name) = Some f"
  shows "handleFtp env (command_line ''RETR'' name @ crlf) s
    = Inr (answered Retr (ftp_message FILE_STATUS_OK_OPENING_DATA_CONNECTION ''Sending file'')
        (accept_and_send f s))"
proof (rule parse_command_line [of "''RETR''" Retr name])
  fix p
  assume "parse_ftp (command_line ''RETR'' name @ crlf) = Inr p" "ftp_valid p" "ftp_command p = Retr"
    "length (ftp_tokens p) = 2" "token p 1 = Inr name"
  with assms show ?thesis
    by (auto simp: handleFtp_def ftp_handlers_def handleFtpRetr_def fs_get_def exists_def
        fs_map_def logged_in_def answered_def ftp_message_def ftp_reply_to_def
        accept_and_send_def make_socket_def async_accept_def sendMessage_def receiveMessage_def)
qed (simp_all add: kCommandMap_def toUpperCase_def toupper_def assms)

lemma handleFtp_retr_missing:
  assumes "CHR '' '' \<notin> set name" "logged_in s" "is_open (ftp_data_acceptor s)"
    and "fs_map (filesystem s) (current_working_dir s @ name) = None"
  shows "handleFtp env (command_line ''RETR'' name @ crlf) s
    = Inr (answered Retr (ftp_message ACTION_NOT_TAKEN ''File not found'') s)"
proof (rule parse_command_line [of "''RETR''" Retr name])
  fix p
  assume "parse_ftp (command_line ''RETR'' name @ crlf) = Inr p" "ftp_valid p" "ftp_command p = Retr"
    "length (ftp_tokens p) = 2" "token p 1 = Inr name"
  with assms show ?thesis
    by (auto simp: handleFtp_def ftp_handlers_def handleFtpRetr_def fs_get_def exists_def
        fs_map_def logged_in_def answered_def ftp_message_def ftp_reply_to_def)
qed (simp_all add: kCommandMap_def toUpperCase_def toupper_def assms)

lemma handleFtp_stor:
  assumes "CHR '' '' \<notin> set name" "logged_in s" "is_open (ftp_data_acceptor s)"
  shows "handleFtp env (command_line ''STOR'' name @ crlf) s
    = Inr (answered Stor (ftp_message FILE_STATUS_OK_OPENING_DATA_CONNECTION ''Ready to receive'')
        (acceptFile [] (current_working_dir s @ name) s))"
proof (rule parse_command_line [of "''STOR''" Stor name])
  fix p
  assume "parse_ftp (command_line ''STOR'' name @ crlf) = Inr p" "ftp_valid p" "ftp_command p = Stor"
    "length (ftp_tokens p) = 2" "token p 1 = Inr name"
  with assms show ?thesis
    by (auto simp: handleFtp_def ftp_handlers_def handleFtpStor_def logged_in_def answered_def
        ftp_message_def ftp_reply_to_def acceptFile_def make_socket_def async_accept_def
        sendMessage_def receiveMessage_def)
qed (simp_all add: kCommandMap_def toUpperCase_def toupper_def assms)

text \<open>DELE removes the path it is given, whatever the working directory is.\<close>

lemma handleFtp_dele:
  assumes "CHR '' '' \<notin> set name" "logged_in s" "fs_inv (filesystem s)"
  shows "handleFtp env (command_line ''DELE'' name @ crlf) s
    = Inr (answered Dele
        (if fs_map (filesystem s) name = None
         then ftp_message ACTION_NOT_TAKEN ''Unable to delete file''
         else ftp_message FILE_ACTION_COMPLETED ''File deleted'')
        (s\<lparr>filesystem := snd (fs_remove (filesystem s) name)\<rparr>))"
proof (rule parse_command_line [of "''DELE''" Dele name])
  fix p
  assume "parse_ftp (command_line ''DELE'' name @ crlf) = Inr p" "ftp_valid p" "ftp_command p = Dele"
    "length (ftp_tokens p) = 2" "token p 1 = Inr name"
  with assms memfs.remove_status [OF assms(3), of name] show ?thesis
    by (auto simp: handleFtp_def ftp_handlers_def handleFtpDele_def logged_in_def answered_def
        ftp_message_def ftp_reply_to_def case_prod_beta domIff)
qed (simp_all add: kCommandMap_def toUpperCase_def toupper_def assms)

text \<open>A command without an argument.\<close>

lemma parse_bare_command:
  assumes "kCommandMap (toUpperCase name) = Some c" "name \<noteq> []" "CHR '' '' \<notin> set name"
  obtains p where "parse_ftp (name @ crlf) = Inr p" "ftp_valid p" "ftp_command p = c" "length (ftp_tokens p) = 1"
proof -
  obtain ts where "parse_ftp (name @ crlf) = Inr \<lparr>ftp_valid = True, ftp_command = c, ftp_tokens = ts\<rparr>"
      "map sv_chars ts = [name]"
    using parse_ftp_words [of "[name]" c] assms by auto
  with that [of "\<lparr>ftp_valid = True, ftp_command = c, ftp_tokens = ts\<rparr>"] show thesis
    by (auto simp: map_eq_Cons_conv)
qed

text \<open>RETR and DELE read their argument without looking whether there is one.\<close>

lemma handleFtp_no_argument:
  assumes "logged_in s"
  shows "handleFtp env (''DELE'' @ crlf) s = Inl Undefined_Behaviour"
    and "is_open (ftp_data_acceptor s) \<Longrightarrow> handleFtp env (''RETR'' @ crlf) s = Inl Undefined_Behaviour"
proof -
  have token: "token p 1 = Inl Undefined_Behaviour" if "length (ftp_tokens p) = 1" for p
    using that by (simp add: token_def vector_at_def)
  show "handleFtp env (''DELE'' @ crlf) s = Inl Undefined_Behaviour"
  proof (rule parse_bare_command [of "''DELE''" Dele])
    fix p
    assume "parse_ftp (''DELE'' @ crlf) = Inr p" "ftp_valid p" "ftp_command p = Dele" "length (ftp_tokens p) = 1"
    with assms token show ?thesis
      by (auto simp: handleFtp_def ftp_handlers_def handleFtpDele_def logged_in_def)
  qed (simp_all add: kCommandMap_def toUpperCase_def toupper_def)
  assume open_acceptor: "is_open (ftp_data_acceptor s)"
  show "handleFtp env (''RETR'' @ crlf) s = Inl Undefined_Behaviour"
  proof (rule parse_bare_command [of "''RETR''" Retr])
    fix p
    assume "parse_ftp (''RETR'' @ crlf) = Inr p" "ftp_valid p" "ftp_command p = Retr" "length (ftp_tokens p) = 1"
    with assms token open_acceptor show ?thesis
      by (auto simp: handleFtp_def ftp_handlers_def handleFtpRetr_def logged_in_def)
  qed (simp_all add: kCommandMap_def toUpperCase_def toupper_def)
qed

section \<open>From command line to transfer\<close>

lemma line_received:
  assumes "ready s" "pending s = line @ crlf" "no_cr line" "\<not> occurs ''HTTP'' line"
    and "\<And>b rx. handleFtp env (line @ crlf) (after_read s b rx) = Inr (answered c m (F (after_read s b rx)))"
  obtains b rx where "run_events (MessageReceived env # es) s
      = run_events es (answered c m (F (after_read s b rx)))"
    "b @ concat rx = []"
proof -
  obtain b rx where "message_received env s = handleFtp env (line @ crlf) (after_read s b rx)" "b @ concat rx = []"
    using receive_line [of s line "[]" env] assms(2-4) by auto
  moreover have "0 < receives s" using assms(1) by (simp add: ready_def)
  ultimately show thesis using that assms(5) message_received_runs by metis
qed

lemma plain_command_line:
  assumes "no_cr name" "plain_argument name arg"
  shows "no_cr (command_line name arg)" "\<not> occurs ''HTTP'' (command_line name arg)"
  using assms by (simp_all add: command_line_def plain_argument_def)

lemma command_received:
  assumes "ready s" "pending s = command_line name arg @ crlf" "no_cr name" "plain_argument name arg"
    and "\<And>b rx. handleFtp env (command_line name arg @ crlf) (after_read s b rx)
        = Inr (answered c m (F (after_read s b rx)))"
  obtains b rx where "run_events (MessageReceived env # es) s
      = run_events es (answered c m (F (after_read s b rx)))"
    "b @ concat rx = []"
  by (rule line_received [OF assms(1,2) plain_command_line [OF assms(3,4)] assms(5)]) (rule that)

text \<open>The client's place: who and where it is, and the address it came to.\<close>

definition same_place :: "session \<Rightarrow> session \<Rightarrow> bool" where
  "same_place s s' \<longleftrightarrow>
     logged_in_user s' = logged_in_user s \<and> current_working_dir s' = current_working_dir s
     \<and> local_address s' = local_address s \<and> user_database s' = user_database s"

text \<open>A client that can transfer: logged in, passive mode entered, no transfer under way.\<close>

definition passive_mode :: "session \<Rightarrow> port \<Rightarrow> bool" where
  "passive_mode s p \<longleftrightarrow> ready s \<and> logged_in s \<and> ftp_data_acceptor s = Listening p \<and> data_idle s"

definition retr_events :: "acceptor_env \<Rightarrow> session \<Rightarrow> File \<Rightarrow> event list" where
  "retr_events env s f =
     MessageReceived env # download_events
       \<lparr>can_succeed = True, on_accept = SendOnAccept (next_socket s) f\<rparr> (next_socket s) f"

text \<open>RETR and LIST: one reply, the data over the data connection, the second reply.\<close>

lemma send_run:
  assumes s: "passive_mode s p" "pending s = line @ crlf" "no_cr line" "\<not> occurs ''HTTP'' line"
    and h: "\<And>b rx. handleFtp env (line @ crlf) (after_read s b rx)
        = Inr (answered c m (accept_and_send f (after_read s b rx)))"
  obtains s' where "run_events (retr_events env s f @ es) s = run_events es s'"
    "data_wire s' = data_wire s @ [(next_socket s, f)]" "next_socket s \<in> set (closed_sockets s')"
    "sent_log s' = sent_log s @ [m, ftp_message CLOSING_DATA_CONNECTION ''Done'']"
    "filesystem s' = filesystem s" "ready s'" "pending s' = []"
proof -
  let ?a = "\<lparr>can_succeed = True, on_accept = SendOnAccept (next_socket s) f\<rparr>"
  have r0: "ready s" using s(1) by (simp add: passive_mode_def)
  obtain b rx where r: "run_events (MessageReceived env # download_events ?a (next_socket s) f @ es) s
      = run_events (download_events ?a (next_socket s) f @ es)
          (answered c m (accept_and_send f (after_read s b rx)))"
      "b @ concat rx = []"
    by (rule line_received [OF r0 s(2-4) h])
  let ?s1 = "answered c m (accept_and_send f (after_read s b rx))"
  have "data_idle ?s1" "?a \<in> set (accepts ?s1)"
    using s(1) by (simp_all add: passive_mode_def data_idle_def answered_def accept_and_send_def make_socket_def
        async_accept_def sendMessage_def receiveMessage_def after_read_def)
  then obtain s' where d: "run_events (download_events ?a (next_socket s) f @ es) ?s1 = run_events es s'"
      "data_wire s' = data_wire ?s1 @ [(next_socket s, f)]" "next_socket s \<in> set (closed_sockets s')"
      "sent_log s' = sent_log ?s1 @ [ftp_message CLOSING_DATA_CONNECTION ''Done'']"
      "filesystem s' = filesystem ?s1" "same_control ?s1 s'"
    by (rule download_run [where k = "next_socket s" and f = f and es = es]) simp_all
  note s1 = answered_def accept_and_send_def make_socket_def async_accept_def sendMessage_def
    receiveMessage_def after_read_def
  have "ready s'" "pending s' = []"
    using d(5,6) s(1) r(2) by (simp_all add: same_control_def ready_def passive_mode_def s1 pending_def)
  with r(1) d show thesis using that by (simp add: retr_events_def s1)
qed

lemma retr_run:
  assumes s: "passive_mode s p" "pending s = command_line ''RETR'' name @ crlf"
    and "plain_argument ''RETR'' name"
    and f: "fs_map (filesystem s) (current_working_dir s @ name) = Some f"
  obtains s' where "run_events (retr_events env s f @ es) s = run_events es s'"
    "data_wire s' = data_wire s @ [(next_socket s, f)]" "next_socket s \<in> set (closed_sockets s')"
    "sent_log s' = sent_log s
       @ [ftp_message FILE_STATUS_OK_OPENING_DATA_CONNECTION ''Sending file'',
          ftp_message CLOSING_DATA_CONNECTION ''Done'']"
    "filesystem s' = filesystem s" "ready s'" "pending s' = []"
proof (rule send_run [OF s plain_command_line])
  show "handleFtp env (command_line ''RETR'' name @ crlf) (after_read s b rx)
      = Inr (answered Retr (ftp_message FILE_STATUS_OK_OPENING_DATA_CONNECTION ''Sending file'')
          (accept_and_send f (after_read s b rx)))" for b rx
    using assms(1,3) f by (intro handleFtp_retr)
      (simp_all add: passive_mode_def plain_argument_def after_read_def logged_in_def is_open_def)
qed (use assms(3) that in simp_all)

definition stor_events :: "acceptor_env \<Rightarrow> session \<Rightarrow> string \<Rightarrow> string list \<Rightarrow> string \<Rightarrow> event list" where
  "stor_events env s name cs last_chunk =
     (let path = current_working_dir s @ name;
          k = next_socket s
      in MessageReceived env
         # AcceptDone \<lparr>can_succeed = True, on_accept = ReceiveOnAccept k [] path\<rparr> None
         # upload_events \<lparr>read_socket = k, read_file = [], read_path = path\<rparr> cs last_chunk)"

lemma stor_run:
  assumes s: "passive_mode s p" "pending s = command_line ''STOR'' name @ crlf"
    and "plain_argument ''STOR'' name"
    and c: "\<forall>c \<in> set cs. length c = receive_buffer_size" "length last_chunk \<le> receive_buffer_size"
  obtains s' where "run_events (stor_events env s name cs last_chunk @ es) s = run_events es s'"
    "filesystem s' = snd (fs_add (filesystem s) (current_working_dir s @ name) (concat cs @ last_chunk))"
    "sent_log s' = sent_log s
       @ [ftp_message FILE_STATUS_OK_OPENING_DATA_CONNECTION ''Ready to receive'',
          stor_message (filesystem s) (current_working_dir s @ name)]"
    "ready s'" "pending s' = []" "data_idle s'" "data_wire s' = data_wire s" "same_place s s'"
proof -
  let ?path = "current_working_dir s @ name"
  let ?a = "\<lparr>can_succeed = True, on_accept = ReceiveOnAccept (next_socket s) [] ?path\<rparr>"
  let ?r = "\<lparr>read_socket = next_socket s, read_file = [], read_path = ?path\<rparr>"
  let ?m = "ftp_message FILE_STATUS_OK_OPENING_DATA_CONNECTION ''Ready to receive''"
  let ?up = "upload_events ?r cs last_chunk @ es"
  have h: "handleFtp env (command_line ''STOR'' name @ crlf) (after_read s b rx)
      = Inr (answered Stor ?m (acceptFile [] ?path (after_read s b rx)))" for b rx
    using assms(1,3) handleFtp_stor [of name "after_read s b rx" env]
    by (simp add: passive_mode_def plain_argument_def after_read_def logged_in_def is_open_def)
  have r0: "ready s" "no_cr ''STOR''" using s(1) by (simp_all add: passive_mode_def)
  obtain b rx where r: "run_events (MessageReceived env # AcceptDone ?a None # ?up) s
      = run_events (AcceptDone ?a None # ?up) (answered Stor ?m (acceptFile [] ?path (after_read s b rx)))"
      "b @ concat rx = []"
    by (rule command_received [OF r0(1) s(2) r0(2) assms(3) h])
  let ?s1 = "answered Stor ?m (acceptFile [] ?path (after_read s b rx))"
  let ?s2 = "accept_done (ReceiveOnAccept (next_socket s) [] ?path) None (?s1\<lparr>accepts := remove1 ?a (accepts ?s1)\<rparr>)"
  note s1 = answered_def acceptFile_def make_socket_def async_accept_def sendMessage_def
    receiveMessage_def after_read_def accept_done_def receiveFile_def
  have "?a \<in> set (accepts ?s1)" using s(1) by (simp add: passive_mode_def s1)
  then have a: "run_events (AcceptDone ?a None # ?up) ?s1 = run_events ?up ?s2" by simp
  have "ftp_data_serializer ?s2 = []" "?r \<in> set (file_reads ?s2)" "fs_inv (filesystem ?s2)"
    using s(1) by (simp_all add: passive_mode_def ready_def data_idle_def s1)
  then obtain s' where u: "run_events ?up ?s2 = run_events es s'" "same_control ?s2 s'"
      "filesystem s' = snd (fs_add (filesystem ?s2) (read_path ?r) (read_file ?r @ concat cs @ last_chunk))"
      "sent_log s' = sent_log ?s2 @ [stor_message (filesystem ?s2) (read_path ?r)]" "data_tasks [] ?s2 s'"
    using c by (rule upload_run [where es = es])
  have "ready s'" "pending s' = []"
    using u(2,3) s(1) r(2) memfs.add_inv [of "filesystem s"]
    by (simp_all add: same_control_def ready_def passive_mode_def s1 pending_def)
  moreover have "data_idle s'" "data_wire s' = data_wire s" "same_place s s'"
    using u(2,5) s(1) by (simp_all add: same_control_def same_client_def same_place_def data_tasks_def
        data_idle_def passive_mode_def s1)
  ultimately show thesis using r(1) a u that by (simp add: stor_events_def Let_def s1)
qed

section \<open>Passive mode\<close>

text \<open>The numbers a client reads between the parentheses of the answer to PASV.\<close>

definition endpoint_numbers :: "string \<Rightarrow> nat list" where
  "endpoint_numbers text =
     map (\<lambda>v. read_dec (sv_chars v)) (tokens_of '','' (view_of (butlast (tl text))))"

definition byte_texts :: "8 word list \<Rightarrow> port \<Rightarrow> string list" where
  "byte_texts ip p = map (\<lambda>b. to_string (unat b)) ip
     @ [to_string (unat p div 256), to_string (unat p mod 256)]"

lemma port_bytes:
  fixes p :: port
  shows "unat (drop_bit 8 p AND 0xFF) = unat p div 256" "unat (p AND 0xFF) = unat p mod 256"
proof -
  have m: "(0xFF :: port) = mask 8" by (simp add: mask_eq_exp_minus_1)
  have "unat p < 65536" using unsigned_less [of p] by simp
  then have "unat p div 256 < 256" by (simp add: less_mult_imp_div_less)
  then show "unat (drop_bit 8 p AND 0xFF) = unat p div 256" "unat (p AND 0xFF) = unat p mod 256"
    unfolding m take_bit_eq_mask [symmetric] unsigned_take_bit_eq unsigned_drop_bit_eq
    using \<open>unat p < 65536\<close> by (simp_all add: take_bit_eq_mod drop_bit_eq_div)
qed

lemma concat_comma: "concat (map (\<lambda>t. t @ '','') ts) @ join '','' (us @ [u]) = join '','' (ts @ us @ [u])"
proof (induction ts)
  case (Cons t ts)
  then show ?case by (cases "ts @ us @ [u]") simp_all
qed simp

lemma passive_endpoint_join: "passive_endpoint ip p = ''('' @ join '','' (byte_texts ip p) @ '')''"
  using concat_comma [of "map (\<lambda>b. to_string (unat b)) ip" "[to_string (unat p div 256)]"
      "to_string (unat p mod 256)"]
  unfolding passive_endpoint_def byte_texts_def port_bytes(1) unfolding port_bytes(2)
  by (simp add: comp_def)

lemma to_string_no_comma: "CHR '','' \<notin> set (to_string n)"
  using to_string_digits [of n] by (auto simp: list_all_iff is_digit_def)

lemma passive_endpoint_numbers:
  "endpoint_numbers (passive_endpoint ip p) = map unat ip @ [unat p div 256, unat p mod 256]"
proof -
  have "map sv_chars (tokens_of '','' (view_of (join '','' (byte_texts ip p)))) = byte_texts ip p"
    by (intro tokens_of_join_view) (auto simp: byte_texts_def clean_single to_string_no_comma)
  then have "map read_dec (map sv_chars (tokens_of '','' (view_of (join '','' (byte_texts ip p)))))
      = map unat ip @ [unat p div 256, unat p mod 256]"
    by (simp add: byte_texts_def comp_def)
  moreover have "butlast (tl (passive_endpoint ip p)) = join '','' (byte_texts ip p)"
    by (simp add: passive_endpoint_join butlast_append)
  ultimately show ?thesis by (simp add: endpoint_numbers_def comp_def)
qed

lemma handleFtpPasv_listens:
  assumes "logged_in s" "open_ok env" "bind_ok env" "listen_ok env" "local_address s = Some ip"
  obtains s' where "handleFtpPasv env parser s = Inr s'"
    "ftp_data_acceptor s' = Listening (bound_port env)"
    "sent_log s' = sent_log s @ [ftp_message ENTERING_PASSIVE_MODE
       (''Entering passive mode '' @ passive_endpoint ip (bound_port env))]"
proof -
  obtain s1 where "configureDataAcceptor env s = (True, s1)" "local_address s1 = local_address s"
      "sent_log s1 = sent_log s" "ftp_data_acceptor s1 = Listening (bound_port env)"
    using assms(2-4)
    by (cases "is_open (ftp_data_acceptor s)") (simp_all add: configureDataAcceptor_def close_acceptor_def)
  with assms(1,5) that show thesis
    by (auto simp: handleFtpPasv_def logged_in_def ftp_reply_to_def ftp_message_def sendMessage_def)
qed

section \<open>Properties\<close>

text \<open>A client in passive mode, with the given line on its connection.\<close>

definition passive_session :: "MemoryFs \<Rightarrow> string \<Rightarrow> session" where
  "passive_session m line = sample_session\<lparr>receives := 1, serializer := [], socket_rx := [line],
     filesystem := m, logged_in_user := Some nord, ftp_data_acceptor := Listening 50123\<rparr>"

lemma passive_session_mode: "fs_inv m \<Longrightarrow> passive_mode (passive_session m line) 50123"
  by (simp add: passive_mode_def passive_session_def sample_session_def new_session_def ready_def
      logged_in_def data_idle_def)

lemma passive_session_sel [simp]:
  "pending (passive_session m line) = line" "filesystem (passive_session m line) = m"
  "current_working_dir (passive_session m line) = ''/''" "logged_in (passive_session m line)"
  "local_address (passive_session m line) = Some [127, 0, 0, 1]"
  by (simp_all add: passive_session_def sample_session_def new_session_def pending_def logged_in_def)

lemma full_store_inv: "fs_inv full_store" "fs_map full_store ''/a'' = Some ''old''"
  by (simp_all add: full_store_def fs_inv_def fs_map_def)

lemma sample_arguments: "plain_argument ''RETR'' ''a''" "plain_argument ''STOR'' ''b''"
  by code_simp+

text \<open>
  C15. RETR delivers: a logged in client in passive mode that asks for a stored file gets exactly
  its bytes over the data connection, the connection is closed behind them, and the two replies
  are sent; the store is as before.
\<close>

theorem retr_delivers:
  assumes "passive_mode s p" "pending s = command_line ''RETR'' name @ crlf" "plain_argument ''RETR'' name"
    and "fs_map (filesystem s) (current_working_dir s @ name) = Some f"
  shows "\<exists>s'. run_events (retr_events env s f) s = Some (Inr s')
    \<and> data_wire s' = data_wire s @ [(next_socket s, f)] \<and> next_socket s \<in> set (closed_sockets s')
    \<and> sent_log s' = sent_log s
        @ [ftp_message FILE_STATUS_OK_OPENING_DATA_CONNECTION ''Sending file'',
           ftp_message CLOSING_DATA_CONNECTION ''Done'']
    \<and> filesystem s' = filesystem s"
proof -
  obtain s' where "run_events (retr_events env s f @ []) s = run_events [] s'"
    "data_wire s' = data_wire s @ [(next_socket s, f)]" "next_socket s \<in> set (closed_sockets s')"
    "sent_log s' = sent_log s
        @ [ftp_message FILE_STATUS_OK_OPENING_DATA_CONNECTION ''Sending file'',
           ftp_message CLOSING_DATA_CONNECTION ''Done'']"
    "filesystem s' = filesystem s"
    using assms by (rule retr_run [where env = env and es = "[]"])
  then show ?thesis by auto
qed

lemma retr_delivers_witness:
  "\<exists>s'. run_events (retr_events sample_env (passive_session full_store (command_line ''RETR'' ''a'' @ crlf)) ''old'')
      (passive_session full_store (command_line ''RETR'' ''a'' @ crlf)) = Some (Inr s')
    \<and> data_wire s' = data_wire (passive_session full_store (command_line ''RETR'' ''a'' @ crlf))
        @ [(next_socket (passive_session full_store (command_line ''RETR'' ''a'' @ crlf)), ''old'')]
    \<and> next_socket (passive_session full_store (command_line ''RETR'' ''a'' @ crlf)) \<in> set (closed_sockets s')
    \<and> sent_log s' = sent_log (passive_session full_store (command_line ''RETR'' ''a'' @ crlf))
        @ [ftp_message FILE_STATUS_OK_OPENING_DATA_CONNECTION ''Sending file'',
           ftp_message CLOSING_DATA_CONNECTION ''Done'']
    \<and> filesystem s' = filesystem (passive_session full_store (command_line ''RETR'' ''a'' @ crlf))"
  by (rule retr_delivers [OF passive_session_mode _ sample_arguments(1)]) (simp_all add: full_store_inv)

text \<open>
  C14. STOR stores what was sent: full buffers and a last piece arrive over the data connection,
  and the file under the client's path is all of them in order, byte for byte. When the path is
  taken the store stays as it is and the client is told that the file was not saved.
\<close>

theorem stor_stores:
  assumes "passive_mode s p" "pending s = command_line ''STOR'' name @ crlf" "plain_argument ''STOR'' name"
    and "\<forall>c \<in> set cs. length c = receive_buffer_size" "length last_chunk \<le> receive_buffer_size"
  shows "\<exists>s'. run_events (stor_events env s name cs last_chunk) s = Some (Inr s')
    \<and> (if fs_map (filesystem s) (current_working_dir s @ name) = None
       then fs_map (filesystem s')
              = (fs_map (filesystem s))(current_working_dir s @ name \<mapsto> concat cs @ last_chunk)
         \<and> last (sent_log s') = ftp_message CLOSING_DATA_CONNECTION ''File saved''
       else fs_map (filesystem s') = fs_map (filesystem s)
         \<and> last (sent_log s') = ftp_message FILE_ACTION_NOT_TAKEN ''File not saved'')"
proof -
  obtain s' where s': "run_events (stor_events env s name cs last_chunk @ []) s = run_events [] s'"
    "filesystem s' = snd (fs_add (filesystem s) (current_working_dir s @ name) (concat cs @ last_chunk))"
    "sent_log s' = sent_log s
       @ [ftp_message FILE_STATUS_OK_OPENING_DATA_CONNECTION ''Ready to receive'',
          stor_message (filesystem s) (current_working_dir s @ name)]"
    using assms by (rule stor_run [where env = env and es = "[]"])
  have "fs_inv (filesystem s)" using assms(1) by (simp add: passive_mode_def ready_def)
  with s' show ?thesis
    by (intro exI [of _ s']) (auto simp: memfs.add_abs domIff stor_message_def)
qed

lemma stor_stores_witness:
  "\<exists>s'. run_events (stor_events sample_env (passive_session full_store (command_line ''STOR'' ''b'' @ crlf)) ''b''
        [replicate receive_buffer_size (CHR ''x'')] ''yz'')
      (passive_session full_store (command_line ''STOR'' ''b'' @ crlf)) = Some (Inr s')
    \<and> (if fs_map (filesystem (passive_session full_store (command_line ''STOR'' ''b'' @ crlf)))
            (current_working_dir (passive_session full_store (command_line ''STOR'' ''b'' @ crlf)) @ ''b'') = None
       then fs_map (filesystem s')
              = (fs_map (filesystem (passive_session full_store (command_line ''STOR'' ''b'' @ crlf))))
                 (current_working_dir (passive_session full_store (command_line ''STOR'' ''b'' @ crlf)) @ ''b''
                    \<mapsto> concat [replicate receive_buffer_size (CHR ''x'')] @ ''yz'')
         \<and> last (sent_log s') = ftp_message CLOSING_DATA_CONNECTION ''File saved''
       else fs_map (filesystem s')
              = fs_map (filesystem (passive_session full_store (command_line ''STOR'' ''b'' @ crlf)))
         \<and> last (sent_log s') = ftp_message FILE_ACTION_NOT_TAKEN ''File not saved'')"
  by (rule stor_stores [OF passive_session_mode _ sample_arguments(2)])
    (simp_all add: full_store_inv(1) receive_buffer_size_def)

text \<open>
  C29. When the client goes away during a download, the data connection of the session is dead:
  the failed write leaves the end mark in the queue with nothing to send it, and whatever
  happens afterwards, the session never writes data again.
\<close>

theorem failed_write_jams_downloads:
  assumes "data_idle s" "a \<in> set (accepts s)" "can_succeed a" "on_accept a = SendOnAccept k f"
    and "run_events (broken_download_events a k f) s = Some (Inr s1)" "reachable_session s1 t"
  shows "data_wire t = data_wire s \<and> ftp_data_buffer t \<noteq> []"
proof -
  obtain s2 where "run_events (broken_download_events a k f) s = Some (Inr s2)" "data_stuck s2"
      "data_wire s2 = data_wire s"
    using assms(1-4) by (rule broken_download_run)
  then have "data_stuck s1" "data_wire s1 = data_wire s" using assms(5) by simp_all
  with data_stuck_wire [OF assms(6)] stuck.reachable [OF assms(6)] show ?thesis
    by (simp add: data_stuck_def)
qed

definition waiting_session :: session where
  "waiting_session = (passive_session full_store [])
     \<lparr>accepts := [\<lparr>can_succeed = True, on_accept = SendOnAccept 0 ''old''\<rparr>]\<rparr>"

definition jammed_session :: session where
  "jammed_session = waiting_session\<lparr>accepts := [], ftp_data_socket := Some 0, ftp_data_buffer := [None]\<rparr>"

lemma failed_write_jams_downloads_witness:
  "data_wire jammed_session = data_wire waiting_session \<and> ftp_data_buffer jammed_session \<noteq> []"
proof (rule failed_write_jams_downloads)
  show "data_idle waiting_session"
    by (simp add: waiting_session_def passive_session_def sample_session_def new_session_def data_idle_def)
  show "run_events (broken_download_events \<lparr>can_succeed = True, on_accept = SendOnAccept 0 ''old''\<rparr> 0 ''old'')
      waiting_session = Some (Inr jammed_session)"
    by (simp add: waiting_session_def passive_session_def sample_session_def new_session_def
        jammed_session_def broken_download_events_def completion_defs)
  show "reachable_session jammed_session jammed_session" by (rule reachable_session.init)
qed (simp_all add: waiting_session_def)

text \<open>
  Two downloads at once: the second client connects while the file of the first is being
  written. The mark behind the first file ends the sending, although the second file is queued.
\<close>

definition overlapping_events ::
    "pending_accept \<Rightarrow> pending_accept \<Rightarrow> nat \<Rightarrow> File \<Rightarrow> event list" where
  "overlapping_events a b k f =
     [AcceptDone a None, RunDataTask, RunDataTask, RunDataTask, AcceptDone b None, RunDataTask,
      RunDataTask, DataWritten (k, f) True, RunDataTask]"

text \<open>
  C30. When a second download of a session begins before the first one has ended, the first is
  delivered and confirmed, and the second is not: its file stays in the queue with nothing to
  send it, and whatever happens afterwards, the session never writes data again.
\<close>

theorem overlapping_downloads_jam:
  assumes "data_idle s" "a \<in> set (accepts s)" "b \<in> set (remove1 a (accepts s))"
    and "can_succeed a" "on_accept a = SendOnAccept k f" "can_succeed b" "on_accept b = SendOnAccept k2 f2"
  shows "\<exists>s1. run_events (overlapping_events a b k f) s = Some (Inr s1)
    \<and> data_wire s1 = data_wire s @ [(k, f)] \<and> ftp_data_buffer s1 = [Some f2, None]
    \<and> sent_log s1 = sent_log s @ [ftp_message CLOSING_DATA_CONNECTION ''Done'']
    \<and> (\<forall>t. reachable_session s1 t \<longrightarrow> data_wire t = data_wire s1 \<and> ftp_data_buffer t \<noteq> [])"
proof -
  obtain s1 where s1: "run_events (overlapping_events a b k f) s = Some (Inr s1)"
      "data_stuck s1" "data_wire s1 = data_wire s @ [(k, f)]" "ftp_data_buffer s1 = [Some f2, None]"
      "sent_log s1 = sent_log s @ [ftp_message CLOSING_DATA_CONNECTION ''Done'']"
    using assms by (simp add: overlapping_events_def data_idle_def completion_defs ftp_message_def
        data_stuck_def triggers_def)
  moreover have "data_wire t = data_wire s1 \<and> ftp_data_buffer t \<noteq> []" if "reachable_session s1 t" for t
    using data_stuck_wire [OF that s1(2)] stuck.reachable [OF that s1(2)] by (simp add: data_stuck_def)
  ultimately show ?thesis by blast
qed

definition two_waiting :: session where
  "two_waiting = (passive_session full_store [])
     \<lparr>accepts := [\<lparr>can_succeed = True, on_accept = SendOnAccept 0 ''old''\<rparr>,
       \<lparr>can_succeed = True, on_accept = SendOnAccept 1 ''new''\<rparr>]\<rparr>"

lemma overlapping_downloads_jam_witness:
  "\<exists>s1. run_events (overlapping_events \<lparr>can_succeed = True, on_accept = SendOnAccept 0 ''old''\<rparr>
        \<lparr>can_succeed = True, on_accept = SendOnAccept 1 ''new''\<rparr> 0 ''old'') two_waiting = Some (Inr s1)
    \<and> data_wire s1 = data_wire two_waiting @ [(0, ''old'')] \<and> ftp_data_buffer s1 = [Some ''new'', None]"
proof -
  have "data_idle two_waiting"
    by (simp add: two_waiting_def passive_session_def sample_session_def new_session_def data_idle_def)
  then show ?thesis
    using overlapping_downloads_jam [of two_waiting "\<lparr>can_succeed = True, on_accept = SendOnAccept 0 ''old''\<rparr>"
        "\<lparr>can_succeed = True, on_accept = SendOnAccept 1 ''new''\<rparr>" 0 "''old''" 1 "''new''"]
    by (auto simp: two_waiting_def)
qed

text \<open>
  C19. The answer to PASV tells the truth: a client that reads the numbers between its
  parentheses gets the bytes of the server's address and the port the data acceptor listens on.
\<close>

theorem pasv_tells_endpoint:
  assumes "logged_in s" "open_ok env" "bind_ok env" "listen_ok env" "local_address s = Some ip"
  shows "\<exists>s' text p1 p2. handleFtpPasv env parser s = Inr s'
    \<and> sent_log s' = sent_log s @ [ftp_message ENTERING_PASSIVE_MODE (''Entering passive mode '' @ text)]
    \<and> endpoint_numbers text = map unat ip @ [p1, p2] \<and> p1 < 256 \<and> p2 < 256
    \<and> ftp_data_acceptor s' = Listening (of_nat (256 * p1 + p2))"
proof -
  let ?p = "bound_port env"
  obtain s' where "handleFtpPasv env parser s = Inr s'" "ftp_data_acceptor s' = Listening ?p"
    "sent_log s' = sent_log s @ [ftp_message ENTERING_PASSIVE_MODE
       (''Entering passive mode '' @ passive_endpoint ip ?p)]"
    using assms by (rule handleFtpPasv_listens [where parser = parser])
  moreover have "(of_nat (256 * (unat ?p div 256) + unat ?p mod 256) :: port) = ?p" by simp
  moreover have "unat ?p < 65536" using unsigned_less [of ?p] by simp
  then have "unat ?p div 256 < 256" "unat ?p mod 256 < 256" by (simp_all add: less_mult_imp_div_less)
  ultimately show ?thesis using passive_endpoint_numbers [of ip ?p] by metis
qed

lemma pasv_tells_endpoint_witness:
  "\<exists>s' text p1 p2. handleFtpPasv sample_env \<lparr>ftp_valid = True, ftp_command = Pasv, ftp_tokens = [view_of ''PASV'']\<rparr>
        (passive_session full_store []) = Inr s'
    \<and> sent_log s' = sent_log (passive_session full_store [])
        @ [ftp_message ENTERING_PASSIVE_MODE (''Entering passive mode '' @ text)]
    \<and> endpoint_numbers text = map unat [127 :: 8 word, 0, 0, 1] @ [p1, p2] \<and> p1 < 256 \<and> p2 < 256
    \<and> ftp_data_acceptor s' = Listening (of_nat (256 * p1 + p2))"
  by (rule pasv_tells_endpoint) (simp_all add: sample_env_def)

text \<open>
  DELE takes its argument for the whole path, where STOR and RETR put the working directory in
  front: a client cannot delete a file by the name it stored it under.
\<close>

lemma dele_ignores_directory:
  assumes "CHR '' '' \<notin> set name" "logged_in s" "fs_inv (filesystem s)"
    and "fs_map (filesystem s) (current_working_dir s @ name) = Some f" "fs_map (filesystem s) name = None"
  shows "\<exists>s'. handleFtp env (command_line ''DELE'' name @ crlf) s = Inr s'
    \<and> last (sent_log s') = ftp_message ACTION_NOT_TAKEN ''Unable to delete file''
    \<and> fs_map (filesystem s') (current_working_dir s' @ name) = Some f"
  using handleFtp_dele [OF assms(1-3), of env] assms(3-5)
  by (auto simp: answered_def receiveMessage_def sendMessage_def memfs.remove_abs)

text \<open>
  C33. A line that stops where an argument should follow has no defined outcome: a blank line from
  anyone, \<open>DELE\<close> from a client that is logged in, and \<open>RETR\<close> from one in passive mode make the
  session read a token that is not there.
\<close>

theorem incomplete_command_undefined:
  assumes "pending s = line @ crlf @ rest"
    and "line = [] \<or> line = ''DELE'' \<and> logged_in s
      \<or> line = ''RETR'' \<and> logged_in s \<and> is_open (ftp_data_acceptor s)"
  shows "message_received env s = Inl Undefined_Behaviour"
proof -
  have "\<not> occurs ''HTTP'' []" "\<not> occurs ''HTTP'' ''DELE''" "\<not> occurs ''HTTP'' ''RETR''" by code_simp+
  with assms(2) have "no_cr line" "\<not> occurs ''HTTP'' line" by auto
  then obtain b rx where "message_received env s = handleFtp env (line @ crlf) (after_read s b rx)"
    using receive_line [OF assms(1)] by blast
  moreover have "handleFtp env (line @ crlf) (after_read s b rx) = Inl Undefined_Behaviour"
    using assms(2) handleFtp_no_argument [of "after_read s b rx" env]
    by (auto simp: handleFtp_def parse_ftp_blank logged_in_def after_read_def)
  ultimately show ?thesis by simp
qed

lemma incomplete_command_undefined_witness:
  "message_received sample_env (passive_session full_store (''RETR'' @ crlf)) = Inl Undefined_Behaviour"
  by (rule incomplete_command_undefined [of _ "''RETR''" "[]"])
    (simp_all add: passive_session_def is_open_def logged_in_def pending_def sample_session_def new_session_def)

end
