(* ===== verification/Ftp_Login.thy ===== *)
theory Ftp_Login
  imports Ftp_Transfer
begin

text \<open>
  Logging in over FTP: the command USER, the command PASS right behind it, and what the
  database says.
\<close>

lemma handleFtp_user:
  assumes "CHR '' '' \<notin> set name"
  shows "handleFtp env (command_line ''USER'' name @ crlf) s
    = Inr (answered FtpCommand.User (ftp_message USER_NAME_OK ''Please provide password'')
        (s\<lparr>logged_in_user := None, last_username := name\<rparr>))"
proof (rule parse_command_line [of "''USER''" FtpCommand.User name])
  fix p
  assume "parse_ftp (command_line ''USER'' name @ crlf) = Inr p" "ftp_valid p" "ftp_command p = FtpCommand.User"
    "length (ftp_tokens p) = 2" "token p 1 = Inr name"
  then show ?thesis
    by (simp add: handleFtp_def ftp_handlers_def handleFtpUser_def answered_def ftp_message_def
        ftp_reply_to_def)
qed (simp_all add: kCommandMap_def toUpperCase_def toupper_def assms)

text \<open>What PASS makes of a session whose last command was USER.\<close>

definition pass_message :: "bool \<Rightarrow> string" where
  "pass_message ok =
     (if ok then ftp_message USER_LOGGED_IN ''Login successful''
      else ftp_message NOT_LOGGED_IN ''Failed to log in'')"

definition authenticated :: "User \<Rightarrow> session \<Rightarrow> session" where
  "authenticated u s = (if db_verify (user_database s) u then s\<lparr>logged_in_user := Some u\<rparr> else s)"

lemma handleFtp_pass:
  assumes "CHR '' '' \<notin> set pass" "last_ftp_command s = FtpCommand.User"
  defines "u \<equiv> \<lparr>username = last_username s, password = pass\<rparr>"
  shows "handleFtp env (command_line ''PASS'' pass @ crlf) s
    = Inr (answered Pass (pass_message (db_verify (user_database s) u)) (authenticated u s))"
proof (rule parse_command_line [of "''PASS''" Pass pass])
  fix p
  assume "parse_ftp (command_line ''PASS'' pass @ crlf) = Inr p" "ftp_valid p" "ftp_command p = Pass"
    "length (ftp_tokens p) = 2" "token p 1 = Inr pass"
  then show ?thesis
    using assms(2) by (simp add: handleFtp_def ftp_handlers_def handleFtpPass_def answered_def
        ftp_message_def ftp_reply_to_def pass_message_def authenticated_def u_def Let_def)
qed (simp_all add: kCommandMap_def toUpperCase_def toupper_def assms)

text \<open>PASS without USER right before it is refused.\<close>

lemma handleFtp_pass_first:
  assumes "CHR '' '' \<notin> set pass" "last_ftp_command s \<noteq> FtpCommand.User"
  shows "handleFtp env (command_line ''PASS'' pass @ crlf) s
    = Inr (answered Pass (ftp_message COMMANDS_BAD_SEQUENCE ''Please specify username first'') s)"
proof (rule parse_command_line [of "''PASS''" Pass pass])
  fix p
  assume "parse_ftp (command_line ''PASS'' pass @ crlf) = Inr p" "ftp_valid p" "ftp_command p = Pass"
    "length (ftp_tokens p) = 2" "token p 1 = Inr pass"
  then show ?thesis
    using assms(2) by (simp add: handleFtp_def ftp_handlers_def handleFtpPass_def answered_def
        ftp_message_def ftp_reply_to_def)
qed (simp_all add: kCommandMap_def toUpperCase_def toupper_def assms)

lemma answered_ready:
  "ready s \<Longrightarrow> b @ concat rx = [] \<Longrightarrow> ready (answered c m (after_read s b rx))
     \<and> pending (answered c m (after_read s b rx)) = []"
  by (simp add: ready_def answered_def after_read_def receiveMessage_def sendMessage_def pending_def)

lemma login_run:
  assumes "ready s" "pending s = command_line ''USER'' name @ crlf"
    and "plain_argument ''USER'' name" "plain_argument ''PASS'' pass"
    and "concat xs = command_line ''PASS'' pass @ crlf" "[] \<notin> set xs"
  defines "u \<equiv> \<lparr>username = name, password = pass\<rparr>"
  obtains s' where "run_events (MessageReceived env # map Arrive xs @ MessageReceived env # es) s = run_events es s'"
    "logged_in_user s' = (if db_verify (user_database s) u then Some u else None)"
    "sent_log s' = sent_log s @ [ftp_message USER_NAME_OK ''Please provide password'',
       pass_message (db_verify (user_database s) u)]"
    "ready s'" "pending s' = []"
proof -
  let ?m = "ftp_message USER_NAME_OK ''Please provide password''"
  let ?F = "\<lambda>s. s\<lparr>logged_in_user := None, last_username := name\<rparr>"
  let ?more = "map Arrive xs @ MessageReceived env # es"
  have h: "handleFtp env (command_line ''USER'' name @ crlf) (after_read s b rx)
      = Inr (answered FtpCommand.User ?m (?F (after_read s b rx)))" for b rx
    using assms(3) by (intro handleFtp_user) (simp add: plain_argument_def)
  have n: "no_cr ''USER''" "no_cr ''PASS''" by simp_all
  obtain b rx where r: "run_events (MessageReceived env # ?more) s
      = run_events ?more (answered FtpCommand.User ?m (?F (after_read s b rx)))" "b @ concat rx = []"
    by (rule command_received [OF assms(1,2) n(1) assms(3) h])
  let ?s1 = "answered FtpCommand.User ?m (?F (after_read s b rx))"
  let ?s2 = "?s1\<lparr>socket_rx := socket_rx ?s1 @ xs\<rparr>"
  note d = answered_def after_read_def receiveMessage_def sendMessage_def
  have run2: "run_events ?more ?s1 = run_events (MessageReceived env # es) ?s2"
    using assms(1,6) by (intro run_arrivals) (simp_all add: ready_def d)
  have s2: "ready ?s2" "pending ?s2 = command_line ''PASS'' pass @ crlf"
    using assms(1,5) r(2) by (simp_all add: ready_def d pending_def)
  have h2: "handleFtp env (command_line ''PASS'' pass @ crlf) (after_read ?s2 b2 rx2)
      = Inr (answered Pass (pass_message (db_verify (user_database s) u))
          (authenticated u (after_read ?s2 b2 rx2)))" for b2 rx2
    using assms(4) handleFtp_pass [of pass "after_read ?s2 b2 rx2" env]
    by (simp add: plain_argument_def d u_def)
  obtain b2 rx2 where r2: "run_events (MessageReceived env # es) ?s2
      = run_events es (answered Pass (pass_message (db_verify (user_database s) u))
          (authenticated u (after_read ?s2 b2 rx2)))" "b2 @ concat rx2 = []"
    by (rule command_received [OF s2 n(2) assms(4) h2])
  let ?s' = "answered Pass (pass_message (db_verify (user_database s) u)) (authenticated u (after_read ?s2 b2 rx2))"
  have "run_events (MessageReceived env # ?more) s = run_events es ?s'"
    using r(1) run2 r2(1) by simp
  moreover have "logged_in_user ?s' = (if db_verify (user_database s) u then Some u else None)"
    "sent_log ?s' = sent_log s @ [?m, pass_message (db_verify (user_database s) u)]"
    "ready ?s'" "pending ?s' = []"
    using assms(1) r2(2) by (simp_all add: ready_def d authenticated_def pending_def)
  ultimately show thesis using that by simp
qed

text \<open>Credentials to try it on.\<close>

lemma sample_login: "plain_argument ''USER'' ''Nord''" "plain_argument ''PASS'' ''VPN''"
  by code_simp+

end
