(* ===== verification/Ftp_Dialogue.thy ===== *)
theory Ftp_Dialogue
  imports Ftp_Login
begin

text \<open>
  A whole FTP session: a client logs in, enters passive mode, stores a file, enters passive
  mode again and fetches it. One lemma per command says what it leaves for the next one.
\<close>

definition say :: "acceptor_env \<Rightarrow> string \<Rightarrow> event list" where
  "say env line = [Arrive (line @ crlf), MessageReceived env]"

text \<open>A client between two commands, with no transfer under way.\<close>

definition calm :: "session \<Rightarrow> bool" where
  "calm s \<longleftrightarrow> ready s \<and> pending s = [] \<and> data_idle s"

definition heard :: "string \<Rightarrow> session \<Rightarrow> session" where
  "heard line s = s\<lparr>socket_rx := socket_rx s @ [line @ crlf]\<rparr>"

lemma heard_simps [simp]:
  "ready (heard line s) = ready s" "pending (heard line s) = pending s @ line @ crlf"
  "filesystem (heard line s) = filesystem s" "logged_in (heard line s) = logged_in s"
  "next_socket (heard line s) = next_socket s" "same_place s (heard line s)"
  "data_wire (heard line s) = data_wire s" "current_working_dir (heard line s) = current_working_dir s"
  "after_read (heard line s) b rx = after_read s b rx" "stor_events env (heard line s) = stor_events env s"
  "retr_events env (heard line s) = retr_events env s" "data_idle (heard line s) = data_idle s"
  "ftp_data_acceptor (heard line s) = ftp_data_acceptor s" "same_place (heard line s) s' = same_place s s'"
  by (auto simp: heard_def ready_def pending_def logged_in_def same_place_def after_read_def
      stor_events_def retr_events_def data_idle_def fun_eq_iff Let_def)

lemma arrive_run:
  "calm s \<Longrightarrow> run_events (Arrive (line @ crlf) # es) s = run_events es (heard line s)"
  by (simp add: calm_def ready_def heard_def crlf_def)

lemma say_run:
  assumes "calm s" "no_cr line" "\<not> occurs ''HTTP'' line"
    and "\<And>b rx. handleFtp env (line @ crlf) (after_read s b rx) = Inr (answered c m (F (after_read s b rx)))"
  obtains b rx where "run_events (say env line) s = Some (Inr (answered c m (F (after_read s b rx))))"
    "b @ concat rx = []"
proof -
  have r: "ready (heard line s)" "pending (heard line s) = line @ crlf" using assms(1) by (simp_all add: calm_def)
  have h: "handleFtp env (line @ crlf) (after_read (heard line s) b rx)
      = Inr (answered c m (F (after_read (heard line s) b rx)))" for b rx
    using assms(4) by simp
  obtain b rx where "run_events (MessageReceived env # []) (heard line s)
      = run_events [] (answered c m (F (after_read (heard line s) b rx)))" "b @ concat rx = []"
    by (rule line_received [OF r assms(2,3) h, where es = "[]"])
  with that arrive_run [OF assms(1)] show thesis by (simp add: say_def)
qed

lemmas calm_defs = calm_def ready_def pending_def data_idle_def answered_def after_read_def
  receiveMessage_def sendMessage_def same_place_def

section \<open>One command after the other\<close>

lemma user_said:
  assumes "calm s" "plain_argument ''USER'' name"
  obtains s' where "run_events (say env (command_line ''USER'' name)) s = Some (Inr s')" "calm s'"
    "last_username s' = name" "last_ftp_command s' = FtpCommand.User" "filesystem s' = filesystem s"
    "data_wire s' = data_wire s" "same_place (s\<lparr>logged_in_user := None\<rparr>) s'"
proof -
  have h: "handleFtp env (command_line ''USER'' name @ crlf) (after_read s b rx)
      = Inr (answered FtpCommand.User (ftp_message USER_NAME_OK ''Please provide password'')
          ((after_read s b rx)\<lparr>logged_in_user := None, last_username := name\<rparr>))" for b rx
    using assms(2) by (intro handleFtp_user) (simp add: plain_argument_def)
  have "no_cr ''USER''" by simp
  note line = plain_command_line [OF this assms(2)]
  obtain b rx where "run_events (say env (command_line ''USER'' name)) s
      = Some (Inr (answered FtpCommand.User (ftp_message USER_NAME_OK ''Please provide password'')
          ((after_read s b rx)\<lparr>logged_in_user := None, last_username := name\<rparr>)))" "b @ concat rx = []"
    by (rule say_run [OF assms(1) line h])
  with that assms(1) show thesis by (simp add: calm_defs)
qed

lemma pass_said:
  assumes "calm s" "plain_argument ''PASS'' pass" "last_ftp_command s = FtpCommand.User"
    and "db_verify (user_database s) u" "u = \<lparr>username = last_username s, password = pass\<rparr>"
  obtains s' where "run_events (say env (command_line ''PASS'' pass)) s = Some (Inr s')" "calm s'"
    "filesystem s' = filesystem s" "data_wire s' = data_wire s" "same_place (s\<lparr>logged_in_user := Some u\<rparr>) s'"
proof -
  have h: "handleFtp env (command_line ''PASS'' pass @ crlf) (after_read s b rx)
      = Inr (answered Pass (pass_message True) ((after_read s b rx)\<lparr>logged_in_user := Some u\<rparr>))" for b rx
    using assms(2-5) handleFtp_pass [of pass "after_read s b rx" env]
    by (simp add: plain_argument_def after_read_def authenticated_def)
  have "no_cr ''PASS''" by simp
  note line = plain_command_line [OF this assms(2)]
  obtain b rx where "run_events (say env (command_line ''PASS'' pass)) s
      = Some (Inr (answered Pass (pass_message True) ((after_read s b rx)\<lparr>logged_in_user := Some u\<rparr>)))"
      "b @ concat rx = []"
    by (rule say_run [OF assms(1) line h])
  with that assms(1) show thesis by (simp add: calm_defs)
qed

lemma configured_frame:
  assumes "open_ok env" "bind_ok env" "listen_ok env"
  shows "configureDataAcceptor env s = (True, (if is_open (ftp_data_acceptor s) then close_acceptor s else s)
    \<lparr>ftp_data_acceptor := Listening (bound_port env)\<rparr>)"
  using assms by (simp add: configureDataAcceptor_def Let_def close_acceptor_def)

lemma handleFtp_pasv:
  assumes "logged_in s" "open_ok env" "bind_ok env" "listen_ok env" "local_address s = Some ip"
  shows "handleFtp env (''PASV'' @ crlf) s
    = Inr (answered Pasv (ftp_message ENTERING_PASSIVE_MODE
          (''Entering passive mode '' @ passive_endpoint ip (bound_port env))) (snd (configureDataAcceptor env s)))"
proof (rule parse_bare_command [of "''PASV''" Pasv])
  fix p
  assume "parse_ftp (''PASV'' @ crlf) = Inr p" "ftp_valid p" "ftp_command p = Pasv"
  moreover obtain u where "logged_in_user s = Some u" using assms(1) by (auto simp: logged_in_def)
  ultimately show ?thesis using assms
    by (simp add: handleFtp_def ftp_handlers_def handleFtpPasv_def configured_frame logged_in_def answered_def
        ftp_message_def ftp_reply_to_def close_acceptor_def)
qed (simp_all add: kCommandMap_def toUpperCase_def toupper_def)

lemma pasv_said:
  assumes "calm s" "logged_in s" "open_ok env" "bind_ok env" "listen_ok env" "local_address s = Some ip"
  obtains s' where "run_events (say env ''PASV'') s = Some (Inr s')" "calm s'" "passive_mode s' (bound_port env)"
    "filesystem s' = filesystem s" "data_wire s' = data_wire s" "same_place s s'"
proof -
  have h: "handleFtp env (''PASV'' @ crlf) (after_read s b rx)
      = Inr (answered Pasv (ftp_message ENTERING_PASSIVE_MODE
          (''Entering passive mode '' @ passive_endpoint ip (bound_port env)))
          (snd (configureDataAcceptor env (after_read s b rx))))" for b rx
    using assms by (intro handleFtp_pasv) (simp_all add: after_read_def logged_in_def)
  have line: "no_cr ''PASV''" "\<not> occurs ''HTTP'' ''PASV''" by (simp, code_simp)
  obtain b rx where "run_events (say env ''PASV'') s
      = Some (Inr (answered Pasv (ftp_message ENTERING_PASSIVE_MODE
          (''Entering passive mode '' @ passive_endpoint ip (bound_port env)))
          (snd (configureDataAcceptor env (after_read s b rx)))))" "b @ concat rx = []"
    by (rule say_run [OF assms(1) line h])
  with that assms show thesis
    by (simp add: calm_defs configured_frame close_acceptor_def passive_mode_def logged_in_def)
qed

lemma stor_said:
  assumes "calm s" "passive_mode s p" "plain_argument ''STOR'' name"
    and "\<forall>c \<in> set cs. length c = receive_buffer_size" "length last_chunk \<le> receive_buffer_size"
  obtains s' where "run_events (Arrive (command_line ''STOR'' name @ crlf) # stor_events env s name cs last_chunk) s
      = Some (Inr s')" "calm s'"
    "filesystem s' = snd (fs_add (filesystem s) (current_working_dir s @ name) (concat cs @ last_chunk))"
    "data_wire s' = data_wire s" "same_place s s'"
proof -
  let ?s = "heard (command_line ''STOR'' name) s"
  have s: "passive_mode ?s p" "pending ?s = command_line ''STOR'' name @ crlf"
    using assms(1,2) by (simp_all add: passive_mode_def calm_def)
  obtain s' where "run_events (stor_events env ?s name cs last_chunk @ []) ?s = run_events [] s'"
      "filesystem s' = snd (fs_add (filesystem ?s) (current_working_dir ?s @ name) (concat cs @ last_chunk))"
      "ready s'" "pending s' = []" "data_idle s'" "data_wire s' = data_wire ?s" "same_place ?s s'"
    by (rule stor_run [OF s assms(3-5), where env = env and es = "[]"])
  with that arrive_run [OF assms(1)] show thesis by (simp add: calm_def)
qed

lemma retr_said:
  assumes "calm s" "passive_mode s p" "plain_argument ''RETR'' name"
    and "fs_map (filesystem s) (current_working_dir s @ name) = Some f"
  obtains s' where "run_events (Arrive (command_line ''RETR'' name @ crlf) # retr_events env s f) s = Some (Inr s')"
    "filesystem s' = filesystem s" "data_wire s' = data_wire s @ [(next_socket s, f)]"
    "next_socket s \<in> set (closed_sockets s')"
proof -
  let ?s = "heard (command_line ''RETR'' name) s"
  have s: "passive_mode ?s p" "pending ?s = command_line ''RETR'' name @ crlf"
      "fs_map (filesystem ?s) (current_working_dir ?s @ name) = Some f"
    using assms(1,2,4) by (simp_all add: passive_mode_def calm_def)
  obtain s' where "run_events (retr_events env ?s f @ []) ?s = run_events [] s'"
      "data_wire s' = data_wire ?s @ [(next_socket ?s, f)]" "next_socket ?s \<in> set (closed_sockets s')"
      "filesystem s' = filesystem ?s"
    by (rule retr_run [OF s(1,2) assms(3) s(3), where env = env and es = "[]"])
  with that arrive_run [OF assms(1)] show thesis by simp
qed

section \<open>Properties\<close>

text \<open>
  A whole FTP session: a client that logs in with credentials the database accepts, enters
  passive mode, stores a file under a path that is free, enters passive mode again and fetches
  the file gets back, over a data connection of its own that is closed behind it, exactly the
  bytes it has sent; and the file is in the store under the client's path.
\<close>

theorem ftp_session_round_trip:
  assumes "calm s" "db_verify (user_database s) \<lparr>username = name, password = pass\<rparr>"
    and "plain_argument ''USER'' name" "plain_argument ''PASS'' pass"
    and "plain_argument ''STOR'' path" "plain_argument ''RETR'' path"
    and "open_ok env" "bind_ok env" "listen_ok env" "local_address s = Some ip"
    and "fs_map (filesystem s) (current_working_dir s @ path) = None"
    and "\<forall>c \<in> set cs. length c = receive_buffer_size" "length last_chunk \<le> receive_buffer_size"
  shows "\<exists>s2 s3 s4 s5 s'.
    run_events (say env (command_line ''USER'' name) @ say env (command_line ''PASS'' pass)) s = Some (Inr s2)
    \<and> run_events (say env ''PASV'') s2 = Some (Inr s3)
    \<and> run_events (Arrive (command_line ''STOR'' path @ crlf) # stor_events env s3 path cs last_chunk) s3 = Some (Inr s4)
    \<and> run_events (say env ''PASV'') s4 = Some (Inr s5)
    \<and> run_events (Arrive (command_line ''RETR'' path @ crlf) # retr_events env s5 (concat cs @ last_chunk)) s5
        = Some (Inr s')
    \<and> data_wire s' = data_wire s @ [(next_socket s5, concat cs @ last_chunk)]
    \<and> next_socket s5 \<in> set (closed_sockets s')
    \<and> fs_map (filesystem s') = (fs_map (filesystem s))(current_working_dir s @ path \<mapsto> concat cs @ last_chunk)"
proof -
  let ?u = "\<lparr>username = name, password = pass\<rparr>" and ?file = "concat cs @ last_chunk"
  obtain s1 where s1: "run_events (say env (command_line ''USER'' name)) s = Some (Inr s1)" "calm s1"
      "last_username s1 = name" "last_ftp_command s1 = FtpCommand.User" "filesystem s1 = filesystem s"
      "data_wire s1 = data_wire s" "same_place (s\<lparr>logged_in_user := None\<rparr>) s1"
    by (rule user_said [OF assms(1,3), where env = env])
  have v: "db_verify (user_database s1) ?u" "?u = \<lparr>username = last_username s1, password = pass\<rparr>"
    using assms(2) s1(3,7) by (simp_all add: same_place_def)
  obtain s2 where s2: "run_events (say env (command_line ''PASS'' pass)) s1 = Some (Inr s2)" "calm s2"
      "filesystem s2 = filesystem s1" "data_wire s2 = data_wire s1" "same_place (s1\<lparr>logged_in_user := Some ?u\<rparr>) s2"
    by (rule pass_said [OF s1(2) assms(4) s1(4) v, where env = env])
  have p: "logged_in s2" "local_address s2 = Some ip" "current_working_dir s2 = current_working_dir s"
    using s1(7) s2(5) assms(10) by (simp_all add: same_place_def logged_in_def)
  obtain s3 where s3: "run_events (say env ''PASV'') s2 = Some (Inr s3)" "calm s3"
      "passive_mode s3 (bound_port env)" "filesystem s3 = filesystem s2" "data_wire s3 = data_wire s2" "same_place s2 s3"
    by (rule pasv_said [OF s2(2) p(1) assms(7-9) p(2)])
  obtain s4 where s4: "run_events (Arrive (command_line ''STOR'' path @ crlf)
        # stor_events env s3 path cs last_chunk) s3 = Some (Inr s4)" "calm s4"
      "filesystem s4 = snd (fs_add (filesystem s3) (current_working_dir s3 @ path) ?file)"
      "data_wire s4 = data_wire s3" "same_place s3 s4"
    by (rule stor_said [OF s3(2,3) assms(5,12,13), where env = env])
  have q: "logged_in s4" "local_address s4 = Some ip" "current_working_dir s4 = current_working_dir s"
    using p s3(6) s4(5) by (simp_all add: same_place_def logged_in_def)
  obtain s5 where s5: "run_events (say env ''PASV'') s4 = Some (Inr s5)" "calm s5"
      "passive_mode s5 (bound_port env)" "filesystem s5 = filesystem s4" "data_wire s5 = data_wire s4" "same_place s4 s5"
    by (rule pasv_said [OF s4(2) q(1) assms(7-9) q(2)])
  have "fs_inv (filesystem s)" using assms(1) by (simp add: calm_def ready_def)
  then have stored: "fs_map (filesystem s4) = (fs_map (filesystem s))(current_working_dir s @ path \<mapsto> ?file)"
    using assms(11) memfs.add_abs [of "filesystem s"] p(3) s1(5) s2(3) s3(4,6) s4(3)
    by (simp add: same_place_def domIff)
  then have f: "fs_map (filesystem s5) (current_working_dir s5 @ path) = Some ?file"
    using q(3) s5(4,6) by (simp add: same_place_def)
  obtain s' where s': "run_events (Arrive (command_line ''RETR'' path @ crlf) # retr_events env s5 ?file) s5
        = Some (Inr s')" "filesystem s' = filesystem s5" "data_wire s' = data_wire s5 @ [(next_socket s5, ?file)]"
      "next_socket s5 \<in> set (closed_sockets s')"
    by (rule retr_said [OF s5(2,3) assms(6) f, where env = env])
  have "run_events (say env (command_line ''USER'' name) @ say env (command_line ''PASS'' pass)) s = Some (Inr s2)"
    using s1(1) s2(1) by (simp add: run_events_append)
  moreover have "data_wire s' = data_wire s @ [(next_socket s5, ?file)]"
    using s'(3) s5(5) s4(4) s3(5) s2(4) s1(6) by simp
  moreover have "fs_map (filesystem s') = (fs_map (filesystem s))(current_working_dir s @ path \<mapsto> ?file)"
    using s'(2) s5(4) stored by simp
  ultimately show ?thesis using s3(1) s4(1) s5(1) s'(1,4) by blast
qed

lemma sample_paths: "plain_argument ''STOR'' ''a''" "plain_argument ''RETR'' ''a''"
  by code_simp+

lemma ftp_session_round_trip_witness:
  "\<exists>s2 s3 s4 s5 s'.
    run_events (say sample_env (command_line ''USER'' ''Nord'') @ say sample_env (command_line ''PASS'' ''VPN''))
      (http_session []) = Some (Inr s2)
    \<and> run_events (say sample_env ''PASV'') s2 = Some (Inr s3)
    \<and> run_events (Arrive (command_line ''STOR'' ''a'' @ crlf) # stor_events sample_env s3 ''a'' [] ''hello'') s3
        = Some (Inr s4)
    \<and> run_events (say sample_env ''PASV'') s4 = Some (Inr s5)
    \<and> run_events (Arrive (command_line ''RETR'' ''a'' @ crlf) # retr_events sample_env s5 ''hello'') s5 = Some (Inr s')
    \<and> fs_map (filesystem s') = [''/a'' \<mapsto> ''hello'']"
proof -
  let ?s = "http_session []"
  have c: "calm ?s" "current_working_dir ?s = ''/''" "fs_map (filesystem ?s) = Map.empty"
      "local_address ?s = Some [127, 0, 0, 1]"
    by (simp_all add: calm_def sample_ready sample_pending)
      (simp_all add: http_session_def sample_session_def new_session_def data_idle_def)
  have v: "db_verify (user_database ?s) \<lparr>username = ''Nord'', password = ''VPN''\<rparr>"
    using sample_verifies(1) by (simp add: nord_def)
  have e: "open_ok sample_env" "bind_ok sample_env" "listen_ok sample_env" by (simp_all add: sample_env_def)
  have f: "fs_map (filesystem ?s) (current_working_dir ?s @ ''a'') = None"
      "\<forall>c \<in> set []. length (c :: string) = receive_buffer_size" "length ''hello'' \<le> receive_buffer_size"
    by (simp_all add: c(3) receive_buffer_size_def)
  have n: "concat [] @ ''hello'' = ''hello''" by simp
  have m: "(fs_map (filesystem ?s))(current_working_dir ?s @ ''a'' \<mapsto> ''hello'') = [''/a'' \<mapsto> ''hello'']"
    by (simp add: c(2,3))
  from ftp_session_round_trip [OF c(1) v sample_login sample_paths e c(4) f, unfolded n, unfolded m]
  show ?thesis by blast
qed

end
