(* ===== verification/Session_Dialogue.thy ===== *)
theory Session_Dialogue
  imports Session_Transfer
begin

text \<open>
  Dialogues: a client that sends one request after the other to a session, and what a
  specification of the service allows as answers. The interface \<open>dialogue\<close> asks for one
  request; what it gives is the whole dialogue. It is interpreted on the HTTP requests in
  \<open>Http_Dialogue\<close> and on the FTP commands in \<open>Ftp_Machine\<close>.
\<close>

section \<open>Runs of a service\<close>

text \<open>
  A service answers a request with a list of answers and a new state; it may have a choice.
  \<open>service_run\<close> serves a list of requests.
\<close>

inductive service_run ::
    "('r \<Rightarrow> 'a \<Rightarrow> 'm list \<Rightarrow> 'a \<Rightarrow> bool) \<Rightarrow> 'r list \<Rightarrow> 'a \<Rightarrow> 'm list \<Rightarrow> 'a \<Rightarrow> bool"
    for service where
  no_more: "service_run service [] a [] a"
| more: "service r a ms b \<Longrightarrow> service_run service rs b ns c \<Longrightarrow> service_run service (r # rs) a (ms @ ns) c"

inductive_simps service_run_Nil [simp]: "service_run service [] a ms b"
inductive_simps service_run_Cons [simp]: "service_run service (r # rs) a ms b"


section \<open>One request for all\<close>

text \<open>
  \<open>scheduled r es\<close>: the events \<open>es\<close> are what the client of request \<open>r\<close> and the network may do
  while it is served. Every sound request to an idle session can be served by such events, with
  answers of the service, and leaves the session idle; so can every list of sound requests.
\<close>

locale dialogue =
  fixes idle :: "session \<Rightarrow> bool"
    and sound :: "session \<Rightarrow> 'r \<Rightarrow> bool"
    and scheduled :: "'r \<Rightarrow> event list \<Rightarrow> bool"
    and encode :: "'m \<Rightarrow> string"
    and view :: "session \<Rightarrow> 'a"
    and service :: "'r \<Rightarrow> 'a \<Rightarrow> 'm list \<Rightarrow> 'a \<Rightarrow> bool"
  assumes answers: "idle s \<Longrightarrow> sound s r \<Longrightarrow>
    \<exists>es s' ms. scheduled r es \<and> run_events es s = Some (Inr s') \<and> idle s' \<and> same_client s s'
      \<and> sent_log s' = sent_log s @ map encode ms \<and> service r (view s) ms (view s')"
    and sound_client: "same_client s s' \<Longrightarrow> sound s r \<Longrightarrow> sound s' r"
begin

lemma all_answered:
  assumes "idle s" "list_all (sound s) rs"
  shows "\<exists>ess s' ms. list_all2 scheduled rs ess \<and> run_events (concat ess) s = Some (Inr s') \<and> idle s'
    \<and> same_client s s' \<and> sent_log s' = sent_log s @ map encode ms
    \<and> service_run service rs (view s) ms (view s')"
  using assms
proof (induction rs arbitrary: s)
  case Nil
  show ?case by (rule exI [of _ "[]"], rule exI [of _ s]) (simp add: same_client_def Nil)
next
  case (Cons r rs)
  then obtain es s1 ms where s1: "scheduled r es" "run_events es s = Some (Inr s1)" "idle s1" "same_client s s1"
      "sent_log s1 = sent_log s @ map encode ms" "service r (view s) ms (view s1)"
    using answers [of s r] by auto
  have "list_all (sound s1) rs"
    using Cons.prems(2) sound_client [OF s1(4)] by (auto simp: list_all_iff)
  from Cons.IH [OF s1(3) this] obtain ess s2 ns where s2: "list_all2 scheduled rs ess"
      "run_events (concat ess) s1 = Some (Inr s2)" "idle s2" "same_client s1 s2"
      "sent_log s2 = sent_log s1 @ map encode ns" "service_run service rs (view s1) ns (view s2)"
    by blast
  have "run_events (concat (es # ess)) s = Some (Inr s2)"
    using run_events_append [OF s1(2), of "concat ess"] s2(2) by simp
  moreover have "same_client s s2" using s1(4) s2(4) by (simp add: same_client_def)
  moreover have "service_run service (r # rs) (view s) (ms @ ns) (view s2)"
    using s1(6) s2(6) by (rule service_run.more)
  ultimately show ?case
    using s1(1,5) s2(1,3,5) by (intro exI [of _ "es # ess"] exI [of _ s2] exI [of _ "ms @ ns"]) simp
qed

end

text \<open>A listing names every path of a map once, each on a line of its own.\<close>

definition is_listing :: "(string \<rightharpoonup> File) \<Rightarrow> string \<Rightarrow> bool" where
  "is_listing m text \<longleftrightarrow> (\<exists>ps. distinct ps \<and> set ps = dom m \<and> text = concat (map (\<lambda>p. p @ [CHR 0x0A]) ps))"

lemma is_listing_one: "is_listing [p \<mapsto> f] text \<Longrightarrow> text = p @ [CHR 0x0A]"
proof -
  assume "is_listing [p \<mapsto> f] text"
  then obtain ps where ps: "distinct ps" "set ps = {p}" "text = concat (map (\<lambda>p. p @ [CHR 0x0A]) ps)"
    by (auto simp: is_listing_def)
  then obtain qs where "ps = p # qs" "p \<notin> set qs" by (cases ps) auto
  then have "ps = [p]" using ps(2) by (cases qs) auto
  with ps(3) show ?thesis by simp
qed

lemma directory_listing_lists: "fs_inv m \<Longrightarrow> is_listing (fs_map m) (directory_listing m)"
  using memfs.list_abs [of m] by (auto simp: is_listing_def directory_listing_def)

end
