(* ===== verification/Ftp_Machine.thy ===== *)
theory Ftp_Machine
  imports Ftp_Dialogue Session_Dialogue
begin

text \<open>
  FTP as a service: an automaton over an account (who the client is, where it is, which files
  there are, how the data connection is set up, what has been delivered), and the proof that
  \<open>handleFtp\<close> and the transfers serve every list of commands the way the automaton does.
\<close>

section \<open>The automaton\<close>

text \<open>
  Logging in: nobody is logged in (the name last given is kept), a password is asked for, or the
  user is known.
\<close>

datatype login = Nobody string | Asked string | Known User

record account =
  acc_users :: UserDatabase
  acc_login :: login
  acc_dir :: string
  acc_files :: "string \<rightharpoonup> File"
  acc_acceptor :: acceptor
  acc_address :: "8 word list option"
  acc_delivered :: "File list"

fun name_given :: "login \<Rightarrow> string" where
  "name_given (Nobody n) = n"
| "name_given (Asked n) = n"
| "name_given (Known u) = username u"

text \<open>Every command but USER ends the wait for a password.\<close>

fun not_asked :: "login \<Rightarrow> login" where
  "not_asked (Asked n) = Nobody n"
| "not_asked (Nobody n) = Nobody n"
| "not_asked (Known u) = Known u"

datatype transfer = No_Transfer | Send File | Store string

definition set_up :: "acceptor_env \<Rightarrow> acceptor" where
  "set_up env = (if \<not> open_ok env then Closed
     else if bind_ok env \<and> listen_ok env then Listening (bound_port env) else Opened)"

text \<open>The commands that want a known user; \<open>listing\<close> is what the store lists.\<close>

definition known_command ::
    "acceptor_env \<Rightarrow> File \<Rightarrow> FtpCommand \<Rightarrow> string list \<Rightarrow> account \<Rightarrow> FtpResponse \<times> account \<times> transfer" where
  "known_command env listing c args a =
     (case c of
        FtpCommand.List \<Rightarrow>
          (FtpResponse2 FILE_STATUS_OK_OPENING_DATA_CONNECTION ''Listing all objects stored'', a, Send listing)
      | Retr \<Rightarrow>
          if \<not> is_open (acc_acceptor a) then
            (FtpResponse2 ERROR_OPENING_DATA_CONNECTION ''Error opening data connection'', a, No_Transfer)
          else
            (case acc_files a (acc_dir a @ hd args) of
               Some f \<Rightarrow> (FtpResponse2 FILE_STATUS_OK_OPENING_DATA_CONNECTION ''Sending file'', a, Send f)
             | None \<Rightarrow> (FtpResponse2 ACTION_NOT_TAKEN ''File not found'', a, No_Transfer))
      | Stor \<Rightarrow>
          if length args \<noteq> 1 then
            (FtpResponse2 SYNTAX_ERROR_PARAMETERS ''No file specified'', a, No_Transfer)
          else if \<not> is_open (acc_acceptor a) then
            (FtpResponse2 ERROR_OPENING_DATA_CONNECTION ''Faile to open data connection'', a, No_Transfer)
          else
            (FtpResponse2 FILE_STATUS_OK_OPENING_DATA_CONNECTION ''Ready to receive'', a,
             Store (acc_dir a @ hd args))
      | Dele \<Rightarrow>
          if acc_files a (hd args) = None then
            (FtpResponse2 ACTION_NOT_TAKEN ''Unable to delete file'', a, No_Transfer)
          else
            (FtpResponse2 FILE_ACTION_COMPLETED ''File deleted'',
             a\<lparr>acc_files := (acc_files a)(hd args := None)\<rparr>, No_Transfer)
      | Pasv \<Rightarrow>
          (case set_up env of
             Listening p \<Rightarrow>
               (FtpResponse2 ENTERING_PASSIVE_MODE
                  (''Entering passive mode '' @ passive_endpoint (the (acc_address a)) p),
                a\<lparr>acc_acceptor := Listening p\<rparr>, No_Transfer)
           | broken \<Rightarrow>
               (FtpResponse2 SERVICE_NOT_AVAILABLE ''Passive mode not supported'',
                a\<lparr>acc_acceptor := broken\<rparr>, No_Transfer))
      | Cwd \<Rightarrow>
          if length args \<noteq> 1 then
            (FtpResponse2 SYNTAX_ERROR_PARAMETERS ''No directory specified'', a, No_Transfer)
          else
            (FtpResponse2 FILE_ACTION_COMPLETED ''Working directory changed'',
             a\<lparr>acc_dir := acc_dir a @ hd args @ ''/''\<rparr>, No_Transfer)
      | _ \<Rightarrow> (FtpResponse2 COMMAND_OK ''Mode switched'', a, No_Transfer))"

definition user_command :: "string list \<Rightarrow> account \<Rightarrow> FtpResponse \<times> account \<times> transfer" where
  "user_command args a =
     (case args of
        [n] \<Rightarrow> (FtpResponse2 USER_NAME_OK ''Please provide password'', a\<lparr>acc_login := Asked n\<rparr>, No_Transfer)
      | _ \<Rightarrow> (FtpResponse2 SYNTAX_ERROR_PARAMETERS ''No username provided'',
             a\<lparr>acc_login := Asked (name_given (acc_login a))\<rparr>, No_Transfer))"

definition pass_command :: "string list \<Rightarrow> account \<Rightarrow> FtpResponse \<times> account \<times> transfer" where
  "pass_command args a =
     (case acc_login a of
        Asked n \<Rightarrow>
          (case args of
             [w] \<Rightarrow>
               let u = \<lparr>username = n, password = w\<rparr> in
               if db_verify (acc_users a) u
               then (FtpResponse2 USER_LOGGED_IN ''Login successful'', a\<lparr>acc_login := Known u\<rparr>, No_Transfer)
               else (FtpResponse2 NOT_LOGGED_IN ''Failed to log in'', a\<lparr>acc_login := Nobody n\<rparr>, No_Transfer)
           | _ \<Rightarrow> (FtpResponse2 SYNTAX_ERROR_PARAMETERS ''No password provided'',
                  a\<lparr>acc_login := Nobody n\<rparr>, No_Transfer))
      | _ \<Rightarrow> (FtpResponse2 COMMANDS_BAD_SEQUENCE ''Please specify username first'', a, No_Transfer))"

definition command_answer ::
    "acceptor_env \<Rightarrow> File \<Rightarrow> FtpCommand option \<Rightarrow> string list \<Rightarrow> account \<Rightarrow> FtpResponse \<times> account \<times> transfer" where
  "command_answer env listing command args a =
     (case command of
        None \<Rightarrow> (FtpResponse1 SYNTAX_ERROR_UNRECOGNIZED_COMMAND, a, No_Transfer)
      | Some FtpCommand.User \<Rightarrow> user_command args a
      | Some Pass \<Rightarrow> pass_command args a
      | Some Quit \<Rightarrow> (FtpResponse2 SERVICE_CLOSING_CONTROL_CONNECTION ''Connection closed'',
          a\<lparr>acc_login := Nobody [], acc_dir := ''/''\<rparr>, No_Transfer)
      | Some c \<Rightarrow>
          (case acc_login a of
             Known u \<Rightarrow> known_command env listing c args a
           | _ \<Rightarrow> (FtpResponse2 NOT_LOGGED_IN ''Not logged in'',
                  a\<lparr>acc_login := not_asked (acc_login a)\<rparr>, No_Transfer)))"

text \<open>
  The transfer that follows: over the data connection when the acceptor listens; otherwise it is
  aborted with the text of the error.
\<close>

definition transfer_answer ::
    "string \<Rightarrow> string \<Rightarrow> transfer \<Rightarrow> account \<Rightarrow> FtpResponse list \<times> account" where
  "transfer_answer abort upload t a =
     (case t of
        No_Transfer \<Rightarrow> ([], a)
      | Send f \<Rightarrow>
          (case acc_acceptor a of
             Listening p \<Rightarrow> ([FtpResponse2 CLOSING_DATA_CONNECTION ''Done''],
               a\<lparr>acc_delivered := acc_delivered a @ [f]\<rparr>)
           | _ \<Rightarrow> ([FtpResponse2 TRANSFER_ABORTED (''Data transfer aborted: '' @ abort)], a))
      | Store path \<Rightarrow>
          (case acc_acceptor a of
             Listening p \<Rightarrow>
               if acc_files a path = None then
                 ([FtpResponse2 CLOSING_DATA_CONNECTION ''File saved''],
                  a\<lparr>acc_files := (acc_files a)(path \<mapsto> upload)\<rparr>)
               else ([FtpResponse2 FILE_ACTION_NOT_TAKEN ''File not saved''], a)
           | _ \<Rightarrow> ([FtpResponse2 TRANSFER_ABORTED (''Data transfer aborted: '' @ abort)], a)))"

section \<open>The account of a session\<close>

definition login_of :: "session \<Rightarrow> login" where
  "login_of s =
     (case logged_in_user s of
        Some u \<Rightarrow> Known u
      | None \<Rightarrow> if last_ftp_command s = FtpCommand.User then Asked (last_username s) else Nobody (last_username s))"

definition account_of :: "session \<Rightarrow> account" where
  "account_of s =
     \<lparr>acc_users = user_database s, acc_login = login_of s, acc_dir = current_working_dir s,
      acc_files = fs_map (filesystem s), acc_acceptor = ftp_data_acceptor s,
      acc_address = local_address s, acc_delivered = map snd (data_wire s)\<rparr>"

text \<open>
  Right after USER nobody is logged in, and who is logged in has given his name last: the two
  members say no more than the state of the automaton.
\<close>

definition login_inv :: "session \<Rightarrow> bool" where
  "login_inv s \<longleftrightarrow>
     (last_ftp_command s = FtpCommand.User \<longrightarrow> logged_in_user s = None)
     \<and> (\<forall>u. logged_in_user s = Some u \<longrightarrow> username u = last_username s)"

text \<open>The transfer a command has left to be done.\<close>

definition waits_for :: "transfer \<Rightarrow> nat \<Rightarrow> session \<Rightarrow> bool" where
  "waits_for t k s \<longleftrightarrow>
     (let a = (case ftp_data_acceptor s of Listening _ \<Rightarrow> True | _ \<Rightarrow> False) in
      case t of
        No_Transfer \<Rightarrow> True
      | Send f \<Rightarrow> \<lparr>can_succeed = a, on_accept = SendOnAccept k f\<rparr> \<in> set (accepts s)
      | Store path \<Rightarrow> \<lparr>can_succeed = a, on_accept = ReceiveOnAccept k [] path\<rparr> \<in> set (accepts s))"

section \<open>A command line of words\<close>

lemma token_word: "map sv_chars (ftp_tokens p) = ws \<Longrightarrow> i < length ws \<Longrightarrow> token p i = Inr (ws ! i)"
  by (auto simp: token_def vector_at_def)

lemma parse_ftp_any_words:
  assumes "ws \<noteq> []" and "\<forall>w \<in> set ws. CHR '' '' \<notin> set w" and "join '' '' ws \<noteq> []"
  obtains p where "parse_ftp (join '' '' ws @ crlf) = Inr p" "map sv_chars (ftp_tokens p) = ws"
    "ftp_valid p \<longleftrightarrow> kCommandMap (toUpperCase (hd ws)) \<noteq> None"
    "\<And>c. kCommandMap (toUpperCase (hd ws)) = Some c \<Longrightarrow> ftp_command p = c"
proof -
  let ?ts = "tokens_of '' '' \<lparr>sv_chars = join '' '' ws, sv_after = crlf\<rparr>"
  have m: "map sv_chars ?ts = ws" by (rule tokens_of_words [OF assms(1,2)])
  then have "sv_chars (hd ?ts) = hd ws" by (metis assms(1) list.map_sel(1) list.map_disc_iff)
  with m show thesis
    by (intro that [of "case kCommandMap (toUpperCase (hd ws)) of
           None \<Rightarrow> \<lparr>ftp_valid = False, ftp_command = FtpCommand.Unrecognized, ftp_tokens = ?ts\<rparr>
         | Some c \<Rightarrow> \<lparr>ftp_valid = True, ftp_command = c, ftp_tokens = ?ts\<rparr>"])
      (auto simp: parse_ftp_line [OF assms(3)] split: option.splits)
qed

text \<open>
  A handler answers as the automaton says: one reply, the account, the transfer left to be done.
\<close>

definition answers_as ::
    "session \<Rightarrow> FtpResponse \<times> account \<times> transfer \<Rightarrow> session \<Rightarrow> bool" where
  "answers_as s out s' \<longleftrightarrow>
     (case out of (r, a, t) \<Rightarrow>
        sent_log s' = sent_log s @ [ftp_serialise r] \<and> account_of s' = a \<and> waits_for t (next_socket s) s'
        \<and> login_inv s')"

definition handled :: "FtpCommand \<Rightarrow> session \<Rightarrow> session" where
  "handled c s = s\<lparr>last_ftp_command := c\<rparr>"

lemmas machine_defs = handler_simps answers_as_def account_of_def login_of_def login_inv_def waits_for_def
  sendMessage_def known_command_def

lemma user_answers:
  assumes "login_inv s" "map sv_chars (ftp_tokens p) = w # args"
  shows "\<exists>s'. handleFtpUser p s = Inr s'
    \<and> answers_as s (user_command args (account_of s)) (handled FtpCommand.User s')"
proof -
  have "length (ftp_tokens p) = Suc (length args)" using arg_cong [OF assms(2), of length] by simp
  with assms show ?thesis
    by (auto simp: handled_def user_command_def token_word machine_defs length_Suc_conv split: list.splits option.splits)
qed

lemma words_length: "map sv_chars (ftp_tokens p) = w # args \<Longrightarrow> length (ftp_tokens p) = Suc (length args)"
  by (metis length_map length_Cons)

lemma pass_answers:
  assumes "login_inv s" "map sv_chars (ftp_tokens p) = w # args"
  shows "\<exists>s'. handleFtpPass p s = Inr s'
    \<and> answers_as s (pass_command args (account_of s)) (handled Pass s')"
proof (cases "last_ftp_command s = FtpCommand.User")
  case False
  with assms(1) show ?thesis
    by (auto simp: handled_def pass_command_def machine_defs split: option.splits)
next
  case True
  then have n: "logged_in_user s = None" using assms(1) by (simp add: login_inv_def)
  show ?thesis
  proof (cases "length args = 1")
    case False
    with assms n True words_length [OF assms(2)] show ?thesis
      by (auto simp: handled_def pass_command_def machine_defs split: list.splits)
  next
    case True
    then obtain x where "args = [x]" by (auto simp: length_Suc_conv)
    moreover from this assms(2) have "token p 1 = Inr x" "length (ftp_tokens p) = 2"
      using token_word [OF assms(2), of 1] words_length [OF assms(2)] by simp_all
    ultimately show ?thesis
      using n \<open>last_ftp_command s = FtpCommand.User\<close>
      by (simp add: handled_def pass_command_def machine_defs)
  qed
qed

lemma quit_answers:
  assumes "login_inv s"
  shows "\<exists>s'. handleFtpQuit p s = Inr s'
    \<and> answers_as s (command_answer env l (Some Quit) args (account_of s)) (handled Quit s')"
  by (simp add: handled_def command_answer_def machine_defs)

lemma unknown_answers:
  assumes "login_inv s" "logged_in_user s = None" "c \<noteq> FtpCommand.User"
  shows "answers_as s (FtpResponse2 NOT_LOGGED_IN ''Not logged in'',
      (account_of s)\<lparr>acc_login := not_asked (acc_login (account_of s))\<rparr>, No_Transfer) (handled c (not_logged_in s))"
  using assms by (simp add: handled_def machine_defs)

text \<open>The handlers that want a known user, asked by one.\<close>

definition asks :: "session \<Rightarrow> FtpParser \<Rightarrow> string list \<Rightarrow> bool" where
  "asks s p args \<longleftrightarrow> login_inv s \<and> fs_inv (filesystem s) \<and> logged_in_user s \<noteq> None
     \<and> length (ftp_tokens p) = Suc (length args) \<and> (args \<noteq> [] \<longrightarrow> token p 1 = Inr (hd args))"

lemma asks_words:
  assumes "login_inv s" "fs_inv (filesystem s)" "logged_in_user s \<noteq> None"
    and "map sv_chars (ftp_tokens p) = w # args"
  shows "asks s p args"
  using assms words_length [OF assms(4)] token_word [OF assms(4), of 1]
  by (auto simp: asks_def hd_conv_nth)

lemma list_answers:
  assumes "asks s p args"
  shows "\<exists>s'. handleFtpList p s = Inr s'
    \<and> answers_as s (known_command env (directory_listing (filesystem s)) FtpCommand.List args (account_of s))
        (handled FtpCommand.List s')"
  using assms by (auto simp: asks_def handled_def machine_defs)

lemma retr_answers:
  assumes "asks s p args" "args \<noteq> []"
  shows "\<exists>s'. handleFtpRetr p s = Inr s'
    \<and> answers_as s (known_command env l Retr args (account_of s)) (handled Retr s')"
  using assms by (auto simp: asks_def handled_def machine_defs fs_get_def exists_def fs_map_def split: option.splits)

lemma stor_answers:
  assumes "asks s p args"
  shows "\<exists>s'. handleFtpStor p s = Inr s'
    \<and> answers_as s (known_command env l Stor args (account_of s)) (handled Stor s')"
  using assms by (auto simp: asks_def handled_def machine_defs length_Suc_conv)

lemma dele_answers:
  assumes "asks s p args" "args \<noteq> []"
  shows "\<exists>s'. handleFtpDele p s = Inr s'
    \<and> answers_as s (known_command env l Dele args (account_of s)) (handled Dele s')"
proof -
  have inv: "fs_inv (filesystem s)" using assms(1) by (simp add: asks_def)
  have "(fs_map (filesystem s))(hd args := None) = fs_map (filesystem s)"
    if "fs_map (filesystem s) (hd args) = None"
    using that by (simp add: fun_upd_idem)
  with assms memfs.remove_status [OF inv, of "hd args"] memfs.remove_abs [OF inv, of "hd args"] show ?thesis
    by (cases "fs_remove (filesystem s) (hd args)") (auto simp: asks_def handled_def machine_defs domIff)
qed

lemma pasv_answers:
  assumes "asks s p args" "local_address s \<noteq> None"
  shows "\<exists>s'. handleFtpPasv env p s = Inr s'
    \<and> answers_as s (known_command env l Pasv args (account_of s)) (handled Pasv s')"
  using assms by (auto simp: asks_def handled_def machine_defs set_up_def is_open_def)

lemma type_answers:
  assumes "asks s p args"
  shows "\<exists>s'. handleFtpType p s = Inr s'
    \<and> answers_as s (known_command env l FtpCommand.Type args (account_of s)) (handled FtpCommand.Type s')"
  using assms by (auto simp: asks_def handled_def machine_defs)

lemma cwd_answers:
  assumes "asks s p args"
  shows "\<exists>s'. handleFtpCwd p s = Inr s'
    \<and> answers_as s (known_command env l Cwd args (account_of s)) (handled Cwd s')"
  using assms by (auto simp: asks_def handled_def machine_defs length_Suc_conv)

section \<open>The dispatcher\<close>

text \<open>
  A command line the client may say: words without spaces and line breaks in them, no HTTP in
  the line, and an argument where the session reads one without looking.
\<close>

definition sound_words :: "string list \<Rightarrow> bool" where
  "sound_words ws \<longleftrightarrow>
     ws \<noteq> [] \<and> list_all (\<lambda>w. CHR '' '' \<notin> set w \<and> no_cr w) ws \<and> join '' '' ws \<noteq> []
     \<and> \<not> occurs ''HTTP'' (join '' '' ws)
     \<and> (kCommandMap (toUpperCase (hd ws)) \<in> {Some Retr, Some Dele} \<longrightarrow> tl ws \<noteq> [])"

lemma join_no_cr: "list_all no_cr ws \<Longrightarrow> no_cr (join '' '' ws)"
  by (induction "'' ''" ws rule: join.induct) simp_all

lemma sound_wordsD:
  assumes "sound_words ws"
  shows "ws \<noteq> []" "\<forall>w \<in> set ws. CHR '' '' \<notin> set w" "join '' '' ws \<noteq> []" "no_cr (join '' '' ws)"
    "\<not> occurs ''HTTP'' (join '' '' ws)"
  using assms join_no_cr [of ws] by (auto simp: sound_words_def list_all_iff)

lemma answers_as_receive [simp]: "answers_as s out (receiveMessage s') = answers_as s out s'"
proof -
  have "account_of (receiveMessage s') = account_of s'" "login_inv (receiveMessage s') = login_inv s'"
    "waits_for t k (receiveMessage s') = waits_for t k s'" "sent_log (receiveMessage s') = sent_log s'" for t k
    by (auto simp: account_of_def login_of_def login_inv_def waits_for_def receiveMessage_def
        split: option.splits transfer.splits)
  then show ?thesis by (simp add: answers_as_def)
qed

lemma known_answers:
  assumes "asks s p args" "local_address s \<noteq> None"
    and "c \<in> {Retr, Dele} \<longrightarrow> args \<noteq> []"
    and "c \<notin> {FtpCommand.User, Pass, Quit, FtpCommand.Unrecognized}" "ftp_handlers env c = Some handle"
  shows "\<exists>s'. handle p s = Inr s' \<and> answers_as s
    (known_command env (directory_listing (filesystem s)) c args (account_of s)) (handled c s')"
  using assms list_answers [OF assms(1)] retr_answers [OF assms(1)] stor_answers [OF assms(1)]
    dele_answers [OF assms(1)] pasv_answers [OF assms(1,2)] type_answers [OF assms(1)] cwd_answers [OF assms(1)]
  by (cases c) (auto simp: ftp_handlers_def)

lemma refused_answers:
  assumes "login_inv s" "logged_in_user s = None" "ftp_handlers env c = Some handle"
    and "c \<notin> {FtpCommand.User, Pass, Quit, FtpCommand.Unrecognized}"
  shows "handle p s = Inr (not_logged_in s)"
  using assms list_handler.refuses [OF assms(2)] retr_handler.refuses [OF assms(2)]
    stor_handler.refuses [OF assms(2)] dele_handler.refuses [OF assms(2)]
    pasv_handler.refuses [OF assms(2)] type_handler.refuses [OF assms(2)] cwd_handler.refuses [OF assms(2)]
  by (cases c) (auto simp: ftp_handlers_def)

lemma known_login: "acc_login (account_of s) = Known u \<longleftrightarrow> logged_in_user s = Some u"
  by (auto simp: account_of_def login_of_def split: option.splits)

lemma command_answers:
  assumes "login_inv s" "fs_inv (filesystem s)" "local_address s \<noteq> None"
    and "map sv_chars (ftp_tokens p) = w # args" "c \<in> {Retr, Dele} \<longrightarrow> args \<noteq> []"
    and "c \<noteq> FtpCommand.Unrecognized" "ftp_handlers env c = Some handle"
  shows "\<exists>s'. handle p s = Inr s' \<and> answers_as s
    (command_answer env (directory_listing (filesystem s)) (Some c) args (account_of s)) (handled c s')"
proof (cases "c \<in> {FtpCommand.User, Pass, Quit}")
  case True
  with assms(7) user_answers [OF assms(1,4)] pass_answers [OF assms(1,4)] quit_answers [OF assms(1)]
  show ?thesis by (auto simp: ftp_handlers_def command_answer_def)
next
  case False
  show ?thesis
  proof (cases "logged_in_user s")
    case None
    then have "\<And>u. acc_login (account_of s) \<noteq> Known u" by (simp add: known_login)
    with False assms(6) refused_answers [OF assms(1) None assms(7)] unknown_answers [OF assms(1) None, of c]
    show ?thesis by (cases c) (auto simp: command_answer_def split: login.splits)
  next
    case (Some u)
    then have "asks s p args" using asks_words assms(1,2,4) by simp
    with False known_answers [OF this assms(3,5) _ assms(7)] Some assms(6) known_login [of s u] show ?thesis
      by (cases c) (simp_all add: command_answer_def)
  qed
qed

lemma handleFtp_answers:
  assumes "login_inv s" "fs_inv (filesystem s)" "local_address s \<noteq> None" "sound_words ws"
  shows "\<exists>s'. handleFtp env (join '' '' ws @ crlf) s = Inr s' \<and> answers_as s
    (command_answer env (directory_listing (filesystem s)) (kCommandMap (toUpperCase (hd ws))) (tl ws)
      (account_of s)) s'"
proof -
  note ws = sound_wordsD [OF assms(4)]
  obtain p where p: "parse_ftp (join '' '' ws @ crlf) = Inr p" "map sv_chars (ftp_tokens p) = ws"
      "ftp_valid p \<longleftrightarrow> kCommandMap (toUpperCase (hd ws)) \<noteq> None"
      "\<And>c. kCommandMap (toUpperCase (hd ws)) = Some c \<Longrightarrow> ftp_command p = c"
    by (rule parse_ftp_any_words [OF ws(1-3)]) blast
  show ?thesis
  proof (cases "kCommandMap (toUpperCase (hd ws))")
    case None
    with p assms(1) show ?thesis
      by (auto simp: handleFtp_def command_answer_def machine_defs split: option.splits)
  next
    case (Some c)
    then have u: "c \<noteq> FtpCommand.Unrecognized" by (rule kCommandMap_recognised)
    then obtain handle where h: "ftp_handlers env c = Some handle" by (cases c) (auto simp: ftp_handlers_def)
    have a: "map sv_chars (ftp_tokens p) = hd ws # tl ws" "c \<in> {Retr, Dele} \<longrightarrow> tl ws \<noteq> []"
      using assms(4) Some p(2) ws(1) by (auto simp: sound_words_def)
    obtain s1 where "handle p s = Inr s1" "answers_as s
        (command_answer env (directory_listing (filesystem s)) (Some c) (tl ws) (account_of s)) (handled c s1)"
      using command_answers [OF assms(1-3) a u h] by blast
    with Some h p show ?thesis by (simp add: handleFtp_def handled_def)
  qed
qed

section \<open>The transfers\<close>

fun data_event :: "event \<Rightarrow> bool" where
  "data_event (AcceptDone a error) = True"
| "data_event RunDataTask = True"
| "data_event (DataWritten w ok) = True"
| "data_event (FileRead r chunk error) = True"
| "data_event e = False"

fun chunks :: "event list \<Rightarrow> string list" where
  "chunks [] = []"
| "chunks (FileRead r chunk error # es) = chunk # chunks es"
| "chunks (e # es) = chunks es"

text \<open>What the data connection does not touch.\<close>

definition same_desk :: "session \<Rightarrow> session \<Rightarrow> bool" where
  "same_desk s s' \<longleftrightarrow>
     last_username s' = last_username s \<and> last_ftp_command s' = last_ftp_command s
     \<and> logged_in_user s' = logged_in_user s \<and> current_working_dir s' = current_working_dir s
     \<and> ftp_data_acceptor s' = ftp_data_acceptor s \<and> local_address s' = local_address s
     \<and> user_database s' = user_database s \<and> authenticate s' = authenticate s"

lemma data_event_desk:
  assumes "session_step s e (Inr s')" "data_event e"
  shows "same_desk s s'"
  using assms
proof (cases rule: session_stepE)
  case (run_data_task t ts)
  then show ?thesis
    by (cases t) (auto simp: same_desk_def completion_defs fs_add_def split: list.splits option.splits if_splits)
next
  case (accept_done a error)
  then show ?thesis
    by (cases error; cases "on_accept a") (auto simp: same_desk_def completion_defs)
qed (auto simp: same_desk_def completion_defs split: list.splits if_splits)

lemma data_events_desk:
  assumes "run_events es s = Some (Inr s')" "list_all data_event es"
  shows "same_desk s s'"
  using assms
proof (induction es arbitrary: s)
  case (Cons e es)
  then obtain s1 where s1: "react e s = Some (Inr s1)" "run_events es s1 = Some (Inr s')"
    by (auto split: option.splits sum.splits if_splits)
  then have "same_desk s s1" using data_event_desk Cons.prems(2) session_step_iff by simp
  moreover have "same_desk s1 s'" using Cons s1(2) by simp
  ultimately show ?case by (simp add: same_desk_def)
qed (simp add: same_desk_def)

lemma upload_events_data:
  "list_all data_event (upload_events r cs last_chunk)" "chunks (upload_events r cs last_chunk) = cs @ [last_chunk]"
  by (induction r cs last_chunk rule: upload_events.induct) simp_all

lemma download_events_data:
  "list_all data_event (download_events a k f)" "chunks (download_events a k f) = []"
  by (simp_all add: download_events_def)

lemma desk_account:
  "same_desk s s' \<Longrightarrow> account_of s' = (account_of s)
    \<lparr>acc_files := fs_map (filesystem s'), acc_delivered := map snd (data_wire s')\<rparr>"
  "same_desk s s' \<Longrightarrow> login_inv s' = login_inv s"
  by (auto simp: same_desk_def account_of_def login_of_def login_inv_def split: option.splits)

text \<open>What is left to be done for a command, done.\<close>

definition completes ::
    "session \<Rightarrow> string list \<Rightarrow> FtpResponse list \<times> account \<Rightarrow> event list \<Rightarrow> session \<Rightarrow> bool" where
  "completes s upload out es s' \<longleftrightarrow>
     list_all data_event es \<and> chunks es \<in> {[], upload} \<and> run_events es s = Some (Inr s')
     \<and> sent_log s' = sent_log s @ map ftp_serialise (fst out) \<and> account_of s' = snd out
     \<and> data_idle s' \<and> same_control s s' \<and> fs_inv (filesystem s')"

lemma abort_completes:
  assumes "data_idle s" "a \<in> set (accepts s)" "single_line text" "fs_inv (filesystem s)"
  shows "\<exists>es s'. completes s upload
    ([FtpResponse2 TRANSFER_ABORTED (''Data transfer aborted: '' @ text)], account_of s) es s'"
  using assms
  by (intro exI [of _ "[AcceptDone a (Some text)]"] exI)
    (auto simp: completes_def completion_defs data_idle_def same_control_def same_client_def pending_def
      account_of_def login_of_def split: option.splits)

lemma send_completes:
  assumes "data_idle s" "waits_for (Send f) k s" "fs_inv (filesystem s)" "single_line text"
  shows "\<exists>es s'. completes s upload (transfer_answer text body (Send f) (account_of s)) es s'"
proof (cases "\<exists>p. ftp_data_acceptor s = Listening p")
  case True
  let ?a = "\<lparr>can_succeed = True, on_accept = SendOnAccept k f\<rparr>"
  obtain p where p: "acc_acceptor (account_of s) = Listening p" using True by (auto simp: account_of_def)
  have "?a \<in> set (accepts s)" using assms(2) True by (auto simp: waits_for_def)
  then obtain s' where s': "run_events (download_events ?a k f @ []) s = run_events [] s'" "data_idle s'"
      "data_wire s' = data_wire s @ [(k, f)]"
      "sent_log s' = sent_log s @ [ftp_message CLOSING_DATA_CONNECTION ''Done'']"
      "filesystem s' = filesystem s" "same_control s s'"
    by (rule download_run [OF assms(1), where es = "[]"]) simp_all
  have "same_desk s s'" using s'(1) download_events_data by (intro data_events_desk) simp_all
  from desk_account(1) [OF this] s' assms(3) p download_events_data show ?thesis
    by (intro exI [of _ "download_events ?a k f"] exI [of _ s'])
      (simp add: completes_def transfer_answer_def ftp_message_def account_of_def)
next
  case False
  then have "\<exists>a. a \<in> set (accepts s)" using assms(2) by (auto simp: waits_for_def)
  then obtain a where "a \<in> set (accepts s)" ..
  with abort_completes [OF assms(1) this assms(4,3)] False show ?thesis
    by (auto simp: transfer_answer_def account_of_def split: acceptor.splits)
qed

lemma store_completes:
  assumes "data_idle s" "waits_for (Store path) k s" "fs_inv (filesystem s)" "single_line text"
    and "\<forall>c \<in> set cs. length c = receive_buffer_size" "length last_chunk \<le> receive_buffer_size"
  shows "\<exists>es s'. completes s (cs @ [last_chunk])
    (transfer_answer text (concat cs @ last_chunk) (Store path) (account_of s)) es s'"
proof (cases "\<exists>p. ftp_data_acceptor s = Listening p")
  case True
  let ?a = "\<lparr>can_succeed = True, on_accept = ReceiveOnAccept k [] path\<rparr>"
  let ?r = "\<lparr>read_socket = k, read_file = [], read_path = path\<rparr>"
  let ?es = "AcceptDone ?a None # upload_events ?r cs last_chunk"
  let ?s1 = "accept_done (ReceiveOnAccept k [] path) None (s\<lparr>accepts := remove1 ?a (accepts s)\<rparr>)"
  obtain p where p: "acc_acceptor (account_of s) = Listening p" using True by (auto simp: account_of_def)
  have "?a \<in> set (accepts s)" using assms(2) True by (auto simp: waits_for_def)
  then have r: "run_events ?es s = run_events (upload_events ?r cs last_chunk) ?s1" by simp
  note s1 = accept_done_def receiveFile_def data_idle_def
  have "ftp_data_serializer ?s1 = []" "?r \<in> set (file_reads ?s1)" "fs_inv (filesystem ?s1)"
    using assms(1,3) by (simp_all add: s1)
  then obtain s' where u: "run_events (upload_events ?r cs last_chunk @ []) ?s1 = run_events [] s'"
      "data_tasks [] ?s1 s'" "same_control ?s1 s'"
      "filesystem s' = snd (fs_add (filesystem ?s1) (read_path ?r) (read_file ?r @ concat cs @ last_chunk))"
      "sent_log s' = sent_log ?s1 @ [stor_message (filesystem ?s1) (read_path ?r)]"
    using assms(5,6) by (rule upload_run [where es = "[]"])
  have run: "run_events ?es s = Some (Inr s')" using r u(1) by simp
  have "same_desk s s'" by (rule data_events_desk [OF run]) (simp add: upload_events_data)
  from desk_account(1) [OF this] have "account_of s' = (account_of s)\<lparr>acc_files := fs_map (filesystem s')\<rparr>"
    using u(2) by (simp add: data_tasks_def s1 account_of_def)
  moreover have "fs_map (filesystem s') = (if fs_map (filesystem s) path = None
      then (fs_map (filesystem s))(path \<mapsto> concat cs @ last_chunk) else fs_map (filesystem s))"
    using u(4) assms(3) by (auto simp: s1 memfs.add_abs domIff)
  moreover have "data_idle s'" "same_control s s'" "fs_inv (filesystem s')"
    using u(2-4) assms(1,3) memfs.add_inv [of "filesystem s"]
    by (simp_all add: data_tasks_def s1 same_control_def same_client_def pending_def)
  ultimately show ?thesis using u(5) run p upload_events_data
    by (intro exI [of _ ?es] exI [of _ s'])
      (simp add: completes_def transfer_answer_def stor_message_def ftp_message_def s1 account_of_def)
next
  case False
  then have "\<exists>a. a \<in> set (accepts s)" using assms(2) by (auto simp: waits_for_def)
  then obtain a where "a \<in> set (accepts s)" ..
  with abort_completes [OF assms(1) this assms(4,3)] False show ?thesis
    by (auto simp: transfer_answer_def account_of_def split: acceptor.splits)
qed

lemma transfer_completes:
  assumes "data_idle s" "waits_for t k s" "fs_inv (filesystem s)" "single_line text"
    and "\<forall>c \<in> set cs. length c = receive_buffer_size" "length last_chunk \<le> receive_buffer_size"
  shows "\<exists>es s'. completes s (cs @ [last_chunk])
    (transfer_answer text (concat cs @ last_chunk) t (account_of s)) es s'"
proof (cases t)
  case No_Transfer
  with assms(1,3) show ?thesis
    by (intro exI [of _ "[]"] exI [of _ s])
      (simp add: completes_def transfer_answer_def same_control_def same_client_def)
qed (use assms send_completes store_completes in blast)+

section \<open>The service\<close>

text \<open>
  A command as the client sends it: its words, how the line is cut on the way, what the system
  answers when the data acceptor is set up or an accept fails, and the pieces in which the data
  of an upload come.
\<close>

record client_command =
  cmd_words :: "string list"
  cmd_pieces :: "string list"
  cmd_env :: acceptor_env
  cmd_abort :: string
  cmd_chunks :: "string list"
  cmd_last :: string

definition sound_command :: "client_command \<Rightarrow> bool" where
  "sound_command r \<longleftrightarrow>
     sound_words (cmd_words r) \<and> concat (cmd_pieces r) = join '' '' (cmd_words r) @ crlf
     \<and> [] \<notin> set (cmd_pieces r) \<and> single_line (cmd_abort r)
     \<and> list_all (\<lambda>c. length c = receive_buffer_size) (cmd_chunks r)
     \<and> length (cmd_last r) \<le> receive_buffer_size"

definition command_schedule :: "client_command \<Rightarrow> event list \<Rightarrow> bool" where
  "command_schedule r es \<longleftrightarrow>
     (\<exists>transfer. es = map Arrive (cmd_pieces r) @ MessageReceived (cmd_env r) # transfer
        \<and> list_all data_event transfer \<and> chunks transfer \<in> {[], cmd_chunks r @ [cmd_last r]})"

inductive ftp_service :: "client_command \<Rightarrow> account \<Rightarrow> FtpResponse list \<Rightarrow> account \<Rightarrow> bool" where
  served: "is_listing (acc_files a) listing \<Longrightarrow>
     command_answer (cmd_env r) listing (kCommandMap (toUpperCase (hd (cmd_words r)))) (tl (cmd_words r)) a
       = (reply, a1, t) \<Longrightarrow>
     transfer_answer (cmd_abort r) (concat (cmd_chunks r) @ cmd_last r) t a1 = (further, a2) \<Longrightarrow>
     ftp_service r a (reply # further) a2"

definition ftp_idle :: "session \<Rightarrow> bool" where
  "ftp_idle s \<longleftrightarrow> calm s \<and> login_inv s \<and> local_address s \<noteq> None"

lemma account_of_simps [simp]:
  "acc_address (account_of s) = local_address s" "acc_files (account_of s) = fs_map (filesystem s)"
  by (simp_all add: account_of_def)

lemma command_answer_address:
  "command_answer env listing c args a = (reply, a1, t) \<Longrightarrow> acc_address a1 = acc_address a"
  by (auto simp: command_answer_def known_command_def user_command_def pass_command_def Let_def
      split: option.splits FtpCommand.splits login.splits if_splits acceptor.splits list.splits)

text \<open>From the line to its first reply.\<close>

lemma command_replied:
  assumes "ftp_idle s" "sound_command r"
    and "command_answer (cmd_env r) (directory_listing (filesystem s))
      (kCommandMap (toUpperCase (hd (cmd_words r)))) (tl (cmd_words r)) (account_of s) = (reply, a, t)"
  obtains s1 k where "run_events (map Arrive (cmd_pieces r) @ [MessageReceived (cmd_env r)]) s = Some (Inr s1)"
    "sent_log s1 = sent_log s @ [ftp_serialise reply]" "account_of s1 = a" "waits_for t k s1"
    "ftp_idle s1" "same_client s s1"
proof -
  let ?line = "join '' '' (cmd_words r)" and ?s = "s\<lparr>socket_rx := socket_rx s @ cmd_pieces r\<rparr>"
  have s: "ready s" "pending s = []" "data_idle s" "login_inv s" "local_address s \<noteq> None" "fs_inv (filesystem s)"
    using assms(1) by (simp_all add: ftp_idle_def calm_def ready_def)
  have r: "sound_words (cmd_words r)" "concat (cmd_pieces r) = ?line @ crlf" "[] \<notin> set (cmd_pieces r)"
    using assms(2) by (simp_all add: sound_command_def)
  note line = sound_wordsD [OF r(1)]
  have "pending ?s = ?line @ crlf @ []" using s(2) r(2) by simp
  from receive_line [OF this line(4,5), of "cmd_env r"] obtain b rx where
    m: "message_received (cmd_env r) ?s = handleFtp (cmd_env r) (?line @ crlf) (after_read ?s b rx)" "b @ concat rx = []"
    by blast
  let ?q = "after_read ?s b rx"
  have s0: "account_of ?q = account_of s" "filesystem ?q = filesystem s" "sent_log ?q = sent_log s"
      "login_inv ?q" "local_address ?q \<noteq> None"
    using s(4,5) by (simp_all add: after_read_def account_of_def login_of_def login_inv_def split: option.splits)
  then obtain s1 where h: "handleFtp (cmd_env r) (?line @ crlf) ?q = Inr s1" "answers_as ?q (reply, a, t) s1"
    using handleFtp_answers [OF s0(4) _ s0(5) r(1), of "cmd_env r"] s(6) assms(3) by auto
  obtain ms where posted: "posted ms ?q s1" using handleFtp_replies [OF h(1)] by blast
  have "fs_inv (filesystem s1)"
    using handleFtp_op [OF h(1)] s(6) s0(2) by (simp add: store_after_abstract)
  then have "ready s1" "pending s1 = []" "data_idle s1" "same_client s s1"
    using posted handleFtp_reading [OF h(1)] s(1,3) m(2)
    by (simp_all add: posted_def ready_def pending_def data_idle_def same_client_def after_read_def)
  moreover have "account_of s1 = a" using h(2) by (simp add: answers_as_def)
  then have "local_address s1 = local_address s"
    using command_answer_address [OF assms(3)] by auto
  ultimately have "ftp_idle s1" "same_client s s1"
    using h(2) s(5) by (simp_all add: ftp_idle_def calm_def answers_as_def)
  moreover have "run_events (map Arrive (cmd_pieces r) @ [MessageReceived (cmd_env r)]) s = Some (Inr s1)"
  proof -
    have "run_events (map Arrive (cmd_pieces r) @ [MessageReceived (cmd_env r)]) s
        = run_events [MessageReceived (cmd_env r)] ?s"
      using s(1) r(3) by (intro run_arrivals) (simp_all add: ready_def)
    also have "\<dots> = run_events [] s1"
      using m(1) h(1) s(1) by (intro message_received_runs) (simp_all add: ready_def)
    finally show ?thesis by simp
  qed
  moreover have "sent_log s1 = sent_log s @ [ftp_serialise reply]" "account_of s1 = a" "waits_for t (next_socket ?q) s1"
    using h(2) s0(3) by (simp_all add: answers_as_def)
  ultimately show thesis using that by blast
qed

lemma command_served:
  assumes "ftp_idle s" "sound_command r"
  shows "\<exists>es s' as. command_schedule r es \<and> run_events es s = Some (Inr s') \<and> ftp_idle s' \<and> same_client s s'
    \<and> sent_log s' = sent_log s @ map ftp_serialise as \<and> ftp_service r (account_of s) as (account_of s')"
proof -
  obtain reply a t where c: "command_answer (cmd_env r) (directory_listing (filesystem s))
      (kCommandMap (toUpperCase (hd (cmd_words r)))) (tl (cmd_words r)) (account_of s) = (reply, a, t)"
    by (metis prod_cases3)
  obtain s1 k where s1: "run_events (map Arrive (cmd_pieces r) @ [MessageReceived (cmd_env r)]) s = Some (Inr s1)"
      "sent_log s1 = sent_log s @ [ftp_serialise reply]" "account_of s1 = a" "waits_for t k s1"
      "ftp_idle s1" "same_client s s1"
    by (rule command_replied [OF assms c])
  obtain further a2 where m: "transfer_answer (cmd_abort r) (concat (cmd_chunks r) @ cmd_last r) t a = (further, a2)"
    by (metis surj_pair)
  have i: "data_idle s1" "fs_inv (filesystem s1)" "ready s1" "pending s1 = []" "login_inv s1" "local_address s1 \<noteq> None"
    using s1(5) by (simp_all add: ftp_idle_def calm_def ready_def)
  have k: "single_line (cmd_abort r)" "\<forall>c \<in> set (cmd_chunks r). length c = receive_buffer_size"
      "length (cmd_last r) \<le> receive_buffer_size"
    using assms(2) by (simp_all add: sound_command_def list_all_iff)
  obtain es s' where s': "completes s1 (cmd_chunks r @ [cmd_last r]) (further, a2) es s'"
    using transfer_completes [OF i(1) s1(4) i(2) k] m s1(3) by auto
  then have d: "list_all data_event es" "run_events es s1 = Some (Inr s')" "same_control s1 s'"
      "data_idle s'" "fs_inv (filesystem s')"
    by (simp_all add: completes_def)
  let ?es = "map Arrive (cmd_pieces r) @ MessageReceived (cmd_env r) # es"
  have "run_events ?es s = Some (Inr s')" using run_events_append [OF s1(1), of es] d(2) by simp
  moreover have "command_schedule r ?es" using s' by (auto simp: command_schedule_def completes_def)
  moreover have desk: "same_desk s1 s'" by (rule data_events_desk [OF d(2,1)])
  have "login_inv s'" "local_address s' = local_address s1"
    using desk_account(2) [OF desk] i(5) desk by (simp_all add: same_desk_def)
  then have "ftp_idle s'"
    using d(3-5) i by (simp add: ftp_idle_def calm_def ready_def same_control_def)
  moreover have "same_client s s'" using s1(6) d(3) by (simp add: same_control_def same_client_def)
  moreover have "is_listing (acc_files (account_of s)) (directory_listing (filesystem s))"
    using assms(1) directory_listing_lists by (simp add: ftp_idle_def calm_def ready_def)
  then have "ftp_service r (account_of s) (reply # further) (account_of s')"
    using c m s' by (intro ftp_service.served) (simp_all add: completes_def)
  moreover have "sent_log s' = sent_log s @ map ftp_serialise (reply # further)"
    using s' s1(2) by (simp add: completes_def)
  ultimately show ?thesis
    by (intro exI [of _ ?es] exI [of _ s'] exI [of _ "reply # further"] conjI)
qed

interpretation ftp: dialogue ftp_idle "\<lambda>s. sound_command" command_schedule ftp_serialise account_of ftp_service
  by unfold_locales (fact command_served, assumption)

text \<open>\<open>login_inv\<close> holds of every session, whatever happens to it.\<close>

lemma handleFtp_login_inv:
  assumes "handleFtp env request s = Inr s'" "login_inv s"
  shows "login_inv s'"
  using assms(1)
proof (cases rule: handleFtp_cases)
  case (handled parser handle s1)
  with assms(2) show ?thesis
    by (cases "ftp_command parser")
      (auto simp: ftp_handlers_def login_inv_def handler_simps sendMessage_def fs_get_def
          fs_remove_def split: if_splits option.splits acceptor.splits)
qed (use assms(2) in \<open>simp add: login_inv_def receiveMessage_def sendMessage_def\<close>)

lemma ftp_untouched_login_inv: "ftp_untouched s s' \<Longrightarrow> login_inv s' = login_inv s"
  by (simp add: ftp_untouched_def login_inv_def)

interpretation login: session_invariant login_inv
proof
  fix s e s'
  assume step: "session_step s e (Inr s')" and inv: "login_inv s"
  from step show "login_inv s'"
  proof (cases rule: session_stepE)
    case (message_received env)
    then have "message_received env s = Inr s'" by simp
    then show ?thesis
    proof (cases rule: message_received_cases)
      case (ftp s1 packet)
      then have "login_inv s1" using inv by (auto simp: login_inv_def)
      then show ?thesis by (rule handleFtp_login_inv [OF ftp(1)])
    next
      case (http s1 request)
      then have "login_inv s1" using inv by (auto simp: login_inv_def)
      then show ?thesis using ftp_untouched_login_inv [OF answerHttp_apart [OF http(1)]] by simp
    qed
  next
    case (run_task t ts)
    with inv show ?thesis
      by (cases t) (auto simp: login_inv_def completion_defs split: list.splits if_splits)
  next
    case (run_data_task t ts)
    with inv show ?thesis
      by (cases t) (auto simp: login_inv_def completion_defs fs_add_def split: list.splits option.splits if_splits)
  next
    case (accept_done a error)
    with inv show ?thesis
      by (cases error; cases "on_accept a") (auto simp: login_inv_def completion_defs)
  qed (use inv in \<open>auto simp: login_inv_def completion_defs fs_add_def split: list.splits option.splits if_splits\<close>)
qed

section \<open>Properties\<close>

definition sample_command :: "string list \<Rightarrow> client_command" where
  "sample_command ws = \<lparr>cmd_words = ws, cmd_pieces = [join '' '' ws @ crlf], cmd_env = sample_env,
     cmd_abort = ''Operation canceled'', cmd_chunks = [], cmd_last = ''hello''\<rparr>"

definition sample_commands :: "client_command list" where
  "sample_commands = map sample_command
     [[''USER'', ''Nord''], [''NOOP''], [''PASS'', ''VPN''], [''CWD'', ''d''], [''pasv''], [''STOR'', ''a''],
      [''RETR'', ''a''], [''LIST''], [''DELE'', ''/d/a''], [''TYPE'', ''I''], [''QUIT''], [''PASS'', ''VPN'']]"

lemma sample_commands_sound: "list_all sound_command sample_commands"
proof -
  have "list_all sound_words (map cmd_words sample_commands)" by code_simp
  then show ?thesis
    by (simp add: sample_commands_def sample_command_def sound_command_def receive_buffer_size_def crlf_def)
qed

lemma ftp_idle_start: "ftp_idle (http_session [])"
  by (simp add: ftp_idle_def calm_def sample_ready sample_pending)
    (simp add: http_session_def sample_session_def new_session_def data_idle_def login_inv_def)

text \<open>
  C5. A client that says one FTP command after the other, each cut on the way in any way, is
  served as the automaton serves it: the transfers run over the data connection (or are aborted
  where the acceptor does not listen), every reply follows from the account at its time, and the
  account is in the end what the commands made of it, with the files stored and delivered.
\<close>

theorem ftp_session_serves:
  assumes "ftp_idle s" "list_all sound_command rs"
  shows "\<exists>ess s' as. list_all2 command_schedule rs ess \<and> run_events (concat ess) s = Some (Inr s')
    \<and> sent_log s' = sent_log s @ map ftp_serialise as
    \<and> service_run ftp_service rs (account_of s) as (account_of s')"
  using ftp.all_answered [OF assms] by blast

text \<open>The automaton on the sample: what the client is told, and what it is delivered.\<close>

definition sample_account :: account where
  "sample_account = \<lparr>acc_users = sample_users, acc_login = Nobody [], acc_dir = ''/'', acc_files = Map.empty,
     acc_acceptor = Closed, acc_address = Some [127, 0, 0, 1], acc_delivered = []\<rparr>"

lemma sample_account_start: "account_of (http_session []) = sample_account"
  by (simp add: account_of_def login_of_def sample_account_def http_session_def sample_session_def new_session_def)

lemma sample_words:
  "kCommandMap (toUpperCase ''USER'') = Some FtpCommand.User" "kCommandMap (toUpperCase ''NOOP'') = None"
  "kCommandMap (toUpperCase ''PASS'') = Some Pass" "kCommandMap (toUpperCase ''CWD'') = Some Cwd"
  "kCommandMap (toUpperCase ''pasv'') = Some Pasv" "kCommandMap (toUpperCase ''STOR'') = Some Stor"
  "kCommandMap (toUpperCase ''RETR'') = Some Retr" "kCommandMap (toUpperCase ''LIST'') = Some FtpCommand.List"
  "kCommandMap (toUpperCase ''DELE'') = Some Dele" "kCommandMap (toUpperCase ''TYPE'') = Some FtpCommand.Type"
  "kCommandMap (toUpperCase ''QUIT'') = Some Quit"
  by code_simp+

lemma sample_verified: "db_verify sample_users \<lparr>username = ''Nord'', password = ''VPN''\<rparr>"
  by (simp add: sample_users_def db_verify_iff requirePassword_def kUsersWithoutPassword_def)

lemmas evaluate_machine = sample_words ftp_service.simps command_answer_def user_command_def
  pass_command_def known_command_def transfer_answer_def set_up_def sample_env_def is_open_def
  sample_verified sample_command_def sample_account_def

lemma sample_commands_served:
  assumes "service_run ftp_service sample_commands sample_account as b"
  shows "map (ftp_code \<circ> ftp_reply_code) as = [331, 500, 230, 250, 227, 150, 226, 150, 226, 150, 226, 250, 200, 221, 503]
    \<and> acc_delivered b = [''hello'', ''/d/a'' @ [CHR 0x0A]] \<and> acc_login b = Nobody []"
  using assms unfolding sample_commands_def
  by (auto simp: evaluate_machine FtpResponse1_def FtpResponse2_def ftp_code_def ftp_code_table_def
      dest!: is_listing_one)

lemma ftp_session_serves_witness:
  "\<exists>ess s' as. list_all2 command_schedule sample_commands ess
    \<and> run_events (concat ess) (http_session []) = Some (Inr s') \<and> sent_log s' = map ftp_serialise as
    \<and> map (ftp_code \<circ> ftp_reply_code) as = [331, 500, 230, 250, 227, 150, 226, 150, 226, 150, 226, 250, 200, 221, 503]
    \<and> map snd (data_wire s') = [''hello'', ''/d/a'' @ [CHR 0x0A]] \<and> logged_in_user s' = None"
proof -
  have log: "sent_log (http_session []) = []"
    by (simp add: http_session_def sample_session_def new_session_def)
  obtain ess s' as where r: "list_all2 command_schedule sample_commands ess"
      "run_events (concat ess) (http_session []) = Some (Inr s')" "sent_log s' = map ftp_serialise as"
      "service_run ftp_service sample_commands sample_account as (account_of s')"
    using ftp_session_serves [OF ftp_idle_start sample_commands_sound]
    unfolding sample_account_start log append_Nil by blast
  from sample_commands_served [OF r(4)] have codes:
    "map (ftp_code \<circ> ftp_reply_code) as = [331, 500, 230, 250, 227, 150, 226, 150, 226, 150, 226, 250, 200, 221, 503]"
    "map snd (data_wire s') = [''hello'', ''/d/a'' @ [CHR 0x0A]]" "logged_in_user s' = None"
    by (auto simp: account_of_def login_of_def split: option.splits)
  show ?thesis
    by (rule exI [of _ ess], rule exI [of _ s'], rule exI [of _ as]) (intro conjI r(1-3) codes)
qed

end
