(* ===== verification/Session_Liveness.thy ===== *)
theory Session_Liveness
  imports Session_Invariants
begin

text \<open>
  As long as no write on the control connection has failed, every message a session has sent
  can still reach the wire: the session's own tasks and the ends of its writes take it there.
\<close>

definition healthy :: "session \<Rightarrow> bool" where
  "healthy s \<longleftrightarrow> reply_inv s \<and> (output_queue s \<noteq> [] \<longrightarrow> writes s \<noteq> [])"

definition write_fails :: "event \<Rightarrow> bool" where
  "write_fails e \<longleftrightarrow> (case e of MessageWritten m ok \<Rightarrow> \<not> ok | _ \<Rightarrow> False)"

lemma healthy_step:
  assumes "session_step s e (Inr s')" "healthy s" "\<not> write_fails e"
  shows "healthy s'"
proof -
  have inv: "reply_inv s'" using assms replies.preserved by (auto simp: healthy_def)
  have "output_queue s' \<noteq> [] \<longrightarrow> writes s' \<noteq> []"
  proof (cases "is_control_event e")
    case False
    then obtain ms where "sends ms s s'" using step_sends [OF assms(1)] by blast
    with assms(2) show ?thesis by (simp add: sends_def healthy_def)
  next
    case True
    from assms(1) show ?thesis
    proof (cases rule: session_stepE)
      case (run_task t ts)
      with assms(2) show ?thesis
        by (cases t) (auto simp: healthy_def completion_defs split: if_splits list.splits)
    next
      case (message_written m ok)
      with assms(2,3) show ?thesis
        by (auto simp: healthy_def write_fails_def completion_defs split: if_splits list.splits)
    qed (use True in \<open>simp_all add: is_control_event_def\<close>)
  qed
  with inv show ?thesis by (simp add: healthy_def)
qed

lemma healthy_run:
  "run_events es s = Some (Inr s') \<Longrightarrow> healthy s \<Longrightarrow> \<forall>e \<in> set es. \<not> write_fails e \<Longrightarrow> healthy s'"
proof (induction es arbitrary: s)
  case (Cons e es)
  then obtain s1 where "react e s = Some (Inr s1)" "run_events es s1 = Some (Inr s')"
    by (auto split: option.splits sum.splits if_splits)
  with Cons healthy_step [of s e s1] show ?case by (simp add: session_step_iff)
qed simp

text \<open>
  What brings the queue forward: the end of the write in progress, or else the next task of
  the strand.
\<close>

definition next_event :: "session \<Rightarrow> event" where
  "next_event s = (case writes s of m # _ \<Rightarrow> MessageWritten m True | [] \<Rightarrow> RunTask)"

definition backlog :: "session \<Rightarrow> nat" where
  "backlog s = 2 * length (serializer s) + length (output_queue s)"

lemma next_event_progress:
  assumes "healthy s" "writes s \<noteq> [] \<or> serializer s \<noteq> []"
  obtains s' where "react (next_event s) s = Some (Inr s')" "healthy s'"
    "backlog s' < backlog s" "sent_log s' = sent_log s"
proof -
  have "\<exists>s'. react (next_event s) s = Some (Inr s') \<and> backlog s' < backlog s
      \<and> sent_log s' = sent_log s"
  proof (cases "writes s")
    case Nil
    with assms obtain t ts where "serializer s = t # ts" by (auto simp: neq_Nil_conv)
    with assms Nil show ?thesis
      by (cases t) (auto simp: next_event_def backlog_def healthy_def completion_defs)
  next
    case (Cons m ms)
    with assms(1) obtain rest where "writes s = [m]" "output_queue s = m # rest"
      by (auto simp: healthy_def reply_inv_def)
    then show ?thesis
      by (cases rest) (auto simp: next_event_def backlog_def completion_defs)
  qed
  then obtain s' where s': "react (next_event s) s = Some (Inr s')" "backlog s' < backlog s"
      "sent_log s' = sent_log s"
    by blast
  moreover have "\<not> write_fails (next_event s)"
    by (simp add: next_event_def write_fails_def split: list.split)
  ultimately show thesis
    using that healthy_step [of s "next_event s" s'] assms(1) by (simp add: session_step_iff)
qed

text \<open>The events that empty the queue, and that they do.\<close>

fun flush :: "nat \<Rightarrow> session \<Rightarrow> event list" where
  "flush 0 s = []"
| "flush (Suc n) s =
     (if writes s = [] \<and> serializer s = [] then []
      else case react (next_event s) s of
        Some (Inr s') \<Rightarrow> next_event s # flush n s'
      | _ \<Rightarrow> [])"

lemma flush_delivers:
  "healthy s \<Longrightarrow> backlog s \<le> n \<Longrightarrow>
     \<exists>s'. run_events (flush n s) s = Some (Inr s') \<and> wire s' = sent_log s \<and> sent_log s' = sent_log s"
proof (induction n arbitrary: s)
  case 0
  then have "output_queue s = []" "serializer s = []" by (simp_all add: backlog_def)
  with 0 show ?case by (simp add: healthy_def reply_inv_def)
next
  case (Suc n)
  show ?case
  proof (cases "writes s = [] \<and> serializer s = []")
    case True
    with Suc.prems show ?thesis by (auto simp: healthy_def reply_inv_def)
  next
    case False
    with Suc.prems obtain s1 where s1: "react (next_event s) s = Some (Inr s1)" "healthy s1"
        "backlog s1 < backlog s" "sent_log s1 = sent_log s"
      by (auto elim: next_event_progress)
    with Suc.prems Suc.IH [of s1] False show ?thesis by auto
  qed
qed

end
