(* ===== verification/Session_Sockets.thy ===== *)
theory Session_Sockets
  imports Session_Invariants
begin

text \<open>
  Data sockets as a resource with a type discipline: a socket is made once, waits for a
  connection, and is then used for one transfer. The judgement \<open>wf_sockets\<close> holds of every state
  a session can come to, so no socket is used before it was made, no two accepts share a socket,
  and no accept hands on a socket that is in use or has been closed.
\<close>

fun handler_socket :: "accept_handler \<Rightarrow> nat" where
  "handler_socket (SendOnAccept k f) = k"
| "handler_socket (ReceiveOnAccept k f p) = k"

fun task_sockets :: "data_task \<Rightarrow> nat list" where
  "task_sockets (SendFtpData k) = [k]"
| "task_sockets (EnqueueFtpData f k) = [k]"
| "task_sockets CloseFtpDataSocket = []"
| "task_sockets (SaveFile f p) = []"

text \<open>The sockets that wait for a connection, and those that have been connected.\<close>

definition waiting_sockets :: "session \<Rightarrow> nat list" where
  "waiting_sockets s = map (\<lambda>a. handler_socket (on_accept a)) (accepts s)"

definition used_sockets :: "session \<Rightarrow> nat set" where
  "used_sockets s =
     (\<Union>t \<in> set (ftp_data_serializer s). set (task_sockets t)) \<union> fst ` set (data_writes s)
     \<union> read_socket ` set (file_reads s) \<union> set (closed_sockets s) \<union> set_option (ftp_data_socket s)
     \<union> fst ` set (data_wire s)"

definition wf_sockets :: "session \<Rightarrow> bool" where
  "wf_sockets s \<longleftrightarrow>
     distinct (waiting_sockets s) \<and> (\<forall>k \<in> set (waiting_sockets s). k < next_socket s)
     \<and> (\<forall>k \<in> used_sockets s. k < next_socket s) \<and> set (waiting_sockets s) \<inter> used_sockets s = {}"

section \<open>What the steps do to the sockets\<close>

text \<open>
  A step uses no new socket, takes one from those that wait, or puts a new one there.
\<close>

definition uses_no_new :: "session \<Rightarrow> session \<Rightarrow> bool" where
  "uses_no_new s s' \<longleftrightarrow> waiting_sockets s' = waiting_sockets s \<and> next_socket s' = next_socket s
     \<and> used_sockets s' \<subseteq> used_sockets s"

definition makes_one :: "session \<Rightarrow> session \<Rightarrow> bool" where
  "makes_one s s' \<longleftrightarrow> waiting_sockets s' = waiting_sockets s @ [next_socket s]
     \<and> next_socket s' = Suc (next_socket s) \<and> used_sockets s' \<subseteq> used_sockets s"

lemma wf_uses_no_new: "uses_no_new s s' \<Longrightarrow> wf_sockets s \<Longrightarrow> wf_sockets s'"
  by (auto simp: uses_no_new_def wf_sockets_def)

lemma wf_makes_one:
  assumes "makes_one s s'" "wf_sockets s"
  shows "wf_sockets s'"
  using assms less_SucI unfolding makes_one_def wf_sockets_def by fastforce

lemma uses_no_new_handled [simp]:
  "uses_no_new s (s'\<lparr>last_ftp_command := c\<rparr>) = uses_no_new s s'"
  "uses_no_new s (s'\<lparr>receives := n\<rparr>) = uses_no_new s s'"
  "uses_no_new s (s'\<lparr>filesystem := m\<rparr>) = uses_no_new s s'"
  "uses_no_new s (s'\<lparr>logged_in_user := u\<rparr>) = uses_no_new s s'"
  "uses_no_new s (s'\<lparr>last_username := n1\<rparr>) = uses_no_new s s'"
  "uses_no_new s (s'\<lparr>current_working_dir := d\<rparr>) = uses_no_new s s'"
  "uses_no_new s (s'\<lparr>body_reads := bs\<rparr>) = uses_no_new s s'"
  "makes_one s (s'\<lparr>last_ftp_command := c\<rparr>) = makes_one s s'"
  "makes_one s (s'\<lparr>receives := n\<rparr>) = makes_one s s'"
  by (simp_all add: uses_no_new_def makes_one_def waiting_sockets_def used_sockets_def)

lemma uses_no_new_sent [simp]:
  "uses_no_new s (sendMessage m s') = uses_no_new s s'" "makes_one s (sendMessage m s') = makes_one s s'"
  "uses_no_new s s"
  by (simp_all add: uses_no_new_def makes_one_def waiting_sockets_def used_sockets_def sendMessage_def)

lemmas socket_defs = uses_no_new_def makes_one_def waiting_sockets_def used_sockets_def

lemma accept_makes_one:
  "makes_one s (accept_and_send f s)" "makes_one s (acceptFile f p s)"
  by (simp_all add: socket_defs accept_and_send_def acceptFile_def make_socket_def async_accept_def)

lemma makes_one_after_sent [simp]: "makes_one (sendMessage m s) s' = makes_one s s'"
  by (simp add: socket_defs sendMessage_def)

lemma accept_makes_one_sent:
  "makes_one s (accept_and_send f (sendMessage m s))" "makes_one s (acceptFile f p (sendMessage m s))"
  using accept_makes_one [of "sendMessage m s"] by simp_all

lemma configure_uses_no_new: "uses_no_new s (snd (configureDataAcceptor env s))"
  by (auto simp: socket_defs configureDataAcceptor_def close_acceptor_def Let_def comp_def)

lemma list_sockets: "handleFtpList p s = Inr s' \<Longrightarrow> uses_no_new s s' \<or> makes_one s s'"
  using accept_makes_one_sent by (auto simp: handleFtpList_def not_logged_in_def ftp_reply_to_def Let_def split: if_splits)

lemma retr_sockets: "handleFtpRetr p s = Inr s' \<Longrightarrow> uses_no_new s s' \<or> makes_one s s'"
  using accept_makes_one_sent
  by (auto simp: handleFtpRetr_def not_logged_in_def ftp_reply_to_def Let_def and_then_eq_Inr fs_get_def
      split: if_splits option.splits)

lemma stor_sockets: "handleFtpStor p s = Inr s' \<Longrightarrow> uses_no_new s s' \<or> makes_one s s'"
  using accept_makes_one_sent
  by (auto simp: handleFtpStor_def not_logged_in_def ftp_reply_to_def Let_def and_then_eq_Inr split: if_splits)

lemma control_sockets:
  "handleFtpUser p s = Inr s' \<Longrightarrow> uses_no_new s s'" "handleFtpPass p s = Inr s' \<Longrightarrow> uses_no_new s s'"
  "handleFtpDele p s = Inr s' \<Longrightarrow> uses_no_new s s'" "handleFtpType p s = Inr s' \<Longrightarrow> uses_no_new s s'"
  "handleFtpQuit p s = Inr s' \<Longrightarrow> uses_no_new s s'" "handleFtpCwd p s = Inr s' \<Longrightarrow> uses_no_new s s'"
  by (auto simp: handleFtpUser_def handleFtpPass_def handleFtpDele_def handleFtpType_def handleFtpQuit_def
      handleFtpCwd_def not_logged_in_def ftp_reply_to_def Let_def and_then_eq_Inr fs_remove_def
      split: if_splits)

lemma pasv_sockets: "handleFtpPasv env p s = Inr s' \<Longrightarrow> uses_no_new s s'"
  using configure_uses_no_new [of s env]
  by (auto simp: handleFtpPasv_def not_logged_in_def ftp_reply_to_def
      split: if_splits prod.splits bool.splits option.splits acceptor.splits)

lemma ftp_handler_sockets:
  assumes "ftp_handlers env c = Some handle" "handle p s = Inr s'"
  shows "uses_no_new s s' \<or> makes_one s s'"
  using assms by (cases c)
    (auto simp: ftp_handlers_def dest: list_sockets retr_sockets stor_sockets control_sockets pasv_sockets)

lemma handleFtp_sockets:
  assumes "handleFtp env request s = Inr s'" "wf_sockets s"
  shows "wf_sockets s'"
  using assms(1)
proof (cases rule: handleFtp_cases)
  case (handled parser handle s1)
  with ftp_handler_sockets [OF handled(4,5)] have "uses_no_new s s' \<or> makes_one s s'"
    by (simp add: receiveMessage_def)
  with assms(2) show ?thesis using wf_uses_no_new wf_makes_one by blast
next
  case (unknown parser)
  then have "uses_no_new s s'" by (simp add: receiveMessage_def)
  with assms(2) show ?thesis using wf_uses_no_new by blast
qed

lemma answerHttp_sockets:
  assumes "answerHttp request s = Inr s'"
  shows "uses_no_new s s'"
  using assms
proof (cases rule: answerHttp_cases)
  case (handled parser handle)
  then show ?thesis
    by (cases "http_method parser")
      (auto simp: http_handlers_def handleHttpGet_def handleHttpPut_def handleHttpDelete_def
        http_reply_to_def receiveMessage_def Let_def and_then_eq_Inr fs_get_def fs_remove_def
        split: if_splits option.splits)
qed (simp_all add: http_reply_to_def)

lemma wf_sockets_read [simp]:
  "wf_sockets (s\<lparr>receives := n, input_stream := b, socket_rx := rx\<rparr>) = wf_sockets s"
  by (simp add: wf_sockets_def waiting_sockets_def used_sockets_def)

lemma message_received_sockets:
  assumes "message_received env s = Inr s'" "wf_sockets s"
  shows "wf_sockets s'"
  using assms(1)
proof (cases rule: message_received_cases)
  case (ftp s1 packet)
  then have "wf_sockets s1" using assms(2) by auto
  then show ?thesis by (rule handleFtp_sockets [OF ftp(1)])
next
  case (http s1 request)
  then have "wf_sockets s1" using assms(2) by auto
  then show ?thesis by (rule wf_uses_no_new [OF answerHttp_sockets [OF http(1)]])
qed

text \<open>An accept that ends gives up its socket; when it has succeeded, the socket is in use.\<close>

lemma accept_done_sockets:
  assumes "wf_sockets s" "a \<in> set (accepts s)"
  shows "wf_sockets (accept_done (on_accept a) error (s\<lparr>accepts := remove1 a (accepts s)\<rparr>))"
proof -
  let ?k = "handler_socket (on_accept a)"
  let ?s = "s\<lparr>accepts := remove1 a (accepts s)\<rparr>"
  let ?t = "accept_done (on_accept a) error ?s"
  have d: "distinct (waiting_sockets s)" using assms(1) by (simp add: wf_sockets_def)
  obtain xs ys where s: "accepts s = xs @ a # ys" "a \<notin> set xs"
    using assms(2) split_list_first by metis
  have w: "waiting_sockets ?t = waiting_sockets ?s" "next_socket ?t = next_socket s"
    by (cases error; cases "on_accept a"; simp add: waiting_sockets_def completion_defs)+
  have "waiting_sockets ?s = map (\<lambda>a. handler_socket (on_accept a)) (xs @ ys)"
    using s by (simp add: waiting_sockets_def remove1_append)
  then have k: "distinct (waiting_sockets ?s)" "?k \<notin> set (waiting_sockets ?s)"
      "set (waiting_sockets ?s) \<subseteq> set (waiting_sockets s)" "?k \<in> set (waiting_sockets s)"
    using d s by (auto simp: waiting_sockets_def)
  have "used_sockets ?t \<subseteq> insert ?k (used_sockets s)"
    by (cases error; cases "on_accept a") (auto simp: used_sockets_def completion_defs)
  with assms(1) k w show ?thesis by (auto simp: wf_sockets_def)
qed

lemma data_task_sockets:
  assumes "ftp_data_serializer s = t # ts" "run_data_task t (s\<lparr>ftp_data_serializer := ts\<rparr>) = Inr s'"
  shows "uses_no_new s s'"
  using assms
  by (cases t) (auto simp: socket_defs completion_defs fs_add_def split: list.splits option.splits if_splits)

text \<open>The type discipline is kept by every step.\<close>

lemma step_sockets:
  assumes "session_step s e (Inr s')" "wf_sockets s"
  shows "wf_sockets s'"
  using assms(1)
proof (cases rule: session_stepE)
  case (message_received env)
  then show ?thesis using message_received_sockets assms(2) by metis
next
  case (accept_done a error)
  then show ?thesis using accept_done_sockets [OF assms(2)] by simp
next
  case (run_data_task t ts)
  then show ?thesis using wf_uses_no_new [OF data_task_sockets assms(2)] by metis
next
  case (run_task t ts)
  then have "uses_no_new s s'"
    by (cases t) (auto simp: socket_defs completion_defs split: list.splits if_splits)
  then show ?thesis using wf_uses_no_new assms(2) by blast
next
  case (file_read r chunk error)
  then have "uses_no_new s s'"
    by (auto simp: socket_defs completion_defs dest: set_remove1_subset [THEN subsetD])
  then show ?thesis using wf_uses_no_new assms(2) by blast
next
  case (data_written w ok)
  then have "uses_no_new s s'"
    by (auto simp: socket_defs completion_defs split: list.splits if_splits dest: set_remove1_subset [THEN subsetD])
  then show ?thesis using wf_uses_no_new assms(2) by blast
qed (use assms(2) in \<open>auto simp: socket_defs completion_defs fs_add_def intro!: wf_uses_no_new [OF _ assms(2)]
    split: list.splits option.splits if_splits\<close>)

interpretation sockets: session_invariant wf_sockets
  by unfold_locales (rule step_sockets)

end
