(* ===== verification/Server.thy ===== *)
theory Server
  imports Ftp_Machine Session_Liveness Session_Sockets
begin

text \<open>
  \<^verbatim>\<open>server/iserver.hpp\<close> and \<^verbatim>\<open>server/object_storage/src/object_storage.cpp\<close>: the server, its start, the acceptance of
  connections, and its sessions side by side. All sessions work on the server's own users and
  files: a step of one session starts from those and leaves them changed for all.
\<close>

section \<open>The server\<close>

datatype LogLevel = Trace | Debug | Info | Warning | Error | Eatal

fun log_level_value :: "LogLevel \<Rightarrow> nat" where
  "log_level_value Trace = 0"
| "log_level_value Debug = 1"
| "log_level_value Info = 2"
| "log_level_value Warning = 3"
| "log_level_value Error = 4"
| "log_level_value Eatal = 5"

instantiation LogLevel :: linorder
begin

definition less_eq_LogLevel :: "LogLevel \<Rightarrow> LogLevel \<Rightarrow> bool" where
  "a \<le> b \<longleftrightarrow> log_level_value a \<le> log_level_value b"

definition less_LogLevel :: "LogLevel \<Rightarrow> LogLevel \<Rightarrow> bool" where
  "a < b \<longleftrightarrow> log_level_value a < log_level_value b"

lemma log_level_value_inject: "log_level_value a = log_level_value b \<Longrightarrow> a = b"
  by (cases a; cases b) simp_all

instance
  by intro_classes (auto simp: less_eq_LogLevel_def less_LogLevel_def dest: log_level_value_inject)

end

text \<open>
  \<open>listener\<close> is the acceptor of control connections; \<open>accepting\<close> says that an accept is
  outstanding, with the session made for it. A session that is connected stays in \<open>sessions\<close>.
\<close>

record ObjectStorage =
  srv_users :: UserDatabase
  srv_filesystem :: MemoryFs
  srv_address :: string
  srv_port :: port
  srv_log_level :: LogLevel
  listener :: acceptor
  accepting :: bool
  srv_authenticate :: bool
  srv_ftp_port_range :: PortRange
  srv_workers :: nat
  running :: bool
  sessions :: "session list"

definition new_server ::
    "hash_order \<Rightarrow> string \<Rightarrow> port \<Rightarrow> LogLevel \<Rightarrow> bool \<Rightarrow> PortRange \<Rightarrow> ObjectStorage" where
  "new_server order address p level auth ports =
     \<lparr>srv_users = Map.empty, srv_filesystem = fs_empty order, srv_address = address, srv_port = p,
      srv_log_level = level, listener = Closed, accepting = False, srv_authenticate = auth,
      srv_ftp_port_range = ports, srv_workers = 0, running = True, sessions = []\<rparr>"

text \<open>The default arguments of the constructor, and what the interface \<^verbatim>\<open>IServer\<close> asks a server for.\<close>

definition default_server :: "hash_order \<Rightarrow> ObjectStorage" where
  "default_server order = new_server order ''0.0.0.0'' 21 Info False \<lparr>min_port = 2000, max_port = 3000\<rparr>"

definition getPort :: "ObjectStorage \<Rightarrow> port" where
  "getPort srv = srv_port srv"

definition getAddress :: "ObjectStorage \<Rightarrow> string" where
  "getAddress srv = srv_address srv"

text \<open>The upper end of the range of FTP ports is not in it, although it is documented as inclusive.\<close>

lemma ftp_range_upper_end:
  "\<not> is_ftp_client (new_session db auth files (srv_ftp_port_range srv) ip (max_port (srv_ftp_port_range srv)))"
  by (simp add: is_ftp_client_def new_session_def)

text \<open>\<^verbatim>\<open>setUpLogging\<close>: the severities that are logged, as numbers.\<close>

definition logged :: "ObjectStorage \<Rightarrow> nat \<Rightarrow> bool" where
  "logged srv severity \<longleftrightarrow> log_level_value (srv_log_level srv) \<le> severity"

definition addUser :: "string \<Rightarrow> string \<Rightarrow> ObjectStorage \<Rightarrow> bool \<times> ObjectStorage" where
  "addUser name pass srv =
     (case db_add (srv_users srv) \<lparr>username = name, password = pass\<rparr> of
        (user_added, db) \<Rightarrow> (user_added, srv\<lparr>srv_users := db\<rparr>))"

text \<open>
  What the system answers while the acceptor is set up; \<open>address_ok\<close> holds of the addresses that
  \<^verbatim>\<open>make_address\<close> reads. Opening an acceptor that is open already is an error.
\<close>

record listen_env =
  address_ok :: "string \<Rightarrow> bool"
  srv_open_ok :: bool
  reuse_ok :: bool
  srv_bind_ok :: bool
  srv_listen_ok :: bool

definition configureAcceptor :: "listen_env \<Rightarrow> ObjectStorage \<Rightarrow> bool \<times> ObjectStorage" where
  "configureAcceptor env srv =
     (if \<not> address_ok env (srv_address srv) then (False, srv)
      else if \<not> srv_open_ok env \<or> is_open (listener srv) then (False, srv)
      else
        let srv1 = srv\<lparr>listener := Opened\<rparr> in
        if \<not> reuse_ok env then (False, srv1)
        else if \<not> srv_bind_ok env then (False, srv1)
        else if \<not> srv_listen_ok env then (False, srv1)
        else (True, srv1\<lparr>listener := Listening (srv_port srv), accepting := True\<rparr>))"

definition server_start :: "listen_env \<Rightarrow> nat \<Rightarrow> ObjectStorage \<Rightarrow> bool \<times> ObjectStorage" where
  "server_start env thread_count srv =
     (if thread_count = 0 then (False, srv)
      else if min_port (srv_ftp_port_range srv) \<ge> max_port (srv_ftp_port_range srv) then (False, srv)
      else
        case configureAcceptor env srv of
          (False, srv1) \<Rightarrow> (False, srv1)
        | (True, srv1) \<Rightarrow> (True, srv1\<lparr>srv_workers := srv_workers srv1 + thread_count\<rparr>))"

definition server_stop :: "ObjectStorage \<Rightarrow> ObjectStorage" where
  "server_stop srv = srv\<lparr>running := False\<rparr>"

text \<open>
  \<^verbatim>\<open>acceptConnection\<close>: an error, or the client's port and the address the connection was made
  to. \<^verbatim>\<open>Session::start\<close> asks the socket for the client's endpoint; when the client is gone
  already that call throws out of the worker thread.
\<close>

datatype accept_result = Accept_Error | Client_Gone | Client port "8 word list option"

definition acceptConnection :: "accept_result \<Rightarrow> ObjectStorage \<Rightarrow> ObjectStorage result" where
  "acceptConnection r srv =
     (case r of
        Accept_Error \<Rightarrow> Inr (srv\<lparr>accepting := False\<rparr>)
      | Client_Gone \<Rightarrow> Inl (Terminate System_Error)
      | Client p address \<Rightarrow>
          let s = new_session (srv_users srv) (srv_authenticate srv) (srv_filesystem srv) (srv_ftp_port_range srv) address p
          in Inr (srv\<lparr>sessions := sessions srv @ [start s], accepting := True\<rparr>))"

section \<open>Sessions on shared users and files\<close>

definition with_shared :: "ObjectStorage \<Rightarrow> session \<Rightarrow> session" where
  "with_shared srv s = s\<lparr>user_database := srv_users srv, filesystem := srv_filesystem srv\<rparr>"

datatype server_event =
    Start listen_env nat
  | Stop
  | Accepted accept_result
  | Add_User string string
  | At nat event

definition put_session :: "nat \<Rightarrow> session \<Rightarrow> ObjectStorage \<Rightarrow> ObjectStorage" where
  "put_session i s srv = srv\<lparr>srv_filesystem := filesystem s, sessions := (sessions srv)[i := s]\<rparr>"

text \<open>
  What can happen to a server: its owner calls \<open>start\<close> or \<open>addUser\<close> or destroys it, a
  connection is accepted, or something happens to one of the sessions. Completion handlers
  run on the worker threads, so there must be one.
\<close>

fun server_react :: "server_event \<Rightarrow> ObjectStorage \<Rightarrow> ObjectStorage result option" where
  "server_react (Start env n) srv =
     (if running srv then Some (Inr (snd (server_start env n srv))) else None)"
| "server_react Stop srv = (if running srv then Some (Inr (server_stop srv)) else None)"
| "server_react (Accepted r) srv =
     (if running srv \<and> 0 < srv_workers srv \<and> accepting srv then Some (acceptConnection r srv) else None)"
| "server_react (Add_User name pass) srv = Some (Inr (snd (addUser name pass srv)))"
| "server_react (At i e) srv =
     (if running srv \<and> 0 < srv_workers srv \<and> i < length (sessions srv) then
        map_option (\<lambda>r. and_then r (\<lambda>s. Inr (put_session i s srv)))
          (react e (with_shared srv (sessions srv ! i)))
      else None)"

inductive reachable_server :: "ObjectStorage \<Rightarrow> ObjectStorage \<Rightarrow> bool" for srv0 where
  server_init: "reachable_server srv0 srv0"
| server_step: "reachable_server srv0 srv \<Longrightarrow> server_react e srv = Some (Inr srv') \<Longrightarrow>
     reachable_server srv0 srv'"

fun server_run :: "server_event list \<Rightarrow> ObjectStorage \<Rightarrow> ObjectStorage result option" where
  "server_run [] srv = Some (Inr srv)"
| "server_run (e # es) srv =
     (case server_react e srv of
        Some (Inr srv') \<Rightarrow> server_run es srv'
      | Some (Inl x) \<Rightarrow> (if es = [] then Some (Inl x) else None)
      | None \<Rightarrow> None)"

lemma server_start_frame:
  "sessions (snd (server_start env n srv)) = sessions srv"
  "srv_filesystem (snd (server_start env n srv)) = srv_filesystem srv"
  "srv_users (snd (server_start env n srv)) = srv_users srv"
  "srv_address (snd (server_start env n srv)) = srv_address srv"
  "srv_port (snd (server_start env n srv)) = srv_port srv"
  "srv_ftp_port_range (snd (server_start env n srv)) = srv_ftp_port_range srv"
  by (auto simp: server_start_def configureAcceptor_def Let_def split: prod.splits bool.splits if_splits)

lemma server_start_authenticate:
  "srv_authenticate (snd (server_start env n srv)) = srv_authenticate srv"
  by (auto simp: server_start_def configureAcceptor_def Let_def split: prod.splits bool.splits if_splits)

lemma server_step_cases:
  assumes "server_react e srv = Some (Inr srv')"
  obtains (owner) "sessions srv' = sessions srv" "srv_filesystem srv' = srv_filesystem srv"
      "srv_users srv' = srv_users srv"
  | (accept) p address where "srv' = srv\<lparr>sessions := sessions srv @
        [start (new_session (srv_users srv) (srv_authenticate srv) (srv_filesystem srv) (srv_ftp_port_range srv) address p)],
        accepting := True\<rparr>"
  | (user) name pass where "srv' = snd (addUser name pass srv)"
  | (session) i s e' where "e = At i e'" "i < length (sessions srv)"
      "session_step (with_shared srv (sessions srv ! i)) e' (Inr s)" "srv' = put_session i s srv"
proof (cases e)
  case (Start env n)
  with assms show thesis
    by (intro owner) (auto simp: server_start_frame split: if_splits)
next
  case Stop
  with assms show thesis by (intro owner) (auto simp: server_stop_def split: if_splits)
next
  case (Accepted r)
  with assms owner accept show thesis
    by (cases r) (auto simp: acceptConnection_def Let_def split: if_splits)
next
  case (Add_User name pass)
  with assms user show thesis by auto
next
  case (At i e')
  with assms session show thesis
    by (auto simp: and_then_eq_Inr session_step_iff split: if_splits)
qed

section \<open>Starting\<close>

definition can_listen :: "listen_env \<Rightarrow> ObjectStorage \<Rightarrow> bool" where
  "can_listen env srv \<longleftrightarrow>
     address_ok env (srv_address srv) \<and> srv_open_ok env \<and> reuse_ok env \<and> srv_bind_ok env \<and> srv_listen_ok env
     \<and> listener srv = Closed"

lemma server_start_iff:
  "fst (server_start env n srv) \<longleftrightarrow>
     0 < n \<and> min_port (srv_ftp_port_range srv) < max_port (srv_ftp_port_range srv) \<and> can_listen env srv"
  by (auto simp: server_start_def configureAcceptor_def can_listen_def is_open_def not_le Let_def
      split: prod.splits bool.splits)

lemma server_start_listens:
  assumes "fst (server_start env n srv)"
  shows "listener (snd (server_start env n srv)) = Listening (srv_port srv)
    \<and> accepting (snd (server_start env n srv)) \<and> srv_workers (snd (server_start env n srv)) = srv_workers srv + n
    \<and> 0 < srv_workers (snd (server_start env n srv))"
  using assms
  by (auto simp: server_start_def configureAcceptor_def Let_def split: prod.splits bool.splits if_splits)

lemma server_start_refused:
  assumes "\<not> fst (server_start env n srv)"
  shows "srv_workers (snd (server_start env n srv)) = srv_workers srv
    \<and> accepting (snd (server_start env n srv)) = accepting srv
    \<and> (\<forall>p. listener (snd (server_start env n srv)) = Listening p \<longrightarrow> listener srv = Listening p)"
  using assms
  by (auto simp: server_start_def configureAcceptor_def Let_def split: prod.splits bool.splits if_splits)

text \<open>A start that failed after the acceptor was opened cannot be repeated.\<close>

lemma server_start_again:
  assumes "listener srv \<noteq> Closed"
  shows "\<not> fst (server_start env n srv)"
  using assms by (simp add: server_start_iff can_listen_def)

section \<open>Invariants of all sessions\<close>

text \<open>
  An invariant of the session's steps that does not look at the shared objects and that a new
  session has holds of every session of every reachable server.
\<close>

locale server_wide = session_invariant +
  assumes shared: "I (s\<lparr>user_database := db, filesystem := m\<rparr>) = I s"
    and fresh: "I (start (new_session db auth m ports address p))"
begin

lemma kept:
  assumes "server_react e srv = Some (Inr srv')" "\<forall>s \<in> set (sessions srv). I s"
  shows "\<forall>s \<in> set (sessions srv'). I s"
  using assms(1)
proof (cases rule: server_step_cases)
  case (accept p address)
  with assms(2) show ?thesis by (simp add: fresh)
next
  case (user name pass)
  with assms(2) show ?thesis by (simp add: addUser_def case_prod_beta)
next
  case (session i s e')
  have "I (with_shared srv (sessions srv ! i))"
    using assms(2) session(2) by (simp add: with_shared_def shared)
  then have "I s" using preserved [OF session(3)] by blast
  with assms(2) session show ?thesis
    by (auto simp: put_session_def dest!: set_update_subset_insert [THEN subsetD])
qed (use assms(2) in simp)

lemma everywhere:
  "reachable_server srv0 srv \<Longrightarrow> sessions srv0 = [] \<Longrightarrow> s \<in> set (sessions srv) \<Longrightarrow> I s"
proof -
  assume "reachable_server srv0 srv" "sessions srv0 = []"
  then have "\<forall>s \<in> set (sessions srv). I s"
    by (induction rule: reachable_server.induct) (simp, use kept in blast)
  then show "s \<in> set (sessions srv) \<Longrightarrow> I s" by blast
qed

end

lemma is_reply_welcome [simp]: "is_reply welcome_message"
  by (simp add: is_reply_def welcome_message_def)

lemmas fresh_session_defs = start_def new_session_def is_ftp_client_def sendMessage_def Let_def

interpretation replies: server_wide reply_inv
  by unfold_locales (auto simp: reply_inv_def fresh_session_defs)

interpretation one_read: server_wide reads_inv
  by unfold_locales (auto simp: reads_inv_def reads_def fresh_session_defs)

interpretation data_queue: server_wide data_inv
  by unfold_locales (auto simp: data_inv_def triggers_def fresh_session_defs)

interpretation sockets: server_wide wf_sockets
  by unfold_locales (auto simp: wf_sockets_def waiting_sockets_def used_sockets_def fresh_session_defs)

interpretation login: server_wide login_inv
  by unfold_locales (auto simp: login_inv_def fresh_session_defs)

section \<open>Users and files\<close>

lemma db_verify_add: "db_verify db u \<Longrightarrow> db_verify (snd (db_add db v)) u"
  by (auto simp: db_verify_iff db_add_def split: option.splits)

definition server_inv :: "ObjectStorage \<Rightarrow> bool" where
  "server_inv srv \<longleftrightarrow> fs_inv (srv_filesystem srv) \<and> db_inv (srv_users srv)
     \<and> (\<forall>s \<in> set (sessions srv). access_inv (srv_users srv) (with_shared srv s))"

lemma access_inv_with_shared:
  "access_inv db (with_shared srv s) \<longleftrightarrow> srv_users srv = db
     \<and> (\<forall>u. logged_in_user s = Some u \<longrightarrow> db_verify db u) \<and> cwd_ok (current_working_dir s)"
  by (simp add: access_inv_def with_shared_def)

lemma fresh_session [simp]:
  "logged_in_user (start (new_session db auth m ports address p)) = None"
  "current_working_dir (start (new_session db auth m ports address p)) = ''/''"
  by (simp_all add: fresh_session_defs)

lemma server_inv_step:
  assumes "server_react e srv = Some (Inr srv')" "server_inv srv"
  shows "server_inv srv'"
  using assms(1)
proof (cases rule: server_step_cases)
  case (accept p address)
  with assms(2) show ?thesis
    by (simp add: server_inv_def access_inv_with_shared)
next
  case (user name pass)
  with assms(2) db_inv_add show ?thesis
    by (auto simp: server_inv_def access_inv_with_shared addUser_def case_prod_beta intro: db_verify_add)
next
  case (session i s e')
  let ?s = "with_shared srv (sessions srv ! i)"
  have old: "access_inv (srv_users srv) ?s" "fs_inv (filesystem ?s)"
    using assms(2) session(2) by (auto simp: server_inv_def with_shared_def)
  have "access_inv (srv_users srv) s" "fs_inv (filesystem s)"
    using access.preserved [OF session(3) old(1)] step_fs_inv [OF session(3) old(2)] .
  then have "fs_inv (filesystem s)" "\<forall>u. logged_in_user s = Some u \<longrightarrow> db_verify (srv_users srv) u"
      "cwd_ok (current_working_dir s)"
    by (simp_all add: access_inv_def)
  with assms(2) session(4) show ?thesis
    by (auto simp: server_inv_def put_session_def access_inv_with_shared
        dest!: set_update_subset_insert [THEN subsetD])
qed (use assms(2) in \<open>simp add: server_inv_def access_inv_with_shared\<close>)

lemma server_inv_new: "server_inv (new_server order address p level auth ports)"
  by (simp add: server_inv_def new_server_def db_inv_empty)

lemma server_inv_reachable: "reachable_server srv0 srv \<Longrightarrow> server_inv srv0 \<Longrightarrow> server_inv srv"
  by (induction rule: reachable_server.induct) (auto intro: server_inv_step)

lemma server_keeps_content:
  assumes "server_react e srv = Some (Inr srv')" "server_inv srv"
    and "fs_map (srv_filesystem srv) path = Some f"
  shows "fs_map (srv_filesystem srv') path = Some f
    \<or> (\<exists>i env. e = At i (MessageReceived env)) \<and> fs_map (srv_filesystem srv') path = None"
  using assms(1)
proof (cases rule: server_step_cases)
  case (user name pass)
  with assms(3) show ?thesis by (simp add: addUser_def case_prod_beta)
next
  case (session i s e')
  with assms(2,3) step_keeps_content [OF session(3), of path f] show ?thesis
    by (auto simp: server_inv_def put_session_def with_shared_def)
qed (use assms(3) in simp_all)

text \<open>Every step of a server is at most one operation of the store, that of the session it is a step of.\<close>

fun server_op :: "server_event \<Rightarrow> ObjectStorage \<Rightarrow> fs_op option" where
  "server_op (At i e) srv = session_op e (with_shared srv (sessions srv ! i))"
| "server_op _ srv = None"

lemma server_step_op:
  assumes "server_react e srv = Some (Inr srv')"
  shows "srv_filesystem srv' = store_after (server_op e srv) (srv_filesystem srv)"
proof (cases e)
  case (At i f)
  with assms obtain s where "session_step (with_shared srv (sessions srv ! i)) f (Inr s)" "srv' = put_session i s srv"
    by (auto simp: and_then_eq_Inr session_step_iff split: if_splits)
  from step_op [OF this(1)] this(2) At show ?thesis by (simp add: put_session_def with_shared_def)
qed (use assms in \<open>auto simp: server_start_frame server_stop_def acceptConnection_def addUser_def
    case_prod_beta Let_def split: if_splits accept_result.splits\<close>)

section \<open>The end of acceptance\<close>

text \<open>
  Whoever waits for a connection has opened the acceptor, and the acceptor is never closed
  again; without an accept outstanding no step brings one back.
\<close>

definition accept_inv :: "ObjectStorage \<Rightarrow> bool" where
  "accept_inv srv \<longleftrightarrow> (accepting srv \<longrightarrow> listener srv \<noteq> Closed)"

definition deaf :: "ObjectStorage \<Rightarrow> bool" where
  "deaf srv \<longleftrightarrow> \<not> accepting srv \<and> listener srv \<noteq> Closed"

lemmas server_change_defs = server_start_def configureAcceptor_def server_stop_def acceptConnection_def
  addUser_def put_session_def is_open_def Let_def

lemma accept_inv_step:
  "server_react e srv = Some (Inr srv') \<Longrightarrow> accept_inv srv \<Longrightarrow> accept_inv srv'"
  by (cases e) (auto simp: accept_inv_def server_change_defs and_then_eq_Inr case_prod_beta
      split: if_splits accept_result.splits)

lemma accept_inv_reachable: "reachable_server srv0 srv \<Longrightarrow> accept_inv srv0 \<Longrightarrow> accept_inv srv"
  by (induction rule: reachable_server.induct) (auto intro: accept_inv_step)

lemma deaf_step:
  "server_react e srv = Some (Inr srv') \<Longrightarrow> deaf srv \<Longrightarrow>
     deaf srv' \<and> length (sessions srv') = length (sessions srv)"
  by (cases e) (auto simp: deaf_def server_change_defs and_then_eq_Inr case_prod_beta split: if_splits)

lemma deaf_run:
  "server_run es srv = Some (Inr srv') \<Longrightarrow> deaf srv \<Longrightarrow>
     deaf srv' \<and> length (sessions srv') = length (sessions srv)"
proof (induction es arbitrary: srv)
  case (Cons e es)
  then obtain srv1 where "server_react e srv = Some (Inr srv1)" "server_run es srv1 = Some (Inr srv')"
    by (auto split: option.splits sum.splits if_splits)
  with Cons.IH Cons.prems(2) deaf_step show ?case by metis
qed simp

end
