(* ===== verification/Server_Transfer.thy ===== *)
theory Server_Transfer
  imports Server
begin

text \<open>
  Clients that share a server: what one session has stored, by FTP or by HTTP, another one
  serves.
\<close>

definition up :: "ObjectStorage \<Rightarrow> bool" where
  "up srv \<longleftrightarrow> running srv \<and> 0 < srv_workers srv"

lemma step_users:
  assumes "session_step s e (Inr s')"
  shows "user_database s' = user_database s"
proof (cases "\<exists>env. e = MessageReceived env")
  case True
  with assms have "\<exists>env. message_received env s = Inr s'"
    by (cases rule: session_stepE) auto
  then show ?thesis using message_received_sends by blast
next
  case False
  with assms have "same_access s s'" using step_same_access by blast
  then show ?thesis by (simp add: same_access_def)
qed

lemma with_shared_put:
  assumes "user_database s = srv_users srv"
  shows "with_shared (put_session i s srv) s = s"
  using assms by (cases s) (simp add: with_shared_def put_session_def)

lemma put_session_twice: "put_session i s (put_session i s' srv) = put_session i s srv"
  by (simp add: put_session_def)

text \<open>A run of one session is a run of the server.\<close>

lemma server_run_session:
  assumes "up srv" "i < length (sessions srv)" "es \<noteq> []"
    and "run_events es (with_shared srv (sessions srv ! i)) = Some (Inr s')"
  shows "server_run (map (At i) es @ fs) srv = server_run fs (put_session i s' srv)"
  using assms
proof (induction es arbitrary: srv)
  case (Cons e es)
  then obtain s1 where s1: "react e (with_shared srv (sessions srv ! i)) = Some (Inr s1)"
      "run_events es s1 = Some (Inr s')"
    by (auto split: option.splits sum.splits if_splits)
  let ?srv = "put_session i s1 srv"
  have run: "server_run (map (At i) (e # es) @ fs) srv = server_run (map (At i) es @ fs) ?srv"
    using Cons.prems s1(1) by (simp add: up_def)
  show ?case
  proof (cases "es = []")
    case True
    with run s1(2) show ?thesis by simp
  next
    case False
    have "user_database s1 = srv_users srv"
      using s1(1) step_users [of "with_shared srv (sessions srv ! i)" e s1]
      by (simp add: session_step_iff with_shared_def)
    moreover have "sessions ?srv ! i = s1" using Cons.prems(2) by (simp add: put_session_def)
    ultimately have "run_events es (with_shared ?srv (sessions ?srv ! i)) = Some (Inr s')"
      using s1(2) by (simp add: with_shared_put)
    moreover have "up ?srv" "i < length (sessions ?srv)"
      using Cons.prems(1,2) by (simp_all add: up_def put_session_def)
    ultimately show ?thesis using Cons.IH [of ?srv] False run by (simp add: put_session_twice)
  qed
qed simp

definition session_at :: "ObjectStorage \<Rightarrow> nat \<Rightarrow> session" where
  "session_at srv i = with_shared srv (sessions srv ! i)"

lemma session_at_put:
  assumes "i \<noteq> j" "j < length (sessions srv)"
  shows "session_at (put_session i s srv) j = (session_at srv j)\<lparr>filesystem := filesystem s\<rparr>"
  using assms by (simp add: session_at_def put_session_def with_shared_def)

lemma ready_filesystem: "fs_inv m \<Longrightarrow> ready s \<Longrightarrow> ready (s\<lparr>filesystem := m\<rparr>)"
  by (simp add: ready_def)

text \<open>What a client that asks for a path is sent after another session has changed the store.\<close>

lemma get_after_change:
  assumes "up srv" "i < length (sessions srv)" "j < length (sessions srv)" "i \<noteq> j" "es \<noteq> []"
    and "run_events es (session_at srv i) = Some (Inr s')" "fs_inv (filesystem s')"
    and get: "ready (session_at srv j)" "pending (session_at srv j) = request_head ''GET'' uri version hs"
      "plain_request ''GET'' uri version hs" "let_in hs scheme user (session_at srv j)"
  obtains srv' where
    "server_run (map (At i) es @ [At j (MessageReceived env)]) srv = Some (Inr srv')"
    "srv_filesystem srv' = filesystem s'"
    "sent_log (sessions srv' ! j)
       = sent_log (sessions srv ! j) @ [http_serialise (get_answer (filesystem s') uri)]"
proof -
  let ?srv = "put_session i s' srv"
  let ?t = "session_at ?srv j"
  have t: "?t = (session_at srv j)\<lparr>filesystem := filesystem s'\<rparr>"
    using assms(3,4) by (rule session_at_put [rotated])
  then have "ready ?t" "pending ?t = request_head ''GET'' uri version hs" "let_in hs scheme user ?t"
    using get assms(7) by (simp_all add: ready_filesystem pending_def let_in_def)
  then obtain t' where t': "run_events [MessageReceived env] ?t = run_events [] t'"
      "filesystem t' = filesystem ?t"
      "sent_log t' = sent_log ?t @ [http_serialise (get_answer (filesystem ?t) uri)]"
    using get(3) by (metis append_Nil2 get_run)
  have "server_run (map (At i) es @ [At j (MessageReceived env)]) srv
      = server_run (map (At j) [MessageReceived env] @ []) ?srv"
    using assms(1,2,5,6) by (simp add: server_run_session session_at_def)
  also have "\<dots> = server_run [] (put_session j t' ?srv)"
    using assms(1,3) t'(1)
    by (intro server_run_session) (simp_all add: up_def put_session_def session_at_def)
  finally have "server_run (map (At i) es @ [At j (MessageReceived env)]) srv
      = Some (Inr (put_session j t' ?srv))" by simp
  moreover have "srv_filesystem (put_session j t' ?srv) = filesystem s'"
    using t'(2) t by (simp add: put_session_def)
  moreover have "sent_log (sessions (put_session j t' ?srv) ! j)
      = sent_log (sessions srv ! j) @ [http_serialise (get_answer (filesystem s') uri)]"
    using t'(3) assms(3,4) by (simp add: put_session_def session_at_def with_shared_def)
  ultimately show thesis using that by blast
qed

end
