(* ===== verification/Http_Dialogue.thy ===== *)
theory Http_Dialogue
  imports Session_Dialogue
begin

text \<open>
  HTTP as a service on a map of files: what a client that sends one well-formed request after
  the other over one connection is answered, and that the session serves it so.
\<close>

section \<open>The service\<close>

text \<open>
  A request as the client sends it: what it writes, what it knows, and how head and body are cut
  on the way.
\<close>

record client_request =
  req_method :: string
  req_uri :: string
  req_version :: string
  req_headers :: "request_header list"
  req_scheme :: string
  req_user :: User
  head_pieces :: "string list"
  body_pieces :: "string list"

definition req_body :: "client_request \<Rightarrow> string" where
  "req_body r = concat (body_pieces r)"

text \<open>
  The specification. A listing names every stored path on a line of its own, in an order that
  the specification leaves open.
\<close>

inductive web_service :: "client_request \<Rightarrow> (string \<rightharpoonup> File) \<Rightarrow> HttpResponse list \<Rightarrow> (string \<rightharpoonup> File) \<Rightarrow> bool" where
  listed: "req_method r = ''GET'' \<Longrightarrow> req_uri r = ''/'' \<Longrightarrow> is_listing m text \<Longrightarrow>
     web_service r m [HttpResponse_resource Ok text] m"
| found: "req_method r = ''GET'' \<Longrightarrow> req_uri r \<noteq> ''/'' \<Longrightarrow> m (req_uri r) = Some f \<Longrightarrow>
     web_service r m [HttpResponse_resource Ok f] m"
| not_found: "req_method r = ''GET'' \<Longrightarrow> req_uri r \<noteq> ''/'' \<Longrightarrow> m (req_uri r) = None \<Longrightarrow>
     web_service r m [HttpResponse_status NotFound] m"
| stored: "req_method r = ''PUT'' \<Longrightarrow> m (req_uri r) = None \<Longrightarrow>
     web_service r m ((if expects_continue (req_headers r) then [HttpResponse_status Continue] else [])
         @ [HttpResponse_status Created])
       (m(req_uri r \<mapsto> req_body r))"
| taken: "req_method r = ''PUT'' \<Longrightarrow> m (req_uri r) \<noteq> None \<Longrightarrow>
     web_service r m ((if expects_continue (req_headers r) then [HttpResponse_status Continue] else [])
         @ [HttpResponse_status NotFound]) m"
| removed: "req_method r = ''DELETE'' \<Longrightarrow> m (req_uri r) \<noteq> None \<Longrightarrow>
     web_service r m [HttpResponse_status Ok] (m(req_uri r := None))"
| nothing_removed: "req_method r = ''DELETE'' \<Longrightarrow> m (req_uri r) = None \<Longrightarrow>
     web_service r m [HttpResponse_status NotFound] m"

inductive_simps web_service_iff: "web_service r m as m'"

section \<open>The session\<close>

definition head_of :: "client_request \<Rightarrow> string" where
  "head_of r = request_head (req_method r) (req_uri r) (req_version r) (req_headers r)"

definition sound_head :: "session \<Rightarrow> client_request \<Rightarrow> bool" where
  "sound_head s r \<longleftrightarrow>
     plain_request (req_method r) (req_uri r) (req_version r) (req_headers r)
     \<and> let_in (req_headers r) (req_scheme r) (req_user r) s"

text \<open>
  A request the session serves: GET, DELETE, or PUT with a body of the size it says; head and
  body come in pieces that are not empty, the body after the head has been read.
\<close>

definition sound_request :: "session \<Rightarrow> client_request \<Rightarrow> bool" where
  "sound_request s r \<longleftrightarrow>
     sound_head s r \<and> concat (head_pieces r) = head_of r
     \<and> [] \<notin> set (head_pieces r) \<and> [] \<notin> set (body_pieces r)
     \<and> (req_method r = ''GET'' \<or> req_method r = ''DELETE''
        \<or> req_method r = ''PUT'' \<and> size_of_request (req_headers r) = length (req_body r))"

definition request_events :: "acceptor_env \<Rightarrow> client_request \<Rightarrow> event list" where
  "request_events env r =
     map Arrive (head_pieces r) @ MessageReceived env #
     (if req_method r = ''PUT''
      then map Arrive (body_pieces r) @ [BodyRead (length (req_body r), req_uri r)] else [])"

definition http_idle :: "session \<Rightarrow> bool" where
  "http_idle s \<longleftrightarrow> ready s \<and> pending s = []"

definition stored_files :: "session \<Rightarrow> string \<rightharpoonup> File" where
  "stored_files s = fs_map (filesystem s)"

lemma get_serves:
  assumes "fs_inv m" "req_method r = ''GET''"
  shows "web_service r (fs_map m) [get_answer m (req_uri r)] (fs_map m)"
  using directory_listing_lists [OF assms(1)] web_service.intros(1-3) [OF assms(2), where m = "fs_map m"]
  by (auto simp: get_answer_def split: option.splits)

lemma delete_serves:
  assumes "fs_inv m" "req_method r = ''DELETE''"
  shows "web_service r (fs_map m) [delete_answer m (req_uri r)] (fs_map (snd (fs_remove m (req_uri r))))"
proof (cases "fs_map m (req_uri r)")
  case None
  then have "(fs_map m)(req_uri r := None) = fs_map m" by (simp add: fun_upd_idem)
  with None show ?thesis
    using web_service.nothing_removed [OF assms(2), of "fs_map m"] None
    by (simp add: delete_answer_def memfs.remove_abs [OF assms(1)])
next
  case (Some f)
  then show ?thesis
    using web_service.removed [OF assms(2), of "fs_map m"]
    by (simp add: delete_answer_def memfs.remove_abs [OF assms(1)])
qed

lemma put_serves:
  assumes "fs_inv m" "req_method r = ''PUT''"
  shows "\<exists>as. web_service r (fs_map m) as (fs_map (snd (fs_add m (req_uri r) (req_body r))))
    \<and> map http_serialise as = continue_messages (req_headers r) @ [http_serialise (put_answer m (req_uri r))]"
proof (cases "fs_map m (req_uri r)")
  case None
  show ?thesis
    using web_service.stored [OF assms(2), of "fs_map m"] None
    by (intro exI conjI) (auto simp: continue_messages_def put_answer_def memfs.add_abs [OF assms(1)] domIff)
next
  case (Some f)
  then show ?thesis
    using web_service.taken [OF assms(2), of "fs_map m"]
    by (intro exI conjI) (auto simp: continue_messages_def put_answer_def memfs.add_abs [OF assms(1)] domIff)
qed

text \<open>A request that needs no body, at the front of what has arrived.\<close>

definition bodyless :: "client_request \<Rightarrow> bool" where
  "bodyless r \<longleftrightarrow> req_method r = ''GET'' \<or> req_method r = ''DELETE''"

lemma head_answered:
  assumes "ready s" "pending s = head_of r @ rest" "sound_head s r" "bodyless r"
  shows "\<exists>s' as. run_events [MessageReceived env] s = Some (Inr s') \<and> ready s' \<and> pending s' = rest
    \<and> same_client s s' \<and> sent_log s' = sent_log s @ map http_serialise as
    \<and> web_service r (stored_files s) as (stored_files s') \<and> ftp_apart s s'"
proof -
  have inv: "fs_inv (filesystem s)" using assms(1) by (simp add: ready_def)
  have r: "plain_request (req_method r) (req_uri r) (req_version r) (req_headers r)"
    and l: "let_in (req_headers r) (req_scheme r) (req_user r) s"
    using assms(3) by (simp_all add: sound_head_def)
  note p = assms(2) [unfolded head_of_def]
  from assms(4) consider (get) "req_method r = ''GET''" | (delete) "req_method r = ''DELETE''"
    by (auto simp: bodyless_def)
  then show ?thesis
  proof cases
    case get
    obtain s' where "run_events (MessageReceived env # []) s = run_events [] s'" "ready s'"
        "same_client s s'" "pending s' = rest" "filesystem s' = filesystem s"
        "sent_log s' = sent_log s @ [http_serialise (get_answer (filesystem s) (req_uri r))]" "ftp_apart s s'"
      by (rule get_run [OF assms(1) p [unfolded get] r [unfolded get] l, where env = env and es = "[]"])
    with get_serves [OF inv get] show ?thesis
      by (intro exI [of _ s'] exI [of _ "[get_answer (filesystem s) (req_uri r)]"])
        (simp add: stored_files_def)
  next
    case delete
    obtain s' where "run_events (MessageReceived env # []) s = run_events [] s'" "ready s'"
        "same_client s s'" "pending s' = rest" "filesystem s' = snd (fs_remove (filesystem s) (req_uri r))"
        "sent_log s' = sent_log s @ [http_serialise (delete_answer (filesystem s) (req_uri r))]" "ftp_apart s s'"
      by (rule delete_run [OF assms(1) p [unfolded delete] r [unfolded delete] l, where env = env and es = "[]"])
    with delete_serves [OF inv delete] show ?thesis
      by (intro exI [of _ s'] exI [of _ "[delete_answer (filesystem s) (req_uri r)]"])
        (simp add: stored_files_def)
  qed
qed

lemma ftp_apart_rx [simp]: "ftp_apart (s\<lparr>socket_rx := xs\<rparr>) s' = ftp_apart s s'"
  by (simp add: ftp_apart_def ftp_untouched_def data_tasks_def)

text \<open>One request, from its first byte to its answer.\<close>

lemma request_arrives:
  assumes "http_idle s" "sound_request s r"
  defines "s1 \<equiv> s\<lparr>socket_rx := socket_rx s @ head_pieces r\<rparr>"
  shows "run_events (map Arrive (head_pieces r) @ es) s = run_events es s1" "ready s1"
    "pending s1 = head_of r" "same_client s s1" "filesystem s1 = filesystem s" "sent_log s1 = sent_log s"
    "let_in (req_headers r) (req_scheme r) (req_user r) s1"
  using assms run_arrivals [of s "head_pieces r" es]
  by (auto simp: http_idle_def sound_request_def sound_head_def ready_def same_client_def let_in_def)

lemma request_answered:
  assumes "http_idle s" "sound_request s r"
  shows "\<exists>s' as. run_events (request_events env r) s = Some (Inr s') \<and> http_idle s' \<and> same_client s s'
    \<and> sent_log s' = sent_log s @ map http_serialise as
    \<and> web_service r (stored_files s) as (stored_files s') \<and> ftp_apart s s'"
proof -
  let ?s1 = "s\<lparr>socket_rx := socket_rx s @ head_pieces r\<rparr>"
  note a = request_arrives [OF assms]
  have inv: "fs_inv (filesystem s)" using assms(1) by (simp add: http_idle_def ready_def)
  have head: "sound_head s r" using assms(2) by (simp add: sound_request_def)
  consider (bodyless) "bodyless r" "req_method r \<noteq> ''PUT''"
    | (put) "req_method r = ''PUT''" "size_of_request (req_headers r) = length (req_body r)" "[] \<notin> set (body_pieces r)"
    using assms(2) by (auto simp: sound_request_def bodyless_def)
  then show ?thesis
  proof cases
    case bodyless
    have "sound_head ?s1 r" using head a(7) by (simp add: sound_head_def)
    then obtain s' as where "run_events [MessageReceived env] ?s1 = Some (Inr s')" "ready s'"
        "pending s' = []" "same_client ?s1 s'" "sent_log s' = sent_log ?s1 @ map http_serialise as"
        "web_service r (stored_files ?s1) as (stored_files s')" "ftp_apart ?s1 s'"
      using head_answered [OF a(2), of r "[]" env] a(3) bodyless(1) by auto
    with a bodyless(2) show ?thesis
      by (intro exI [of _ s'] exI [of _ as])
        (simp add: request_events_def http_idle_def same_client_def stored_files_def)
  next
    case put
    then have p: "pending ?s1 = request_head ''PUT'' (req_uri r) (req_version r) (req_headers r)"
      and r: "plain_request ''PUT'' (req_uri r) (req_version r) (req_headers r)"
      using a(3) head by (simp_all add: head_of_def sound_head_def)
    obtain s' where s': "run_events (MessageReceived env # map Arrive (body_pieces r)
          @ BodyRead (length (req_body r), req_uri r) # []) ?s1 = run_events [] s'" "ready s'"
        "same_client ?s1 s'" "pending s' = []"
        "filesystem s' = snd (fs_add (filesystem ?s1) (req_uri r) (req_body r))"
        "sent_log s' = sent_log ?s1 @ continue_messages (req_headers r)
          @ [http_serialise (put_answer (filesystem ?s1) (req_uri r))]" "ftp_apart ?s1 s'"
      by (rule put_run [OF a(2) p r a(7) put(2) _ put(3), where env = env and es = "[]"])
        (simp_all add: req_body_def)
    obtain as where "web_service r (stored_files s) as (fs_map (filesystem s'))"
        "map http_serialise as = continue_messages (req_headers r) @ [http_serialise (put_answer (filesystem s) (req_uri r))]"
      using put_serves [OF inv put(1)] s'(5) a(5) by (auto simp: stored_files_def)
    with put s' a show ?thesis
      by (intro exI [of _ s'] exI [of _ as])
        (simp add: request_events_def http_idle_def same_client_def stored_files_def)
  qed
qed

lemma sound_request_client: "same_client s s' \<Longrightarrow> sound_request s r \<Longrightarrow> sound_request s' r"
  by (simp add: sound_request_def sound_head_def let_in_same)

interpretation http: dialogue http_idle sound_request "\<lambda>r es. es = request_events env r" http_serialise
    stored_files web_service
  for env
  by unfold_locales (use request_answered in blast, fact sound_request_client)

lemma list_all2_map: "list_all2 (\<lambda>x y. y = f x) xs ys \<longleftrightarrow> ys = map f xs"
  by (induction xs arbitrary: ys) (auto simp: list_all2_Cons1)

section \<open>Properties\<close>

definition sample_get :: client_request where
  "sample_get = \<lparr>req_method = ''GET'', req_uri = ''/a'', req_version = ''HTTP/1.1'', req_headers = get_headers,
     req_scheme = ''Basic'', req_user = nord,
     head_pieces = [request_head ''GET'' ''/a'' ''HTTP/1.1'' get_headers], body_pieces = []\<rparr>"

definition sample_put :: client_request where
  "sample_put = \<lparr>req_method = ''PUT'', req_uri = ''/a'', req_version = ''HTTP/1.1'', req_headers = put_headers,
     req_scheme = ''Basic'', req_user = nord,
     head_pieces = [request_head ''PUT'' ''/a'' ''HTTP/1.1'' put_headers], body_pieces = [''he'', ''llo'']\<rparr>"

definition sample_delete :: client_request where
  "sample_delete = \<lparr>req_method = ''DELETE'', req_uri = ''/a'', req_version = ''HTTP/1.1'', req_headers = get_headers,
     req_scheme = ''Basic'', req_user = nord,
     head_pieces = [request_head ''DELETE'' ''/a'' ''HTTP/1.1'' get_headers], body_pieces = []\<rparr>"

lemma sample_sound:
  "sound_head (http_session rx) sample_get" "sound_head (http_session rx) sample_delete"
  "list_all (sound_request (http_session rx)) [sample_put, sample_get, sample_delete, sample_get]"
proof -
  have "read_dec ''5'' = 5" by code_simp
  then show "sound_head (http_session rx) sample_get" "sound_head (http_session rx) sample_delete"
    "list_all (sound_request (http_session rx)) [sample_put, sample_get, sample_delete, sample_get]"
    using sample_requests sample_let_in
    by (simp_all add: sound_request_def sound_head_def sample_put_def sample_get_def sample_delete_def
        head_of_def req_body_def size_of_request_def sample_fields request_head_def)
qed

text \<open>
  C6. A client that sends well-formed requests with accepted credentials one after the other over
  one connection is served as the service on the map of files serves them: every answer follows
  from the files at its time, and the files are in the end what the requests made of them. Each
  head, and each body of a PUT, may be cut on the way in any way, but no piece holds bytes of both,
  and the body comes after its head has been read (what is read together with the head is lost).
\<close>

theorem http_session_serves:
  assumes "ready s" "pending s = []" "list_all (sound_request s) rs"
  shows "\<exists>s' as. run_events (concat (map (request_events env) rs)) s = Some (Inr s') \<and> ready s'
    \<and> sent_log s' = sent_log s @ map http_serialise as
    \<and> service_run web_service rs (fs_map (filesystem s)) as (fs_map (filesystem s'))"
  using http.all_answered [of s rs env] assms by (auto simp: http_idle_def stored_files_def list_all2_map)

lemma sample_served:
  assumes "service_run web_service [sample_put, sample_get, sample_delete, sample_get] Map.empty as m"
  shows "as = [HttpResponse_status Created, HttpResponse_resource Ok ''hello'', HttpResponse_status Ok,
      HttpResponse_status NotFound] \<and> m = Map.empty"
proof -
  have "\<not> expects_continue put_headers" by code_simp
  with assms show ?thesis
    by (simp add: web_service_iff sample_put_def sample_get_def sample_delete_def req_body_def)
qed

lemma http_session_serves_witness:
  "\<exists>s'. run_events (concat (map (request_events sample_env) [sample_put, sample_get, sample_delete, sample_get]))
        (http_session []) = Some (Inr s') \<and> ready s'
    \<and> sent_log s' = map http_serialise [HttpResponse_status Created, HttpResponse_resource Ok ''hello'',
         HttpResponse_status Ok, HttpResponse_status NotFound]
    \<and> fs_map (filesystem s') = Map.empty"
proof -
  let ?s = "http_session []"
  have s: "sent_log ?s = []" "fs_map (filesystem ?s) = Map.empty"
    by (simp_all add: http_session_def sample_session_def new_session_def)
  have "pending ?s = []" by (simp add: sample_pending)
  from http_session_serves [OF sample_ready this sample_sound(3), of sample_env] obtain s' as where
    "run_events (concat (map (request_events sample_env) [sample_put, sample_get, sample_delete, sample_get])) ?s
      = Some (Inr s')" "ready s'" "sent_log s' = sent_log ?s @ map http_serialise as"
    "service_run web_service [sample_put, sample_get, sample_delete, sample_get] Map.empty as (fs_map (filesystem s'))"
    unfolding s(2) by blast
  with sample_served s(1) show ?thesis by (intro exI [of _ s']) auto
qed

text \<open>
  C7. Several GET and DELETE requests that have arrived together are all answered, in their
  order, and what follows them in the stream is left for the reads to come.
\<close>

theorem http_pipeline_in_order:
  assumes "ready s" "pending s = concat (map head_of rs) @ rest"
    and "list_all (sound_head s) rs" "list_all bodyless rs"
  shows "\<exists>s' as. run_events (map (\<lambda>r. MessageReceived env) rs) s = Some (Inr s') \<and> ready s' \<and> pending s' = rest
    \<and> sent_log s' = sent_log s @ map http_serialise as
    \<and> service_run web_service rs (fs_map (filesystem s)) as (fs_map (filesystem s'))"
  using assms
proof (induction rs arbitrary: s)
  case Nil
  then show ?case by simp
next
  case (Cons r rs)
  then have "pending s = head_of r @ concat (map head_of rs) @ rest" "sound_head s r" "bodyless r"
    by simp_all
  from head_answered [OF Cons.prems(1) this, of env] obtain s1 as where
    s1: "run_events [MessageReceived env] s = Some (Inr s1)" "ready s1" "pending s1 = concat (map head_of rs) @ rest"
      "same_client s s1" "sent_log s1 = sent_log s @ map http_serialise as"
      "web_service r (fs_map (filesystem s)) as (fs_map (filesystem s1))"
    by (auto simp: stored_files_def)
  have "list_all (sound_head s1) rs"
    using Cons.prems(3) let_in_same [OF s1(4)] by (auto simp: sound_head_def list_all_iff)
  from Cons.IH [OF s1(2,3) this] Cons.prems(4) obtain s2 bs where
    s2: "run_events (map (\<lambda>r. MessageReceived env) rs) s1 = Some (Inr s2)" "ready s2" "pending s2 = rest"
      "sent_log s2 = sent_log s1 @ map http_serialise bs"
      "service_run web_service rs (fs_map (filesystem s1)) bs (fs_map (filesystem s2))"
    by auto
  have "run_events (map (\<lambda>r. MessageReceived env) (r # rs)) s = Some (Inr s2)"
    using run_events_append [OF s1(1), of "map (\<lambda>r. MessageReceived env) rs"] s2(1) by simp
  moreover note service_run.more [OF s1(6) s2(5)]
  ultimately show ?case using s1(5) s2(2-4) by (intro exI [of _ s2] exI [of _ "as @ bs"]) simp
qed

lemma http_pipeline_in_order_witness:
  "\<exists>s' as. run_events (map (\<lambda>r. MessageReceived sample_env) [sample_get, sample_delete, sample_get])
        (http_session [concat (map head_of [sample_get, sample_delete, sample_get]) @ ''GET'']) = Some (Inr s')
    \<and> ready s' \<and> pending s' = ''GET''
    \<and> sent_log s' = sent_log (http_session [concat (map head_of [sample_get, sample_delete, sample_get]) @ ''GET''])
        @ map http_serialise as
    \<and> service_run web_service [sample_get, sample_delete, sample_get]
        (fs_map (filesystem (http_session [concat (map head_of [sample_get, sample_delete, sample_get]) @ ''GET''])))
        as (fs_map (filesystem s'))"
  by (rule http_pipeline_in_order)
    (use sample_ready sample_sound in \<open>simp_all add: sample_pending bodyless_def sample_get_def sample_delete_def\<close>)

end
