(* ===== verification/Mixed_Dialogue.thy ===== *)
theory Mixed_Dialogue
  imports Http_Dialogue Ftp_Machine
begin

text \<open>
  Both protocols on one connection: a client may send HTTP requests and FTP commands in any
  order. The service is the FTP automaton with the HTTP service on its files.
\<close>

datatype request = Web client_request | Line client_command

inductive mixed_service :: "request \<Rightarrow> account \<Rightarrow> (FtpResponse + HttpResponse) list \<Rightarrow> account \<Rightarrow> bool" where
  web: "web_service r (acc_files a) as m \<Longrightarrow> mixed_service (Web r) a (map Inr as) (a\<lparr>acc_files := m\<rparr>)"
| line: "ftp_service c a as b \<Longrightarrow> mixed_service (Line c) a (map Inl as) b"

definition serialise :: "FtpResponse + HttpResponse \<Rightarrow> string" where
  "serialise = case_sum ftp_serialise http_serialise"

lemma serialise_simps [simp]: "serialise (Inl r) = ftp_serialise r" "serialise (Inr q) = http_serialise q"
  by (simp_all add: serialise_def)

fun mixed_sound :: "session \<Rightarrow> request \<Rightarrow> bool" where
  "mixed_sound s (Web r) = sound_request s r"
| "mixed_sound s (Line c) = sound_command c"

fun mixed_schedule :: "acceptor_env \<Rightarrow> request \<Rightarrow> event list \<Rightarrow> bool" where
  "mixed_schedule env (Web r) es = (es = request_events env r)"
| "mixed_schedule env (Line c) es = command_schedule c es"

lemma web_answered:
  assumes "ftp_idle s" "sound_request s r"
  shows "\<exists>s' as. run_events (request_events env r) s = Some (Inr s') \<and> ftp_idle s' \<and> same_client s s'
    \<and> sent_log s' = sent_log s @ map http_serialise as
    \<and> mixed_service (Web r) (account_of s) (map Inr as) (account_of s')"
proof -
  have "http_idle s" using assms(1) by (simp add: ftp_idle_def calm_def http_idle_def)
  then obtain s' as where s': "run_events (request_events env r) s = Some (Inr s')" "http_idle s'"
      "same_client s s'" "sent_log s' = sent_log s @ map http_serialise as"
      "web_service r (acc_files (account_of s)) as (fs_map (filesystem s'))" "ftp_apart s s'"
    using request_answered [of s r env] assms(2) by (auto simp: stored_files_def)
  have "ftp_idle s'"
    using s'(2,6) assms(1)
    by (auto simp: ftp_idle_def calm_def http_idle_def ftp_apart_def ftp_untouched_def data_tasks_def
        data_idle_def login_inv_def)
  moreover have "account_of s' = (account_of s)\<lparr>acc_files := fs_map (filesystem s')\<rparr>"
    using s'(3,6) by (auto simp: account_of_def login_of_def ftp_apart_def ftp_untouched_def data_tasks_def
        same_client_def split: option.splits)
  ultimately show ?thesis using s'(1,3,4) mixed_service.web [OF s'(5)]
    by (intro exI [of _ s'] exI [of _ as]) simp
qed

lemma mixed_answered:
  assumes "ftp_idle s" "mixed_sound s q"
  shows "\<exists>es s' as. mixed_schedule env q es \<and> run_events es s = Some (Inr s') \<and> ftp_idle s' \<and> same_client s s'
    \<and> sent_log s' = sent_log s @ map serialise as \<and> mixed_service q (account_of s) as (account_of s')"
proof (cases q)
  case (Web r)
  with assms obtain s' as where "run_events (request_events env r) s = Some (Inr s')" "ftp_idle s'"
      "same_client s s'" "sent_log s' = sent_log s @ map http_serialise as"
      "mixed_service (Web r) (account_of s) (map Inr as) (account_of s')"
    using web_answered [of s r env] by auto
  with Web show ?thesis
    by (intro exI [of _ "request_events env r"] exI [of _ s'] exI [of _ "map Inr as"]) simp
next
  case (Line c)
  with assms obtain es s' as where "command_schedule c es" "run_events es s = Some (Inr s')" "ftp_idle s'"
      "same_client s s'" "sent_log s' = sent_log s @ map ftp_serialise as"
      "ftp_service c (account_of s) as (account_of s')"
    using command_served [of s c] by auto
  with Line show ?thesis
    by (intro exI [of _ es] exI [of _ s'] exI [of _ "map Inl as"]) (simp add: mixed_service.line)
qed

lemma mixed_sound_client: "same_client s s' \<Longrightarrow> mixed_sound s q \<Longrightarrow> mixed_sound s' q"
  by (cases q) (simp_all add: sound_request_client)

interpretation mixed: dialogue ftp_idle mixed_sound "mixed_schedule env" serialise account_of mixed_service
  for env
  by unfold_locales (fact mixed_answered, fact mixed_sound_client)

end
