(* ===== verification/Reply_Stream.thy ===== *)
theory Reply_Stream
  imports Server_Transfer Mixed_Dialogue
begin

text \<open>
  Both protocols share the control connection, so a client reads a stream of FTP replies and
  HTTP responses. This reader tells them apart by their first bytes; with it, what a session
  writes is a sequence of messages that can be read back.
\<close>

datatype reply = FtpReply FtpResponse | HttpReply HttpResponse

fun reply_text :: "reply \<Rightarrow> string" where
  "reply_text (FtpReply r) = ftp_serialise r"
| "reply_text (HttpReply r) = http_serialise r"

fun wf_reply :: "reply \<Rightarrow> bool" where
  "wf_reply (FtpReply r) \<longleftrightarrow> single_line (ftp_text r)"
| "wf_reply (HttpReply r) \<longleftrightarrow> wf_response r"

definition read_any :: "string \<Rightarrow> (reply \<times> string) option" where
  "read_any s =
     (if take 1 s = ''H'' then map_option (\<lambda>(r, rest). (HttpReply r, rest)) (read_response s)
      else map_option (\<lambda>(r, rest). (FtpReply r, rest)) (read_reply s))"

lemma ftp_serialise_no_H: "take 1 (ftp_serialise r @ rest) \<noteq> ''H''"
proof -
  obtain c cs where t: "to_string (ftp_code (ftp_reply_code r)) = c # cs"
    by (cases "to_string (ftp_code (ftp_reply_code r))") auto
  have "is_digit c" using to_string_digits [of "ftp_code (ftp_reply_code r)"] t by simp
  then have "c \<noteq> CHR ''H''" by (auto simp: is_digit_def)
  with t show ?thesis by (simp add: ftp_serialise_def)
qed

lemma http_serialise_H: "take 1 (http_serialise r @ rest) = ''H''"
  by (simp add: http_serialise_def kHttpVersion_def)

interpretation any_reply: stream_codec reply_text read_any wf_reply
proof
  fix x rest
  assume wf: "wf_reply x"
  show "read_any (reply_text x @ rest) = Some (x, rest)"
  proof (cases x)
    case (FtpReply r)
    with wf show ?thesis
      using ftp_serialise_no_H [of r rest]
      by (simp add: read_any_def read_reply_serialise single_line_def)
  next
    case (HttpReply r)
    with wf show ?thesis
      using http_serialise_H [of r rest] by (simp add: read_any_def read_response_serialise)
  qed
qed

lemma is_reply_text: "is_reply m \<Longrightarrow> \<exists>r. wf_reply r \<and> m = reply_text r"
  by (metis is_reply_def is_ftp_reply_def is_http_reply_def reply_text.simps wf_reply.simps)

lemma replies_texts: "list_all is_reply ms \<Longrightarrow> \<exists>rs. list_all wf_reply rs \<and> ms = map reply_text rs"
proof (induction ms)
  case (Cons m ms)
  then obtain rs where "list_all wf_reply rs" "ms = map reply_text rs" by auto
  moreover obtain r where "wf_reply r" "m = reply_text r"
    using is_reply_text [of m] Cons.prems by auto
  ultimately show ?case by (intro exI [of _ "r # rs"]) simp
qed simp

section \<open>A server to try the properties on\<close>

definition sample_listen_env :: listen_env where
  "sample_listen_env = \<lparr>address_ok = (\<lambda>a. a = ''127.0.0.1''), srv_open_ok = True, reuse_ok = True, srv_bind_ok = True, srv_listen_ok = True\<rparr>"

definition idle_server :: ObjectStorage where
  "idle_server = new_server front_order ''127.0.0.1'' 1670 Info True sample_ports"

definition ftp_client_session :: session where
  "ftp_client_session = start (new_session sample_users True (fs_empty front_order) sample_ports (Some [127, 0, 0, 1]) 2500)"

definition sample_server :: ObjectStorage where
  "sample_server = idle_server\<lparr>srv_users := sample_users, listener := Listening 1670, accepting := True,
     srv_workers := 1, sessions := [ftp_client_session]\<rparr>"

lemma sample_server_reachable: "reachable_server idle_server sample_server"
proof -
  let ?s1 = "idle_server\<lparr>srv_users := sample_users\<rparr>"
  let ?s2 = "?s1\<lparr>listener := Listening 1670, accepting := True, srv_workers := 1\<rparr>"
  have "server_react (Add_User ''Nord'' ''VPN'') idle_server = Some (Inr ?s1)"
    by (simp add: addUser_def idle_server_def new_server_def db_add_def requirePassword_def
        kUsersWithoutPassword_def sample_users_def)
  then have "reachable_server idle_server ?s1"
    by (rule server_step [OF server_init])
  moreover have "server_react (Start sample_listen_env 1) ?s1 = Some (Inr ?s2)"
    by (simp add: server_start_def configureAcceptor_def sample_listen_env_def idle_server_def
        new_server_def sample_ports_def is_open_def)
  ultimately have "reachable_server idle_server ?s2" by (rule server_step)
  moreover have "server_react (Accepted (Client 2500 (Some [127, 0, 0, 1]))) ?s2 = Some (Inr sample_server)"
    by (simp add: acceptConnection_def sample_server_def idle_server_def new_server_def ftp_client_session_def)
  ultimately show ?thesis by (rule server_step)
qed

lemmas sample_reached = sample_server_reachable [unfolded idle_server_def]

lemma sample_server_sessions: "ftp_client_session \<in> set (sessions sample_server)"
  by (simp add: sample_server_def)

lemma server_run_reachable:
  "server_run es srv = Some (Inr srv') \<Longrightarrow> reachable_server srv0 srv \<Longrightarrow> reachable_server srv0 srv'"
proof (induction es arbitrary: srv)
  case (Cons e es)
  then obtain srv1 where "server_react e srv = Some (Inr srv1)" "server_run es srv1 = Some (Inr srv')"
    by (auto split: option.splits sum.splits if_splits)
  with Cons server_step show ?case by blast
qed simp

text \<open>Its client's session, once it waits for the first message.\<close>

definition greeted_session :: session where
  "greeted_session = receiveMessage (ftp_client_session\<lparr>serializer := [EnqueueMessage welcome_message]\<rparr>)"

lemmas greeted_session_defs = greeted_session_def ftp_client_session_def fresh_session_defs receiveMessage_def
  sample_ports_def

lemma greeted_session_run:
  "react RunTask ftp_client_session = Some (Inr greeted_session)"
  by (simp add: greeted_session_defs)

lemma greeted_session_idle: "ftp_idle greeted_session"
  by (simp add: ftp_idle_def calm_def ready_def pending_def data_idle_def login_inv_def greeted_session_defs)

lemma greeted_session_account: "account_of greeted_session = sample_account"
  by (simp add: account_of_def login_of_def sample_account_def greeted_session_defs)

lemma greeted_session_sound:
  "list_all (sound_request greeted_session) [sample_put, sample_get, sample_delete, sample_get]"
proof -
  have "same_client (http_session []) greeted_session"
    by (simp add: same_client_def greeted_session_defs http_session_def sample_session_def)
  from sound_request_client [OF this] sample_sound(3) show ?thesis by simp
qed

lemma greeted_session_reached:
  assumes "run_events es greeted_session = Some (Inr s)"
  shows "reachable_server idle_server (put_session 0 s sample_server)"
    and "s \<in> set (sessions (put_session 0 s sample_server))"
proof -
  have "with_shared sample_server (sessions sample_server ! 0) = ftp_client_session"
    by (simp add: with_shared_def sample_server_def idle_server_def new_server_def ftp_client_session_def fresh_session_defs)
  moreover have "run_events (RunTask # es) ftp_client_session = Some (Inr s)"
    using assms greeted_session_run by simp
  moreover have "up sample_server" "0 < length (sessions sample_server)"
    by (simp_all add: up_def sample_server_def idle_server_def new_server_def)
  ultimately have "server_run (map (At 0) (RunTask # es) @ []) sample_server
      = server_run [] (put_session 0 s sample_server)"
    by (intro server_run_session) simp_all
  then show "reachable_server idle_server (put_session 0 s sample_server)"
    using server_run_reachable [OF _ sample_server_reachable] by (simp only: server_run.simps(1))
  show "s \<in> set (sessions (put_session 0 s sample_server))" by (simp add: put_session_def sample_server_def)
qed

section \<open>Properties\<close>

text \<open>
  C11. Replies leave in the order in which they were sent, none lost and none doubled: at any
  time the messages handed to a session are those on the wire, then those in its queue, then
  those of tasks not run yet; and one write at most is in progress, of the message at the head
  of the queue.
\<close>

theorem replies_in_order:
  assumes "reachable_server (new_server order address p level auth ports) srv" "s \<in> set (sessions srv)"
  shows "sent_log s = wire s @ output_queue s @ queued (serializer s)
    \<and> (writes s = [] \<or> (\<exists>m rest. output_queue s = m # rest \<and> writes s = [m]))"
  using replies.everywhere [OF assms(1) _ assms(2)] by (simp add: new_server_def reply_inv_def)

lemma replies_in_order_witness:
  "sent_log ftp_client_session = wire ftp_client_session @ output_queue ftp_client_session
      @ queued (serializer ftp_client_session)
    \<and> (writes ftp_client_session = []
       \<or> (\<exists>m rest. output_queue ftp_client_session = m # rest \<and> writes ftp_client_session = [m]))"
  by (rule replies_in_order [OF sample_reached sample_server_sessions])

text \<open>
  C12. What a session has written can be read back: the bytes on the wire are a sequence of
  well-formed FTP replies and HTTP responses, and a client that reads one after the other gets
  exactly those, with nothing left over.
\<close>

theorem wire_read_back:
  assumes "reachable_server (new_server order address p level auth ports) srv" "s \<in> set (sessions srv)"
  shows "\<exists>rs. list_all wf_reply rs \<and> wire s = map reply_text rs
    \<and> read_messages read_any (length rs) (concat (wire s)) = Some (rs, [])"
proof -
  have "reply_inv s"
    using replies.everywhere [OF assms(1) _ assms(2)] by (simp add: new_server_def)
  then have "list_all is_reply (wire s)" by (auto simp: reply_inv_def)
  then obtain rs where "list_all wf_reply rs" "wire s = map reply_text rs"
    using replies_texts by blast
  with any_reply.read_all [of rs "[]"] show ?thesis by auto
qed

text \<open>A client that is greeted, says USER and sends a GET request, and to whom all replies have been written.\<close>

definition sample_stream :: "reply list" where
  "sample_stream =
     [FtpReply (FtpResponse2 SERVICE_READY_FOR_NEW_USER ''Welcome to ObjectStorage server''),
      FtpReply (FtpResponse2 USER_NAME_OK ''Please provide password''),
      HttpReply (HttpResponse_status NotFound)]"

lemma no_write_fails [simp]:
  "\<not> write_fails (Arrive x)" "\<not> write_fails (MessageReceived env)" "\<not> write_fails (BodyRead b)"
  "data_event e \<Longrightarrow> \<not> write_fails e"
  by (cases e; simp add: write_fails_def)+

lemma sample_stream_written:
  "\<exists>es s. run_events es greeted_session = Some (Inr s) \<and> wire s = map reply_text sample_stream"
proof -
  let ?qs = "[Line (sample_command [''USER'', ''Nord'']), Web sample_get]"
  have "sound_words [''USER'', ''Nord'']" by code_simp
  then have "sound_command (sample_command [''USER'', ''Nord''])"
    by (simp add: sample_command_def sound_command_def receive_buffer_size_def crlf_def)
  then have "list_all (mixed_sound greeted_session) ?qs" using greeted_session_sound by simp
  from mixed.all_answered [OF greeted_session_idle this, of sample_env]
  obtain ess s ms where s: "list_all2 (mixed_schedule sample_env) ?qs ess"
      "run_events (concat ess) greeted_session = Some (Inr s)"
      "sent_log s = sent_log greeted_session @ map serialise ms"
      "service_run mixed_service ?qs sample_account ms (account_of s)"
    unfolding greeted_session_account by blast
  have "sent_log greeted_session = [welcome_message]" by (simp add: greeted_session_defs)
  moreover have "ms = [Inl (FtpResponse2 USER_NAME_OK ''Please provide password''), Inr (HttpResponse_status NotFound)]"
    using s(4) by (auto simp: mixed_service.simps web_service_iff evaluate_machine sample_get_def req_body_def)
  ultimately have log: "sent_log s = map reply_text sample_stream"
    using s(3) by (simp add: sample_stream_def welcome_message_def serialise_def)
  have "healthy greeted_session"
    by (simp add: healthy_def reply_inv_def greeted_session_defs)
  moreover have "\<forall>e \<in> set (concat ess). \<not> write_fails e"
    using s(1) by (auto simp: list_all2_Cons1 request_events_def command_schedule_def list_all_iff
        split: if_splits)
  ultimately have "healthy s" using healthy_run [OF s(2)] by blast
  from flush_delivers [OF this le_refl] obtain s' where
    "run_events (flush (backlog s) s) s = Some (Inr s')" "wire s' = sent_log s" by blast
  with log run_events_append [OF s(2), of "flush (backlog s) s"] show ?thesis by metis
qed

lemma wire_read_back_witness:
  "\<exists>(srv :: ObjectStorage) (s :: session). s \<in> set (sessions srv) \<and> wire s = map reply_text sample_stream
    \<and> read_messages read_any 3 (concat (wire s)) = Some (sample_stream, [])"
proof -
  obtain es s where s: "run_events es greeted_session = Some (Inr s)" "wire s = map reply_text sample_stream"
    using sample_stream_written by blast
  obtain srv where srv: "reachable_server idle_server srv" "s \<in> set (sessions srv)"
    using greeted_session_reached [OF s(1)] by blast
  obtain rs where rs: "map reply_text rs = map reply_text sample_stream"
      "read_messages read_any (length rs) (concat (wire s)) = Some (rs, [])"
    using wire_read_back [OF srv(1) [unfolded idle_server_def] srv(2)] s(2) by auto
  have "list_all wf_reply sample_stream"
    by (simp add: sample_stream_def FtpResponse2_def)
  from any_reply.read_all [OF this, of "[]"]
  have all: "read_messages read_any (length sample_stream) (concat (wire s)) = Some (sample_stream, [])"
    using s(2) by simp
  have "length rs = length sample_stream" using arg_cong [OF rs(1), of length] by simp
  with rs(2) all have "rs = sample_stream" by simp
  moreover have "length sample_stream = 3" by (simp add: sample_stream_def)
  ultimately show ?thesis using rs(2) s(2) srv(2) by metis
qed

text \<open>
  C13. Every message a session has sent can reach the wire: after any run of the session in which
  no write has failed, its own tasks and the ends of its writes are enough to write out all it
  has sent, in the order it was sent.
\<close>

theorem replies_delivered:
  assumes "run_events es (start (new_session db auth m ports address p)) = Some (Inr s)"
    and "\<forall>e \<in> set es. \<not> write_fails e"
  shows "\<exists>s'. run_events (flush (backlog s) s) s = Some (Inr s') \<and> wire s' = sent_log s"
proof -
  have "healthy (start (new_session db auth m ports address p))"
    using replies.fresh by (simp add: healthy_def fresh_session_defs)
  then have "healthy s" using healthy_run [OF assms(1)] assms(2) by blast
  from flush_delivers [OF this] show ?thesis by blast
qed

lemma replies_delivered_witness:
  "\<exists>s'. run_events (flush (backlog greeted_session) greeted_session) greeted_session = Some (Inr s')
    \<and> wire s' = sent_log greeted_session"
proof (rule replies_delivered)
  show "run_events [RunTask] (start (new_session sample_users True (fs_empty front_order) sample_ports
      (Some [127, 0, 0, 1]) 2500)) = Some (Inr greeted_session)"
    by (simp add: greeted_session_def ftp_client_session_def fresh_session_defs receiveMessage_def sample_ports_def)
qed (simp add: write_fails_def)

text \<open>
  C21. At most one read of a client's bytes is outstanding or about to be started, of a message or
  of a body: two reads never share what the client sent.
\<close>

theorem one_read_at_a_time:
  assumes "reachable_server (new_server order address p level auth ports) srv" "s \<in> set (sessions srv)"
  shows "receives s + length (body_reads s) + count_list (serializer s) ReceiveMessage \<le> 1"
  using one_read.everywhere [OF assms(1) _ assms(2)] by (simp add: new_server_def reads_inv_def reads_def)

lemma one_read_at_a_time_witness:
  "receives ftp_client_session + length (body_reads ftp_client_session)
     + count_list (serializer ftp_client_session) ReceiveMessage \<le> 1"
  by (rule one_read_at_a_time [OF sample_reached sample_server_sessions])

text \<open>
  C10. Data sockets are well typed in every state a server can come to: no session knows a socket
  it has not made, no two accepts share one, and none that waits is in use or closed; so a
  transfer that begins gets a socket that nothing uses, no other accept waits with and nobody has
  closed.
\<close>

theorem sockets_well_typed:
  assumes "reachable_server (new_server order address p level auth ports) srv" "s \<in> set (sessions srv)"
  shows "wf_sockets s \<and> (\<forall>a s'. session_step s (AcceptDone a None) (Inr s') \<longrightarrow>
    ftp_data_socket s' = Some (handler_socket (on_accept a))
    \<and> handler_socket (on_accept a) \<notin> used_sockets s
    \<and> handler_socket (on_accept a) \<notin> set (waiting_sockets s') \<union> set (closed_sockets s'))"
proof (intro conjI allI impI)
  show wf: "wf_sockets s"
    using sockets.everywhere [OF assms(1) _ assms(2)] by (simp add: new_server_def)
  fix a s'
  assume step: "session_step s (AcceptDone a None) (Inr s')"
  then have s': "a \<in> set (accepts s)" "s' = accept_done (on_accept a) None (s\<lparr>accepts := remove1 a (accepts s)\<rparr>)"
    by (auto simp: session_step_iff split: if_splits)
  let ?k = "handler_socket (on_accept a)"
  show connected: "ftp_data_socket s' = Some ?k"
    using s'(2) by (cases "on_accept a") (simp_all add: completion_defs)
  have "?k \<in> set (waiting_sockets s)" using s'(1) by (simp add: waiting_sockets_def)
  then show "?k \<notin> used_sockets s" using wf by (auto simp: wf_sockets_def)
  then have "?k \<notin> set (closed_sockets s)" by (simp add: used_sockets_def)
  then have "?k \<notin> set (closed_sockets s')"
    using s'(2) by (cases "on_accept a") (simp_all add: completion_defs)
  moreover have "wf_sockets s'" using sockets.preserved [OF step wf] .
  then have "?k \<notin> set (waiting_sockets s')" using connected by (auto simp: wf_sockets_def used_sockets_def)
  ultimately show "?k \<notin> set (waiting_sockets s') \<union> set (closed_sockets s')" by simp
qed

text \<open>A client that has logged in and asked to store a file; the server waits for its data connection.\<close>

lemma sample_upload_waits:
  "\<exists>es s k. run_events es greeted_session = Some (Inr s)
    \<and> \<lparr>can_succeed = True, on_accept = ReceiveOnAccept k [] ''/a''\<rparr> \<in> set (accepts s)"
proof -
  let ?cs = "map sample_command [[''USER'', ''Nord''], [''PASS'', ''VPN''], [''pasv'']]"
  let ?stor = "sample_command [''STOR'', ''a'']"
  have "list_all sound_words [[''USER'', ''Nord''], [''PASS'', ''VPN''], [''pasv''], [''STOR'', ''a'']]" by code_simp
  then have sound: "list_all sound_command ?cs" "sound_command ?stor"
    by (simp_all add: sample_command_def sound_command_def receive_buffer_size_def crlf_def)
  obtain ess s ms where s: "run_events (concat ess) greeted_session = Some (Inr s)" "ftp_idle s"
      "service_run ftp_service ?cs sample_account ms (account_of s)"
    using ftp.all_answered [OF greeted_session_idle sound(1)] unfolding greeted_session_account by blast
  let ?a = "sample_account\<lparr>acc_login := Known nord, acc_acceptor := Listening 50123\<rparr>"
  have a: "account_of s = ?a" using s(3) by (auto simp: evaluate_machine nord_def)
  have "command_answer (cmd_env ?stor) (directory_listing (filesystem s))
      (kCommandMap (toUpperCase (hd (cmd_words ?stor)))) (tl (cmd_words ?stor)) (account_of s)
    = (FtpResponse2 FILE_STATUS_OK_OPENING_DATA_CONNECTION ''Ready to receive'', ?a, Store ''/a'')"
    by (simp add: a evaluate_machine)
  from command_replied [OF s(2) sound(2) this] obtain s1 k where
    s1: "run_events (map Arrive (cmd_pieces ?stor) @ [MessageReceived (cmd_env ?stor)]) s = Some (Inr s1)"
      "account_of s1 = ?a" "waits_for (Store ''/a'') k s1" by metis
  have "ftp_data_acceptor s1 = Listening 50123"
    using arg_cong [OF s1(2), of acc_acceptor] by (simp add: account_of_def)
  with s1(3) have "\<lparr>can_succeed = True, on_accept = ReceiveOnAccept k [] ''/a''\<rparr> \<in> set (accepts s1)"
    by (simp add: waits_for_def)
  with run_events_append [OF s(1)] s1(1) show ?thesis by metis
qed

lemma sockets_well_typed_witness:
  "\<exists>(srv :: ObjectStorage) s a s'. s \<in> set (sessions srv) \<and> a \<in> set (accepts s) \<and> wf_sockets s
    \<and> session_step s (AcceptDone a None) (Inr s') \<and> ftp_data_socket s' = Some (handler_socket (on_accept a))
    \<and> handler_socket (on_accept a) \<notin> used_sockets s \<and> handler_socket (on_accept a) \<notin> set (closed_sockets s')"
proof -
  obtain es s k where s: "run_events es greeted_session = Some (Inr s)"
      "\<lparr>can_succeed = True, on_accept = ReceiveOnAccept k [] ''/a''\<rparr> \<in> set (accepts s)"
    using sample_upload_waits by blast
  obtain srv where srv: "reachable_server idle_server srv" "s \<in> set (sessions srv)"
    using greeted_session_reached [OF s(1)] by blast
  let ?a = "\<lparr>can_succeed = True, on_accept = ReceiveOnAccept k [] ''/a''\<rparr>"
  have "session_step s (AcceptDone ?a None)
      (Inr (accept_done (on_accept ?a) None (s\<lparr>accepts := remove1 ?a (accepts s)\<rparr>)))"
    by (rule session_step.accept_done) (simp_all add: s(2))
  with s(2) obtain a s' where a: "a \<in> set (accepts s)" "session_step s (AcceptDone a None) (Inr s')" by blast
  with sockets_well_typed [OF srv(1) [unfolded idle_server_def] srv(2)] srv(2) show ?thesis by blast
qed

text \<open>
  C20. Nothing but a received message can make a session stop: in every state a server can come
  to, whatever else happens to a session, no empty queue is read and the event is handled.
\<close>

theorem only_messages_stop_sessions:
  assumes "reachable_server (new_server order address p level auth ports) srv" "s \<in> set (sessions srv)"
    and "session_step (with_shared srv s) e r" "\<forall>env. e \<noteq> MessageReceived env"
  shows "\<exists>s'. r = Inr s'"
proof -
  have "reply_inv s" "data_inv s"
    using replies.everywhere [OF assms(1) _ assms(2)] data_queue.everywhere [OF assms(1) _ assms(2)]
    by (simp_all add: new_server_def)
  then have "reply_inv (with_shared srv s)" "data_inv (with_shared srv s)"
    by (simp_all add: with_shared_def replies.shared data_queue.shared)
  with no_stop [OF assms(3)] assms(4) show ?thesis by blast
qed

text \<open>The end of a write, whose handler takes the head of the reply queue.\<close>

lemma only_messages_stop_sessions_witness:
  "\<exists>(srv :: ObjectStorage) s s'. s \<in> set (sessions srv) \<and> output_queue s = [welcome_message]
    \<and> session_step (with_shared srv s) (MessageWritten welcome_message True) (Inr s') \<and> wire s' = [welcome_message]"
proof -
  let ?s = "greeted_session\<lparr>serializer := [], output_queue := [welcome_message], writes := [welcome_message]\<rparr>"
  have "run_events [RunTask] greeted_session = Some (Inr ?s)"
    by (simp add: greeted_session_defs enqueue_message_def sendMessageHandler_def)
  from greeted_session_reached [OF this] obtain srv where
    srv: "reachable_server idle_server srv" "?s \<in> set (sessions srv)" by blast
  let ?t = "with_shared srv ?s"
  have step: "session_step ?t (MessageWritten welcome_message True)
      (message_written welcome_message True (?t\<lparr>writes := remove1 welcome_message (writes ?t)\<rparr>))"
    by (rule session_step.message_written) (simp add: with_shared_def)
  obtain s' where s': "message_written welcome_message True (?t\<lparr>writes := remove1 welcome_message (writes ?t)\<rparr>) = Inr s'"
    using only_messages_stop_sessions [OF srv(1) [unfolded idle_server_def] srv(2) step] by auto
  then have "wire s' = [welcome_message]"
    by (auto simp: message_written_def with_shared_def greeted_session_defs)
  with step s' srv(2) show ?thesis
    by (intro exI [of _ srv] exI [of _ ?s] exI [of _ s']) simp
qed

text \<open>
  C34. One failed accept ends the service for new clients: in whatever way the server has come to
  it, after an accept that fails no session is ever added again, not even by another
  \<open>start\<close>.
\<close>

theorem failed_accept_ends_service:
  assumes "reachable_server (new_server order address p level auth ports) srv"
    and "server_run (Accepted Accept_Error # es) srv = Some (Inr srv')"
  shows "length (sessions srv') = length (sessions srv) \<and> \<not> accepting srv'
    \<and> (\<forall>env n. \<not> fst (server_start env n srv'))"
proof -
  have "accept_inv srv"
    using accept_inv_reachable [OF assms(1)] by (simp add: accept_inv_def new_server_def)
  moreover obtain srv1 where s: "server_react (Accepted Accept_Error) srv = Some (Inr srv1)"
      "server_run es srv1 = Some (Inr srv')"
    using assms(2) by (auto split: option.splits sum.splits if_splits)
  ultimately have "deaf srv1" "length (sessions srv1) = length (sessions srv)"
    by (auto simp: accept_inv_def deaf_def acceptConnection_def split: if_splits)
  with deaf_run [OF s(2)] have "deaf srv'" "length (sessions srv') = length (sessions srv)" by simp_all
  with server_start_again show ?thesis by (simp add: deaf_def)
qed

lemma failed_accept_ends_service_witness:
  "\<exists>srv'. server_run [Accepted Accept_Error, Start sample_listen_env 2] sample_server = Some (Inr srv')
    \<and> length (sessions srv') = length (sessions sample_server) \<and> \<not> accepting srv'"
proof -
  have "\<exists>srv'. server_run [Accepted Accept_Error, Start sample_listen_env 2] sample_server = Some (Inr srv')"
    by (simp add: sample_server_def idle_server_def new_server_def acceptConnection_def)
  then obtain srv' where "server_run [Accepted Accept_Error, Start sample_listen_env 2] sample_server
      = Some (Inr srv')" by blast
  with failed_accept_ends_service [OF sample_server_reachable [unfolded idle_server_def] this]
  show ?thesis by blast
qed

end
