(* ===== verification/Server_Dialogue.thy ===== *)
theory Server_Dialogue
  imports Reply_Stream Mixed_Dialogue
begin

text \<open>
  The clients of a server: they send their requests, HTTP or FTP, in turns, and the server
  serves all of them on one map of files.
\<close>

section \<open>The service for many clients\<close>

text \<open>
  One account for each client; a request of client \<open>i\<close> is served on its account, and what it does
  to the files all accounts see.
\<close>

inductive clients_service ::
    "nat \<times> request \<Rightarrow> account list \<Rightarrow> (nat \<times> (FtpResponse + HttpResponse)) list \<Rightarrow> account list \<Rightarrow> bool" where
  turn: "i < length accs \<Longrightarrow> mixed_service q (accs ! i) as a \<Longrightarrow>
     clients_service (i, q) accs (map (Pair i) as)
       (map (\<lambda>b. b\<lparr>acc_files := acc_files a\<rparr>) (accs[i := a]))"

text \<open>The answers that client \<open>j\<close> gets.\<close>

definition answers_to :: "nat \<Rightarrow> (nat \<times> 'm) list \<Rightarrow> 'm list" where
  "answers_to j ms = map snd (filter (\<lambda>m. fst m = j) ms)"

lemma answers_to_append [simp]: "answers_to j (ms @ ns) = answers_to j ms @ answers_to j ns"
  by (simp add: answers_to_def)

lemma answers_to_own [simp]: "answers_to j (map (Pair i) as) = (if i = j then as else [])"
  by (induction as) (simp_all add: answers_to_def comp_def)

section \<open>The server\<close>

definition accounts :: "ObjectStorage \<Rightarrow> account list" where
  "accounts srv = map (\<lambda>s. account_of (with_shared srv s)) (sessions srv)"

lemma length_accounts [simp]: "length (accounts srv) = length (sessions srv)"
  by (simp add: accounts_def)

lemma accounts_nth: "i < length (sessions srv) \<Longrightarrow> accounts srv ! i = account_of (session_at srv i)"
  by (simp add: accounts_def session_at_def)

text \<open>A server between two requests: it runs, and each of its clients waits.\<close>

definition all_idle :: "ObjectStorage \<Rightarrow> bool" where
  "all_idle srv \<longleftrightarrow> up srv \<and> (\<forall>j < length (sessions srv). ftp_idle (session_at srv j))"

definition sound_turn :: "ObjectStorage \<Rightarrow> nat \<times> request \<Rightarrow> bool" where
  "sound_turn srv q \<longleftrightarrow> fst q < length (sessions srv) \<and> mixed_sound (session_at srv (fst q)) (snd q)"

definition turn_schedule :: "acceptor_env \<Rightarrow> nat \<times> request \<Rightarrow> server_event list \<Rightarrow> bool" where
  "turn_schedule env q es \<longleftrightarrow> (\<exists>fs. mixed_schedule env (snd q) fs \<and> es = map (At (fst q)) fs)"

lemma mixed_schedule_not_empty: "mixed_schedule env q es \<Longrightarrow> es \<noteq> []"
  by (cases q) (auto simp: request_events_def command_schedule_def)

lemma server_run_append:
  "server_run es srv = Some (Inr srv') \<Longrightarrow> server_run (es @ es') srv = server_run es' srv'"
  by (induction es arbitrary: srv) (auto split: option.splits sum.splits if_splits)

text \<open>The other clients only see other files.\<close>

lemma ftp_idle_files: "ftp_idle s \<Longrightarrow> fs_inv m \<Longrightarrow> ftp_idle (s\<lparr>filesystem := m\<rparr>)"
  by (simp add: ftp_idle_def calm_def ready_def pending_def data_idle_def login_inv_def)

lemma account_of_files: "account_of (s\<lparr>filesystem := m\<rparr>) = (account_of s)\<lparr>acc_files := fs_map m\<rparr>"
  by (simp add: account_of_def login_of_def split: option.split)

lemma session_at_own:
  assumes "i < length (sessions srv)" "user_database s = srv_users srv"
  shows "session_at (put_session i s srv) i = s"
  using assms with_shared_put [OF assms(2), of i] by (simp add: session_at_def put_session_def)

text \<open>One turn: what the session of the client does, and what the others see of it.\<close>

definition turn_done :: "nat \<times> request \<Rightarrow> ObjectStorage \<Rightarrow> (nat \<times> (FtpResponse + HttpResponse)) list \<Rightarrow> ObjectStorage \<Rightarrow> bool" where
  "turn_done q srv ms srv' \<longleftrightarrow>
     all_idle srv' \<and> length (sessions srv') = length (sessions srv)
     \<and> clients_service q (accounts srv) ms (accounts srv')
     \<and> (\<forall>j < length (sessions srv). same_client (session_at srv j) (session_at srv' j)
          \<and> sent_log (session_at srv' j) = sent_log (session_at srv j) @ map serialise (answers_to j ms))"

lemma turn_put:
  assumes "all_idle srv" "i < length (sessions srv)" "ftp_idle s'" "same_client (session_at srv i) s'"
    and "sent_log s' = sent_log (session_at srv i) @ map serialise as"
    and "mixed_service q (account_of (session_at srv i)) as (account_of s')"
  shows "turn_done (i, q) srv (map (Pair i) as) (put_session i s' srv)"
proof -
  let ?srv = "put_session i s' srv"
  have len: "length (sessions ?srv) = length (sessions srv)" by (simp add: put_session_def)
  have inv: "fs_inv (filesystem s')" using assms(3) by (simp add: ftp_idle_def calm_def ready_def)
  have own: "session_at ?srv i = s'"
    using assms(2,4) by (intro session_at_own) (simp_all add: same_client_def session_at_def with_shared_def)
  have other: "session_at ?srv j = (session_at srv j)\<lparr>filesystem := filesystem s'\<rparr>"
    if "j < length (sessions srv)" "j \<noteq> i" for j
    using that by (intro session_at_put) simp_all
  have up: "up ?srv" using assms(1) by (simp add: all_idle_def up_def put_session_def)
  have "ftp_idle (session_at ?srv j)" if "j < length (sessions srv)" for j
  proof (cases "j = i")
    case False
    with that assms(1) other ftp_idle_files [OF _ inv] show ?thesis by (simp add: all_idle_def)
  qed (simp add: own assms(3))
  with up len have "all_idle ?srv" by (simp add: all_idle_def)
  moreover have "accounts ?srv
      = map (\<lambda>b. b\<lparr>acc_files := acc_files (account_of s')\<rparr>) ((accounts srv)[i := account_of s'])"
  proof (rule nth_equalityI)
    fix j
    assume "j < length (accounts ?srv)"
    then have j: "j < length (sessions srv)" using len by simp
    show "accounts ?srv ! j
        = map (\<lambda>b. b\<lparr>acc_files := acc_files (account_of s')\<rparr>) ((accounts srv)[i := account_of s']) ! j"
    proof (cases "j = i")
      case True
      with j len own show ?thesis by (simp add: accounts_nth)
    next
      case False
      with j len other show ?thesis by (simp add: accounts_nth account_of_files)
    qed
  qed (simp add: len)
  then have "clients_service (i, q) (accounts srv) (map (Pair i) as) (accounts ?srv)"
    using clients_service.turn [of i "accounts srv" q as "account_of s'"] assms(2,6) by (simp add: accounts_nth)
  moreover have "same_client (session_at srv j) (session_at ?srv j)
      \<and> sent_log (session_at ?srv j) = sent_log (session_at srv j) @ map serialise (answers_to j (map (Pair i) as))"
    if "j < length (sessions srv)" for j
  proof (cases "j = i")
    case True
    with own assms(4,5) show ?thesis by simp
  next
    case False
    with that other show ?thesis by (simp add: same_client_def)
  qed
  ultimately show ?thesis using len by (simp add: turn_done_def)
qed

lemma turn_served:
  assumes "all_idle srv" "sound_turn srv q"
  shows "\<exists>es srv' ms. turn_schedule env q es \<and> server_run es srv = Some (Inr srv') \<and> turn_done q srv ms srv'"
proof -
  obtain i r where q: "q = (i, r)" by (cases q)
  let ?s = "session_at srv i"
  have i: "i < length (sessions srv)" "mixed_sound ?s r" "ftp_idle ?s" "up srv"
    using assms q by (auto simp: sound_turn_def all_idle_def)
  obtain es s' as where s': "mixed_schedule env r es" "run_events es ?s = Some (Inr s')" "ftp_idle s'"
      "same_client ?s s'" "sent_log s' = sent_log ?s @ map serialise as"
      "mixed_service r (account_of ?s) as (account_of s')"
    using mixed_answered [OF i(3,2), of env] by blast
  have "server_run (map (At i) es @ []) srv = server_run [] (put_session i s' srv)"
    by (rule server_run_session [OF i(4,1) mixed_schedule_not_empty [OF s'(1)] s'(2) [unfolded session_at_def]])
  then have "server_run (map (At i) es) srv = Some (Inr (put_session i s' srv))" by simp
  moreover have "turn_schedule env q (map (At i) es)" using s'(1) q by (auto simp: turn_schedule_def)
  moreover have "turn_done q srv (map (Pair i) as) (put_session i s' srv)"
    using turn_put [OF assms(1) i(1) s'(3-6)] q by simp
  ultimately show ?thesis by blast
qed

lemma sound_turns_kept:
  assumes "turn_done q srv ms srv'" "list_all (sound_turn srv) qs"
  shows "list_all (sound_turn srv') qs"
  unfolding list_all_iff
proof
  fix x
  assume "x \<in> set qs"
  then have "fst x < length (sessions srv)" "mixed_sound (session_at srv (fst x)) (snd x)"
    using assms(2) by (simp_all add: list_all_iff sound_turn_def)
  then show "sound_turn srv' x" using mixed_sound_client assms(1) by (auto simp: sound_turn_def turn_done_def)
qed

definition turns_done ::
    "(nat \<times> request) list \<Rightarrow> ObjectStorage \<Rightarrow> (nat \<times> (FtpResponse + HttpResponse)) list \<Rightarrow> ObjectStorage \<Rightarrow> bool" where
  "turns_done qs srv ms srv' \<longleftrightarrow>
     service_run clients_service qs (accounts srv) ms (accounts srv')
     \<and> (\<forall>j < length (sessions srv).
          sent_log (session_at srv' j) = sent_log (session_at srv j) @ map serialise (answers_to j ms))"

lemma turns_done_Nil: "turns_done [] srv [] srv"
  by (simp add: turns_done_def answers_to_def)

lemma turns_done_Cons:
  assumes "turn_done q srv ms srv1" "turns_done qs srv1 ns srv2"
  shows "turns_done (q # qs) srv (ms @ ns) srv2"
  using assms service_run.more [of clients_service q "accounts srv" ms "accounts srv1" qs ns "accounts srv2"]
  by (simp add: turn_done_def turns_done_def del: service_run_Cons)

lemma turns_served:
  assumes "all_idle srv" "list_all (sound_turn srv) qs"
  shows "\<exists>ess srv' ms. list_all2 (turn_schedule env) qs ess \<and> server_run (concat ess) srv = Some (Inr srv')
    \<and> turns_done qs srv ms srv'"
  using assms
proof (induction qs arbitrary: srv)
  case Nil
  show ?case by (rule exI [of _ "[]"], rule exI [of _ srv], rule exI [of _ "[]"]) (simp add: turns_done_Nil)
next
  case (Cons q qs)
  then obtain es srv1 ms where t: "turn_schedule env q es" "server_run es srv = Some (Inr srv1)"
      "turn_done q srv ms srv1"
    using turn_served [of srv q env] by auto
  have "all_idle srv1" using t(3) by (simp add: turn_done_def)
  moreover have "list_all (sound_turn srv1) qs" using sound_turns_kept [OF t(3)] Cons.prems(2) by simp
  ultimately obtain ess srv2 ns where u: "list_all2 (turn_schedule env) qs ess"
      "server_run (concat ess) srv1 = Some (Inr srv2)" "turns_done qs srv1 ns srv2"
    using Cons.IH by blast
  have "server_run (concat (es # ess)) srv = Some (Inr srv2)"
    using server_run_append [OF t(2), of "concat ess"] u(2) by simp
  with t(1) u(1) turns_done_Cons [OF t(3) u(3)] show ?case
    by (intro exI [of _ "es # ess"] exI [of _ srv2] exI [of _ "ms @ ns"]) simp
qed

section \<open>Properties\<close>

definition two_clients :: ObjectStorage where
  "two_clients = sample_server\<lparr>sessions := [http_session [], http_session []]\<rparr>"

lemma two_clients_simps:
  "up two_clients" "length (sessions two_clients) = 2" "session_at two_clients 0 = http_session []"
  "session_at two_clients (Suc 0) = http_session []" "sessions two_clients = [http_session [], http_session []]"
  by (simp_all add: up_def session_at_def with_shared_def two_clients_def sample_server_def
      idle_server_def new_server_def http_session_def sample_session_def new_session_def)

definition sample_turns :: "(nat \<times> request) list" where
  "sample_turns =
     [(0, Line (sample_command [''USER'', ''Nord''])), (1, Web sample_get), (0, Line (sample_command [''PASS'', ''VPN''])),
      (0, Line (sample_command [''PASV''])), (0, Line (sample_command [''STOR'', ''a''])), (1, Web sample_get),
      (0, Web sample_delete), (1, Web sample_put), (0, Line (sample_command [''RETR'', ''a'']))]"

lemma sample_turns_sound: "list_all (sound_turn two_clients) sample_turns"
proof -
  have "list_all sound_words [[''USER'', ''Nord''], [''PASS'', ''VPN''], [''PASV''], [''STOR'', ''a''], [''RETR'', ''a'']]"
    by code_simp
  then have "list_all sound_command (map sample_command
      [[''USER'', ''Nord''], [''PASS'', ''VPN''], [''PASV''], [''STOR'', ''a''], [''RETR'', ''a'']])"
    by (simp add: sample_command_def sound_command_def receive_buffer_size_def crlf_def)
  then show ?thesis
    using sample_sound(3) by (simp add: sample_turns_def sound_turn_def two_clients_simps)
qed

text \<open>What the specification says of these turns: the upload that the client 0 starts is what client 1 reads.\<close>

lemma clients_service_iff:
  "clients_service (i, q) accs ms accs' \<longleftrightarrow> i < length accs
    \<and> (\<exists>as a. mixed_service q (accs ! i) as a \<and> ms = map (Pair i) as
       \<and> accs' = map (\<lambda>b. b\<lparr>acc_files := acc_files a\<rparr>) (accs[i := a]))"
  by (auto simp: clients_service.simps)

lemma mixed_service_iff:
  "mixed_service (Web r) a ms b \<longleftrightarrow>
     (\<exists>as m. web_service r (acc_files a) as m \<and> ms = map Inr as \<and> b = a\<lparr>acc_files := m\<rparr>)"
  "mixed_service (Line c) a ms b \<longleftrightarrow> (\<exists>as. ftp_service c a as b \<and> ms = map Inl as)"
  by (auto simp: mixed_service.simps)

lemma sample_accounts: "accounts two_clients = [sample_account, sample_account]"
  by (rule nth_equalityI)
    (auto simp: accounts_nth two_clients_simps sample_account_start less_Suc_eq numeral_2_eq_2)

definition code_of :: "FtpResponse + HttpResponse \<Rightarrow> nat" where
  "code_of = case_sum (ftp_code \<circ> ftp_reply_code) (http_code \<circ> http_status)"

lemma code_of_ftp: "code_of (Inl r) = ftp_code (ftp_reply_code r)"
  by (simp add: code_of_def)

lemma code_of_status [simp]:
  "code_of (Inr (HttpResponse_status st)) = http_code st" "code_of (Inr (HttpResponse_resource st f)) = http_code st"
  by (simp_all add: code_of_def HttpResponse_status_def HttpResponse_resource_def HttpResponse_full_def)

lemma sample_turns_served:
  assumes "service_run clients_service sample_turns [sample_account, sample_account] ms accs"
  shows "map code_of (answers_to 0 ms) = [331, 230, 227, 150, 226, 200, 150, 226]
    \<and> answers_to 1 ms = [Inr (HttpResponse_status NotFound), Inr (HttpResponse_resource Ok ''hello''), Inr (HttpResponse_status Created)]
    \<and> map acc_files accs = [[''/a'' \<mapsto> ''hello''], [''/a'' \<mapsto> ''hello'']]"
proof -
  have no_expect: "\<not> expects_continue put_headers" by code_simp
  have pasv: "kCommandMap (toUpperCase ''PASV'') = Some Pasv" by code_simp
  show ?thesis
    using assms unfolding sample_turns_def
    by (auto simp: no_expect pasv clients_service_iff mixed_service_iff web_service_iff evaluate_machine
        sample_put_def sample_get_def sample_delete_def req_body_def answers_to_def code_of_ftp FtpResponse1_def
        FtpResponse2_def ftp_code_def ftp_code_table_def http_code_def http_code_table_def)
qed

text \<open>
  C1. All clients of a server are served on one store: whenever its sessions are idle, clients
  that send HTTP requests (well-formed, with accepted credentials) and FTP commands in turns, in
  any order, are served as the specification serves them, each on an account of its own and all on
  the same files; every client is sent the answers to its own requests, in their order, and no
  others. A command line, the head of a request and the body of a PUT may each be cut on the way in
  any way, but no piece holds bytes of both head and body, and the body comes after the head has
  been read (what is read together with the head is lost).
\<close>

theorem clients_served:
  assumes "all_idle srv" "list_all (sound_turn srv) qs"
  shows "\<exists>ess srv' ms. list_all2 (turn_schedule env) qs ess \<and> server_run (concat ess) srv = Some (Inr srv')
    \<and> service_run clients_service qs (accounts srv) ms (accounts srv')
    \<and> (\<forall>j < length (sessions srv).
         sent_log (session_at srv' j) = sent_log (session_at srv j) @ map serialise (answers_to j ms))"
  using turns_served [OF assms] by (simp add: turns_done_def)

lemma clients_served_witness:
  "\<exists>ess srv' ms. list_all2 (turn_schedule sample_env) sample_turns ess
    \<and> server_run (concat ess) two_clients = Some (Inr srv')
    \<and> sent_log (session_at srv' 0) = map serialise (answers_to 0 ms)
    \<and> map code_of (answers_to 0 ms) = [331, 230, 227, 150, 226, 200, 150, 226]
    \<and> sent_log (session_at srv' 1) = map http_serialise
        [HttpResponse_status NotFound, HttpResponse_resource Ok ''hello'', HttpResponse_status Created]
    \<and> map acc_files (accounts srv') = [[''/a'' \<mapsto> ''hello''], [''/a'' \<mapsto> ''hello'']]"
proof -
  have "all_idle two_clients"
    using ftp_idle_start by (simp add: all_idle_def two_clients_simps less_Suc_eq numeral_2_eq_2)
  from clients_served [OF this sample_turns_sound, of sample_env] obtain ess srv' ms where
    r: "list_all2 (turn_schedule sample_env) sample_turns ess" "server_run (concat ess) two_clients = Some (Inr srv')"
      and served: "service_run clients_service sample_turns (accounts two_clients) ms (accounts srv')"
      and logs: "\<And>j. j < 2 \<Longrightarrow> sent_log (session_at srv' j) = sent_log (session_at two_clients j) @ map serialise (answers_to j ms)"
    by (auto simp: two_clients_simps)
  have "sent_log (session_at two_clients j) = []" if "j < 2" for j
    using that by (auto simp: two_clients_simps less_Suc_eq numeral_2_eq_2 http_session_def sample_session_def new_session_def)
  then have own: "sent_log (session_at srv' j) = map serialise (answers_to j ms)" if "j < 2" for j
    using that logs by simp
  note says = sample_turns_served [OF served [unfolded sample_accounts]]
  show ?thesis
    by (rule exI [of _ ess], rule exI [of _ srv'], rule exI [of _ ms]) (use r own [of 0] own [of 1] says in simp)
qed

end
