(* ===== verification/Interleaving.thy ===== *)
theory Interleaving
  imports Storage_Prelude
begin

text \<open>
  Steps of several clients that may be reordered. The interface \<open>commuting_steps\<close> asks that two
  steps of different clients, not both of them on what the clients share, can change places;
  what it gives is that a whole run may be interleaved in another way. It is interpreted on the
  events of a server in \<open>Server_Interleaving\<close>.
\<close>

section \<open>Runs and their interleavings\<close>

fun run_labels :: "('l \<Rightarrow> 's \<Rightarrow> 's option) \<Rightarrow> 'l list \<Rightarrow> 's \<Rightarrow> 's option" where
  "run_labels step [] s = Some s"
| "run_labels step (l # ls) s = (case step l s of None \<Rightarrow> None | Some s' \<Rightarrow> run_labels step ls s')"

text \<open>
  \<open>ys\<close> is \<open>xs\<close> with the same steps of every client in the same order, and with the same order
  of those steps that use what is shared.
\<close>

definition interleaves :: "('l \<Rightarrow> 'c) \<Rightarrow> ('l \<Rightarrow> bool) \<Rightarrow> 'l list \<Rightarrow> 'l list \<Rightarrow> bool" where
  "interleaves client shared xs ys \<longleftrightarrow>
     list_all (\<lambda>c. filter (\<lambda>l. client l = c) xs = filter (\<lambda>l. client l = c) ys) (map client (xs @ ys))
     \<and> filter shared xs = filter shared ys"

lemma interleaves_iff:
  "interleaves client shared xs ys \<longleftrightarrow>
     (\<forall>c. filter (\<lambda>l. client l = c) xs = filter (\<lambda>l. client l = c) ys) \<and> filter shared xs = filter shared ys"
proof -
  have "filter (\<lambda>l. client l = c) xs = filter (\<lambda>l. client l = c) ys"
    if "c \<notin> client ` (set xs \<union> set ys)" for c
  proof -
    have "filter (\<lambda>l. client l = c) xs = []" "filter (\<lambda>l. client l = c) ys = []"
      using that by (auto simp: filter_empty_conv)
    then show ?thesis by simp
  qed
  then show ?thesis unfolding interleaves_def list_all_iff set_map set_append by blast
qed

lemma interleaves_refl [simp]: "interleaves client shared xs xs"
  by (simp add: interleaves_iff)

text \<open>The first step stands in every interleaving behind steps that do not depend on it.\<close>

lemma interleaves_Cons:
  assumes "interleaves client shared (x # xs) ys"
  obtains pre post where "ys = pre @ x # post" "interleaves client shared xs (pre @ post)"
    "\<And>p. p \<in> set pre \<Longrightarrow> client p \<noteq> client x \<and> \<not> (shared x \<and> shared p)"
proof -
  have f: "filter (\<lambda>l. client l = c) ys = filter (\<lambda>l. client l = c) (x # xs)"
      "filter shared ys = filter shared (x # xs)" for c
    using assms by (auto simp: interleaves_iff)
  have "x \<in> set (filter (\<lambda>l. client l = client x) ys)" unfolding f(1) by simp
  then have "\<exists>y\<in>set ys. client y = client x" by auto
  then obtain pre y post where y: "ys = pre @ y # post" "client y = client x"
      "\<And>p. p \<in> set pre \<Longrightarrow> client p \<noteq> client x"
    by (auto dest!: split_list_first_prop)
  have "filter (\<lambda>l. client l = client x) pre = []" using y(3) by (simp add: filter_empty_conv)
  with f(1) [of "client x"] y(1,2) have x: "y = x" by simp
  have unshared: "\<not> shared p" if "shared x" "p \<in> set pre" for p
  proof
    assume "shared p"
    with that(2) have "filter shared pre \<noteq> []" by (auto simp: filter_empty_conv)
    moreover from this f(2) y(1) that(1) have "hd (filter shared pre) = x" by (cases "filter shared pre") auto
    ultimately have "x \<in> set pre" by (metis filter_is_subset hd_in_set subsetD)
    with y(3) show False by blast
  qed
  have "filter (\<lambda>l. client l = c) xs = filter (\<lambda>l. client l = c) (pre @ post)" for c
    using f(1) [of c] y x \<open>filter (\<lambda>l. client l = client x) pre = []\<close> by (cases "c = client x") auto
  moreover have "filter shared xs = filter shared (pre @ post)"
    using f(2) y(1) x unshared by (cases "shared x") (auto simp: filter_empty_conv)
  ultimately have "interleaves client shared xs (pre @ post)" by (simp add: interleaves_iff)
  with y x unshared that show thesis by blast
qed

text \<open>
  Clients that take turns, each turn with one step on what is shared: however the turns overlap,
  that is an interleaving of the turns one at a time, in the order of these steps.
\<close>

lemma turns_in_order:
  assumes "\<And>c. filter (\<lambda>l. client l = c) ys = map (mark c) (queue c)"
  shows "\<exists>ts. (\<forall>c. map snd (filter (\<lambda>t. fst t = c) ts) = queue c) \<and> ys = map (\<lambda>(c, t). mark c t) ts"
  using assms
proof (induction ys arbitrary: queue)
  case Nil
  then show ?case by (intro exI [of _ "[]"]) simp
next
  case (Cons y ys)
  obtain t rest where t: "queue (client y) = t # rest" "y = mark (client y) t"
    using Cons.prems [of "client y"] by (cases "queue (client y)") auto
  have "filter (\<lambda>l. client l = c) ys = map (mark c) ((queue(client y := rest)) c)" for c
    using Cons.prems [of c] t by (cases "c = client y") auto
  from Cons.IH [OF this] obtain ts where ts: "ys = map (\<lambda>(c, t). mark c t) ts"
      "map snd (filter (\<lambda>t. fst t = c) ts) = (queue(client y := rest)) c" for c
    by blast
  have "map snd (filter (\<lambda>p. fst p = c) ((client y, t) # ts)) = queue c" for c
    using ts(2) [of c] t(1) by auto
  with ts(1) t(2) show ?case by (intro exI [of _ "(client y, t) # ts"]) simp
qed

lemma overlapping_turns:
  assumes turns: "\<And>c. filter (\<lambda>l. client l = c) ls = concat (map (turn c) (queue c))"
    and own: "\<And>c t l. l \<in> set (turn c t) \<Longrightarrow> client l = c"
    and one: "\<And>c t. t \<in> set (queue c) \<Longrightarrow> filter shared (turn c t) = [mark c t]"
  shows "\<exists>ts. (\<forall>c. map snd (filter (\<lambda>t. fst t = c) ts) = queue c)
    \<and> interleaves client shared (concat (map (\<lambda>(c, t). turn c t) ts)) ls"
proof -
  have "filter (\<lambda>l. client l = c) (filter shared ls) = map (mark c) (queue c)" for c
  proof -
    have "filter (\<lambda>l. client l = c) (filter shared ls) = filter shared (filter (\<lambda>l. client l = c) ls)"
      by (simp add: conj_commute)
    also have "\<dots> = concat (map (filter shared \<circ> turn c) (queue c))" by (simp add: turns filter_concat)
    also have "\<dots> = concat (map (\<lambda>t. [mark c t]) (queue c))"
      by (intro arg_cong [of _ _ concat] map_cong) (simp_all add: one)
    finally show ?thesis by simp
  qed
  from turns_in_order [of client "filter shared ls" mark queue, OF this] obtain ts where
    q: "map snd (filter (\<lambda>t. fst t = c) ts) = queue c" and
    s: "filter shared ls = map (\<lambda>(c, t). mark c t) ts" for c by blast
  let ?ts = "concat (map (\<lambda>(c, t). turn c t) ts)"
  have "filter (\<lambda>l. client l = c) (concat (map (\<lambda>(c, t). turn c t) us))
      = concat (map (turn c) (map snd (filter (\<lambda>t. fst t = c) us)))" for c us
  proof (induction us)
    case (Cons u us)
    have "filter (\<lambda>l. client l = c) (turn (fst u) (snd u)) = (if fst u = c then turn c (snd u) else [])"
      using own [of _ "fst u" "snd u"] by (auto simp: filter_empty_conv intro!: filter_True)
    with Cons show ?case by (simp add: case_prod_unfold)
  qed simp
  then have "filter (\<lambda>l. client l = c) ?ts = filter (\<lambda>l. client l = c) ls" for c
    by (simp only: q turns)
  moreover have "filter shared (turn (fst u) (snd u)) = [mark (fst u) (snd u)]" if "u \<in> set ts" for u
  proof (rule one)
    have "snd u \<in> set (map snd (filter (\<lambda>t. fst t = fst u) ts))" using that by auto
    then show "snd u \<in> set (queue (fst u))" by (simp only: q)
  qed
  then have "map (filter shared \<circ> (\<lambda>(c, t). turn c t)) ts = map (\<lambda>(c, t). [mark c t]) ts"
    by (simp add: case_prod_unfold)
  then have "filter shared ?ts = concat (map (\<lambda>(c, t). [mark c t]) ts)" by (simp only: filter_concat map_map)
  then have "filter shared ?ts = filter shared ls" by (simp add: s case_prod_unfold)
  ultimately show ?thesis using q by (auto simp: interleaves_iff)
qed

text \<open>
  Of the steps of a client the first \<open>m\<close> have been made. If \<open>c\<close> of its turns have by then taken
  their step on what is shared, the last of these has begun and the next one has not ended.
\<close>

definition in_time :: "('t \<Rightarrow> 'l list) \<Rightarrow> 't list \<Rightarrow> nat \<Rightarrow> nat \<Rightarrow> bool" where
  "in_time turn ts c m \<longleftrightarrow> c \<le> length ts
     \<and> (0 < c \<longrightarrow> length (concat (map turn (take (c - 1) ts))) < m)
     \<and> (c < length ts \<longrightarrow> m < length (concat (map turn (take (Suc c) ts))))"

lemma in_time_length:
  assumes "\<And>t. length (turn t) = length (turn' t)"
  shows "in_time turn ts c m \<longleftrightarrow> in_time turn' ts c m"
  by (simp add: in_time_def length_concat comp_def assms)

lemma in_time_Cons:
  assumes "in_time turn ts c m" "turn t \<noteq> []"
  shows "in_time turn (t # ts) (Suc c) (length (turn t) + m)"
  using assms by (cases c) (auto simp: in_time_def)

lemma turns_in_time:
  assumes "\<And>t. t \<in> set ts \<Longrightarrow> length (filter shared (turn t)) = 1"
  shows "in_time turn ts (length (filter shared (take m (concat (map turn ts))))) m"
  using assms
proof (induction ts arbitrary: m)
  case Nil
  show ?case by (simp add: in_time_def)
next
  case (Cons t ts)
  have one: "length (filter shared (turn t)) = 1" using Cons.prems by simp
  then have ne: "turn t \<noteq> []" by auto
  show ?case
  proof (cases "length (turn t) \<le> m")
    case True
    then obtain k where "m = length (turn t) + k" by (metis le_Suc_ex)
    with in_time_Cons [where turn = turn and t = t, OF _ ne] Cons.IH [of k] Cons.prems one show ?thesis by simp
  next
    case False
    let ?c = "length (filter shared (take m (turn t)))"
    have "length (filter shared (take m (turn t))) + length (filter shared (drop m (turn t))) = 1"
      using one by (metis append_take_drop_id filter_append length_append)
    then have "?c \<le> 1" by simp
    moreover have "0 < m" if "?c \<noteq> 0" using that by (cases m) auto
    ultimately show ?thesis using False by (auto simp: in_time_def le_Suc_eq not_le Suc_le_eq split: if_splits)
  qed
qed

lemma filter_take: "filter P (take n xs) = take (length (filter P (take n xs))) (filter P xs)"
  by (metis append_eq_conv_conj append_take_drop_id filter_append)

text \<open>Labels on the steps of each client are labels on all of them.\<close>

lemma label_steps:
  assumes "\<And>c. filter (\<lambda>e. client e = c) es = map fst (xs c)"
  shows "\<exists>ls. map fst ls = es \<and> (\<forall>c. filter (\<lambda>l. client (fst l) = c) ls = xs c)"
  using assms
proof (induction es arbitrary: xs)
  case Nil
  then show ?case by (intro exI [of _ "[]"]) auto
next
  case (Cons e es)
  obtain b rest where x: "xs (client e) = (e, b) # rest"
    using Cons.prems [of "client e"] by (cases "xs (client e)") auto
  have "filter (\<lambda>e. client e = c) es = map fst ((xs(client e := rest)) c)" for c
    using Cons.prems [of c] x by (cases "c = client e") auto
  from Cons.IH [OF this] obtain ls where ls: "map fst ls = es"
      "filter (\<lambda>l. client (fst l) = c) ls = (xs(client e := rest)) c" for c
    by blast
  have "filter (\<lambda>l. client (fst l) = c) ((e, b) # ls) = xs c" for c
    using ls(2) [of c] x by auto
  with ls(1) show ?case by (intro exI [of _ "(e, b) # ls"]) simp
qed

section \<open>Steps that commute\<close>

text \<open>
  Two states are the \<open>same\<close> when no later step can tell them apart.
\<close>

locale commuting_steps =
  fixes step :: "'l \<Rightarrow> 's \<Rightarrow> 's option"
    and client :: "'l \<Rightarrow> 'c"
    and shared :: "'l \<Rightarrow> bool"
    and same :: "'s \<Rightarrow> 's \<Rightarrow> bool"
  assumes same_refl: "same s s"
    and same_trans: "same s t \<Longrightarrow> same t u \<Longrightarrow> same s u"
    and same_step: "same s t \<Longrightarrow> step l s = Some s' \<Longrightarrow> \<exists>t'. step l t = Some t' \<and> same s' t'"
    and swap: "step a s = Some s1 \<Longrightarrow> step b s1 = Some s2 \<Longrightarrow> client a \<noteq> client b \<Longrightarrow> \<not> (shared a \<and> shared b) \<Longrightarrow>
      \<exists>s3 s4. step b s = Some s3 \<and> step a s3 = Some s4 \<and> same s2 s4"
begin

lemma same_run:
  "same s t \<Longrightarrow> run_labels step ls s = Some s' \<Longrightarrow> \<exists>t'. run_labels step ls t = Some t' \<and> same s' t'"
proof (induction ls arbitrary: s t)
  case (Cons l ls)
  then obtain s1 where s1: "step l s = Some s1" "run_labels step ls s1 = Some s'"
    by (auto split: option.splits)
  then obtain t1 where "step l t = Some t1" "same s1 t1" using same_step Cons.prems(1) by blast
  with Cons.IH s1(2) show ?case by auto
qed simp

lemma move_back:
  assumes "run_labels step (x # pre @ post) s = Some t"
    and "\<And>p. p \<in> set pre \<Longrightarrow> client p \<noteq> client x \<and> \<not> (shared x \<and> shared p)"
  shows "\<exists>t'. run_labels step (pre @ x # post) s = Some t' \<and> same t t'"
  using assms
proof (induction pre arbitrary: s t)
  case Nil
  then show ?case using same_refl by auto
next
  case (Cons p pre)
  then obtain s1 s2 where s: "step x s = Some s1" "step p s1 = Some s2" "run_labels step (pre @ post) s2 = Some t"
    by (auto split: option.splits)
  have "client x \<noteq> client p" "\<not> (shared x \<and> shared p)" using Cons.prems(2) [of p] by auto
  from swap [OF s(1,2) this] obtain s3 s4 where
    s3: "step p s = Some s3" "step x s3 = Some s4" "same s2 s4" by blast
  from same_run [OF s3(3) s(3)] obtain t1 where
    t1: "run_labels step (pre @ post) s4 = Some t1" "same t t1" by blast
  with s3(2) have "run_labels step (x # pre @ post) s3 = Some t1" by simp
  from Cons.IH [OF this] Cons.prems(2) obtain t' where
    "run_labels step (pre @ x # post) s3 = Some t'" "same t1 t'" by auto
  with s3(1) t1(2) same_trans show ?case by auto
qed

lemma interleaved_run:
  assumes "run_labels step xs s = Some t" "interleaves client shared xs ys"
  shows "\<exists>t'. run_labels step ys s = Some t' \<and> same t t'"
  using assms
proof (induction xs arbitrary: s ys)
  case Nil
  then have "ys = []" by (cases ys) (auto simp: interleaves_def)
  with Nil.prems(1) same_refl show ?case by simp
next
  case (Cons x xs)
  then obtain s1 where s1: "step x s = Some s1" "run_labels step xs s1 = Some t"
    by (auto split: option.splits)
  from Cons.prems(2) obtain pre post where ys: "ys = pre @ x # post" "interleaves client shared xs (pre @ post)"
      "\<And>p. p \<in> set pre \<Longrightarrow> client p \<noteq> client x \<and> \<not> (shared x \<and> shared p)"
    by (rule interleaves_Cons) blast
  from Cons.IH [OF s1(2) ys(2)] obtain t1 where t1: "run_labels step (pre @ post) s1 = Some t1" "same t t1"
    by blast
  with s1(1) have "run_labels step (x # pre @ post) s = Some t1" by simp
  from move_back [OF this ys(3)] t1(2) same_trans ys(1) show ?case by blast
qed

end

end
