(* ===== verification/Session_Independence.thy ===== *)
theory Session_Independence
  imports Session_Files
begin

text \<open>
  Which events of a session look at the stored files. All others do the same whatever is
  stored, and leave it as it is.
\<close>

section \<open>Events that use the files\<close>

definition command_uses_files :: "string \<Rightarrow> bool" where
  "command_uses_files packet =
     (case parse_ftp packet of
        Inl _ \<Rightarrow> False
      | Inr p \<Rightarrow> ftp_command p \<in> {FtpCommand.List, Retr, Dele})"

definition method_uses_files :: "string \<Rightarrow> bool" where
  "method_uses_files head =
     (case parse_http head of
        Inl _ \<Rightarrow> False
      | Inr p \<Rightarrow> http_method p \<in> {Get, Delete})"

text \<open>A message, an upload that is saved, a body that is stored.\<close>

definition message_uses_files :: "session \<Rightarrow> bool" where
  "message_uses_files s =
     (case read_until crlf (input_stream s) (socket_rx s) of
        None \<Rightarrow> False
      | Some (n, buf, rx) \<Rightarrow>
          (case detectProtocol (take n buf) of
             Inr Ftp \<Rightarrow> command_uses_files (take n buf)
           | Inr Http \<Rightarrow>
               (case read_until (crlf @ crlf) (drop n buf) rx of
                  None \<Rightarrow> False
                | Some (k, buf', _) \<Rightarrow> method_uses_files (take n buf @ take k buf'))
           | Inl _ \<Rightarrow> False))"

fun uses_files :: "event \<Rightarrow> session \<Rightarrow> bool" where
  "uses_files (MessageReceived env) s = message_uses_files s"
| "uses_files RunDataTask s = (case ftp_data_serializer s of SaveFile f p # _ \<Rightarrow> True | _ \<Rightarrow> False)"
| "uses_files (BodyRead b) s = True"
| "uses_files _ s = False"

lemma uses_files_update [simp]: "uses_files e (s\<lparr>filesystem := m\<rparr>) = uses_files e s"
  by (cases "(e, s)" rule: uses_files.cases) (simp_all add: message_uses_files_def)

section \<open>The others do not depend on them\<close>

text \<open>The session with other files, where there is one.\<close>

definition refile :: "MemoryFs \<Rightarrow> session result \<Rightarrow> session result" where
  "refile m = map_sum id (filesystem_update (\<lambda>_. m))"

lemma refile_simps [simp]:
  "refile m (Inl x) = Inl x" "refile m (Inr s) = Inr (s\<lparr>filesystem := m\<rparr>)"
  by (simp_all add: refile_def)

lemma refile_eq_Inr: "refile m r = Inr s \<longleftrightarrow> (\<exists>s'. r = Inr s' \<and> s = s'\<lparr>filesystem := m\<rparr>)"
  by (cases r) auto

lemma refile_and_then: "and_then (refile m r) f = and_then r (\<lambda>s. f (s\<lparr>filesystem := m\<rparr>))"
  by (cases r) simp_all

lemma refile_then: "refile m (and_then r f) = and_then r (\<lambda>s. refile m (f s))"
  by (cases r) simp_all

lemma refile_if: "refile m (if b then x else y) = (if b then refile m x else refile m y)"
  by simp

lemma sendMessage_files: "sendMessage t (s\<lparr>filesystem := m\<rparr>) = (sendMessage t s)\<lparr>filesystem := m\<rparr>"
  by (simp add: sendMessage_def)

lemmas refile_defs = handler_defs ftp_reply_to_def sendMessage_def token_def Let_def refile_then refile_if

lemma handler_refile:
  "handleFtpUser p (s\<lparr>filesystem := m\<rparr>) = refile m (handleFtpUser p s)"
  "handleFtpPass p (s\<lparr>filesystem := m\<rparr>) = refile m (handleFtpPass p s)"
  "handleFtpStor p (s\<lparr>filesystem := m\<rparr>) = refile m (handleFtpStor p s)"
  "handleFtpType p (s\<lparr>filesystem := m\<rparr>) = refile m (handleFtpType p s)"
  "handleFtpQuit p (s\<lparr>filesystem := m\<rparr>) = refile m (handleFtpQuit p s)"
  "handleFtpCwd p (s\<lparr>filesystem := m\<rparr>) = refile m (handleFtpCwd p s)"
  by (simp_all add: refile_defs split: and_then_split)

lemma handleFtpPasv_refile:
  "handleFtpPasv env p (s\<lparr>filesystem := m\<rparr>) = refile m (handleFtpPasv env p s)"
  by (auto simp: refile_defs split: and_then_split option.splits acceptor.splits)

lemma handleHttpPut_refile:
  "handleHttpPut p (s\<lparr>filesystem := m\<rparr>) = refile m (handleHttpPut p s)"
  by (auto simp: refile_defs split: and_then_split option.splits)

lemma handleFtp_refile:
  assumes "\<not> command_uses_files packet"
  shows "handleFtp env packet (s\<lparr>filesystem := m\<rparr>) = refile m (handleFtp env packet s)"
proof (cases "parse_ftp packet")
  case (Inr p)
  then have "ftp_command p \<notin> {FtpCommand.List, Retr, Dele}" using assms by (simp add: command_uses_files_def)
  then show ?thesis using Inr
    by (cases "ftp_command p") (simp_all add: handleFtp_def ftp_handlers_def handler_refile handleFtpPasv_refile
        refile_and_then refile_then refile_if receiveMessage_def sendMessage_def split: and_then_split)
qed (simp add: handleFtp_def)

lemma answerHttp_refile:
  assumes "\<not> method_uses_files head"
  shows "answerHttp head (s\<lparr>filesystem := m\<rparr>) = refile m (answerHttp head s)"
proof (cases "parse_http head")
  case (Inr p)
  then have "http_method p \<notin> {Get, Delete}" using assms by (simp add: method_uses_files_def)
  moreover have "authHttpUser p (s\<lparr>filesystem := m\<rparr>) = authHttpUser p s" by (simp add: authHttpUser_def)
  ultimately show ?thesis using Inr
    by (cases "http_method p") (simp_all add: answerHttp_def http_handlers_def handleHttpPut_refile
        refile_then http_reply_to_def sendMessage_files split: and_then_split)
qed (simp add: answerHttp_def)

lemma reading_refile:
  "s\<lparr>filesystem := m, receives := a, input_stream := b, socket_rx := c\<rparr>
     = s\<lparr>receives := a, input_stream := b, socket_rx := c, filesystem := m\<rparr>"
  "s\<lparr>filesystem := m, input_stream := b, socket_rx := c\<rparr> = s\<lparr>input_stream := b, socket_rx := c, filesystem := m\<rparr>"
  by simp_all

lemma message_received_refile:
  assumes "\<not> message_uses_files s"
  shows "message_received env (s\<lparr>filesystem := m\<rparr>) = refile m (message_received env s)"
proof (cases "read_until crlf (input_stream s) (socket_rx s)")
  case (Some r)
  obtain n buf rx where r: "r = (n, buf, rx)" by (cases r)
  let ?s1 = "s\<lparr>receives := receives s - 1, input_stream := drop n buf, socket_rx := rx\<rparr>"
  show ?thesis
  proof (cases "detectProtocol (take n buf)")
    case (Inr q)
    show ?thesis
    proof (cases q)
      case Ftp
      with assms Some r Inr have "\<not> command_uses_files (take n buf)" by (simp add: message_uses_files_def)
      from handleFtp_refile [OF this, of env m ?s1] Some r Inr Ftp show ?thesis
        by (simp add: message_received_def Let_def reading_refile)
    next
      case Http
      have "handleHttp (take n buf) (?s1\<lparr>filesystem := m\<rparr>) = refile m (handleHttp (take n buf) ?s1)"
      proof (cases "read_until (crlf @ crlf) (drop n buf) rx")
        case (Some h)
        obtain k buf' rx' where h: "h = (k, buf', rx')" by (cases h)
        with assms Some r Inr Http \<open>read_until crlf (input_stream s) (socket_rx s) = Some r\<close>
        have "\<not> method_uses_files (take n buf @ take k buf')" by (simp add: message_uses_files_def)
        from answerHttp_refile [OF this, of m "?s1\<lparr>input_stream := drop k buf', socket_rx := rx'\<rparr>"] Some h
        show ?thesis by (simp add: handleHttp_def reading_refile)
      qed (simp add: handleHttp_def)
      with Some r Inr Http show ?thesis by (simp add: message_received_def Let_def reading_refile)
    qed
  qed (simp add: message_received_def Some r)
qed (simp add: message_received_def)

text \<open>An event that does not use the files does the same on others, and leaves them alone.\<close>

lemma react_refile:
  assumes "\<not> uses_files e s"
  shows "react e (s\<lparr>filesystem := m\<rparr>) = map_option (refile m) (react e s)"
proof (cases e)
  case (MessageReceived env)
  with assms show ?thesis by (simp add: message_received_refile)
next
  case RunTask
  show ?thesis
  proof (cases "serializer s")
    case (Cons t ts)
    with RunTask show ?thesis
      by (cases t) (auto simp: completion_defs split: list.splits)
  qed (simp add: RunTask)
next
  case RunDataTask
  show ?thesis
  proof (cases "ftp_data_serializer s")
    case (Cons t ts)
    with RunDataTask assms show ?thesis
      by (cases t) (auto simp: completion_defs split: list.splits option.splits)
  qed (simp add: RunDataTask)
next
  case (AcceptDone a error)
  then show ?thesis
    by (cases error; cases "on_accept a") (auto simp: completion_defs)
next
  case (BodyRead b)
  with assms show ?thesis by simp
qed (use assms in \<open>auto simp: completion_defs unused_def split: list.splits option.splits\<close>)

lemma react_keeps_files:
  assumes "\<not> uses_files e s" "react e s = Some (Inr s')"
  shows "filesystem s' = filesystem s"
proof -
  have "Some (Inr s') = Some (Inr (s'\<lparr>filesystem := filesystem s\<rparr>))"
    using react_refile [OF assms(1), of "filesystem s"] assms(2) by simp
  then show ?thesis by (metis option.inject session.select_convs(3) sum.inject(2) session.update_convs(3) session.surjective)
qed

end
