(* ===== verification/Server_Interleaving.thy ===== *)
theory Server_Interleaving
  imports Server_Dialogue Interleaving Session_Independence
begin

text \<open>
  The events of several clients in another order. What happens to two sessions can change
  places unless both events use the files; a run of a server can therefore be interleaved anew
  as long as every client's events keep their order, and so do those that use the files.
\<close>

section \<open>What can be seen of a server\<close>

text \<open>
  A session of the model has its own component for the users and the files, which is set when
  the session does something. \<open>as_seen\<close> sets all of them.
\<close>

definition as_seen :: "ObjectStorage \<Rightarrow> ObjectStorage" where
  "as_seen srv = srv\<lparr>sessions := map (with_shared srv) (sessions srv)\<rparr>"

lemma as_seen_simps [simp]:
  "srv_users (as_seen srv) = srv_users srv" "srv_filesystem (as_seen srv) = srv_filesystem srv"
  "running (as_seen srv) = running srv" "srv_workers (as_seen srv) = srv_workers srv"
  "length (sessions (as_seen srv)) = length (sessions srv)"
  by (simp_all add: as_seen_def)

lemma with_shared_twice [simp]: "with_shared srv (with_shared srv' s) = with_shared srv s"
  by (simp add: with_shared_def)

lemma session_at_seen: "i < length (sessions srv) \<Longrightarrow> session_at (as_seen srv) i = session_at srv i"
  by (simp add: session_at_def as_seen_def with_shared_def)

lemma as_seen_put: "as_seen (put_session i s (as_seen srv)) = as_seen (put_session i s srv)"
proof -
  have "with_shared (put_session i s (as_seen srv)) = with_shared (put_session i s srv)"
    by (rule ext) (simp add: with_shared_def put_session_def)
  then show ?thesis
    by (simp add: as_seen_def put_session_def map_update comp_def)
qed

lemma accounts_seen: "accounts (as_seen srv) = accounts srv"
  by (rule nth_equalityI) (simp_all add: accounts_nth session_at_seen)

section \<open>Events of clients, with a mark on those that use the files\<close>

fun client_event :: "server_event \<Rightarrow> bool" where
  "client_event (At i e) = True"
| "client_event _ = False"

fun client_of :: "server_event \<Rightarrow> nat" where
  "client_of (At i e) = i"
| "client_of _ = 0"

fun event_uses_files :: "server_event \<Rightarrow> ObjectStorage \<Rightarrow> bool" where
  "event_uses_files (At i e) srv = uses_files e (session_at srv i)"
| "event_uses_files _ srv = False"

definition client_step :: "server_event \<times> bool \<Rightarrow> ObjectStorage \<Rightarrow> ObjectStorage option" where
  "client_step l srv =
     (if client_event (fst l) \<and> (event_uses_files (fst l) srv \<longrightarrow> snd l) then
        (case server_react (fst l) srv of Some (Inr srv') \<Rightarrow> Some srv' | _ \<Rightarrow> None)
      else None)"

fun mark_events :: "server_event list \<Rightarrow> ObjectStorage \<Rightarrow> (server_event \<times> bool) list" where
  "mark_events [] srv = []"
| "mark_events (e # es) srv =
     (e, event_uses_files e srv)
     # (case server_react e srv of Some (Inr srv') \<Rightarrow> mark_events es srv' | _ \<Rightarrow> [])"

lemma client_step_iff:
  "client_step l srv = Some srv' \<longleftrightarrow>
     (\<exists>i e s. fst l = At i e \<and> up srv \<and> i < length (sessions srv) \<and> (uses_files e (session_at srv i) \<longrightarrow> snd l)
        \<and> react e (session_at srv i) = Some (Inr s) \<and> srv' = put_session i s srv)"
  by (cases "fst l")
    (auto simp: client_step_def up_def session_at_def and_then_def split: option.splits sum.splits if_splits)

lemma run_marked:
  "server_run es srv = Some (Inr srv') \<Longrightarrow> list_all client_event es \<Longrightarrow>
     run_labels client_step (mark_events es srv) srv = Some srv' \<and> map fst (mark_events es srv) = es"
proof (induction es arbitrary: srv)
  case (Cons e es)
  then obtain srv1 where srv1: "server_react e srv = Some (Inr srv1)" "server_run es srv1 = Some (Inr srv')"
    by (auto split: option.splits sum.splits if_splits)
  with Cons show ?case by (simp add: client_step_def)
qed simp

lemma run_unmarked:
  "run_labels client_step ls srv = Some srv' \<Longrightarrow> server_run (map fst ls) srv = Some (Inr srv')"
  by (induction ls arbitrary: srv) (auto simp: client_step_def split: option.splits sum.splits if_splits)

section \<open>They commute\<close>

lemma nth_list_update_if: "k < length xs \<Longrightarrow> xs[i := x] ! k = (if k = i then x else xs ! k)"
  by (cases "k = i") simp_all

lemma same_but_files:
  assumes "x\<lparr>filesystem := m\<rparr> = y\<lparr>filesystem := m\<rparr>"
  shows "x\<lparr>user_database := u, filesystem := n\<rparr> = y\<lparr>user_database := u, filesystem := n\<rparr>"
proof -
  have "x\<lparr>filesystem := m, user_database := u, filesystem := n\<rparr> = y\<lparr>filesystem := m, user_database := u, filesystem := n\<rparr>"
    unfolding assms ..
  then show ?thesis by simp
qed

lemma put_sessions_swap:
  assumes "i \<noteq> j" "filesystem b = filesystem a'" "b\<lparr>filesystem := m\<rparr> = b'\<lparr>filesystem := m\<rparr>"
    and "a\<lparr>filesystem := m\<rparr> = a'\<lparr>filesystem := m\<rparr>"
  shows "as_seen (put_session j b (put_session i a srv)) = as_seen (put_session i a' (put_session j b' srv))"
proof -
  have "sessions (as_seen (put_session j b (put_session i a srv)))
      = sessions (as_seen (put_session i a' (put_session j b' srv)))"
    by (rule nth_equalityI)
      (use assms(1,2) same_but_files [OF assms(3)] same_but_files [OF assms(4)] in
        \<open>simp_all add: as_seen_def put_session_def with_shared_def nth_list_update_if\<close>)
  with assms(2) show ?thesis by (simp add: as_seen_def put_session_def)
qed

lemma client_steps_swap:
  assumes a: "client_step a srv = Some srv1" and b: "client_step b srv1 = Some srv2"
    and "client_of (fst a) \<noteq> client_of (fst b)" "\<not> (snd a \<and> snd b)"
  shows "\<exists>srv3 srv4. client_step b srv = Some srv3 \<and> client_step a srv3 = Some srv4 \<and> as_seen srv2 = as_seen srv4"
proof -
  obtain i e s where s: "fst a = At i e" "up srv" "i < length (sessions srv)"
      "uses_files e (session_at srv i) \<longrightarrow> snd a" "react e (session_at srv i) = Some (Inr s)" "srv1 = put_session i s srv"
    using a by (auto simp: client_step_iff)
  obtain j f t where t: "fst b = At j f" "j < length (sessions srv1)"
      "uses_files f (session_at srv1 j) \<longrightarrow> snd b" "react f (session_at srv1 j) = Some (Inr t)" "srv2 = put_session j t srv1"
    using b by (auto simp: client_step_iff)
  have ij: "i \<noteq> j" and j: "j < length (sessions srv)" using assms(3) s t by (auto simp: put_session_def)
  let ?m = "filesystem (session_at srv i)"
  have m: "filesystem (session_at srv j) = ?m" by (simp add: session_at_def with_shared_def)
  have at_j: "session_at srv1 j = (session_at srv j)\<lparr>filesystem := filesystem s\<rparr>"
    using s(6) ij j by (simp add: session_at_put)
  have "\<exists>s' t'. react f (session_at srv j) = Some (Inr t') \<and> react e ((session_at srv i)\<lparr>filesystem := filesystem t'\<rparr>) = Some (Inr s')
      \<and> filesystem t = filesystem s' \<and> t\<lparr>filesystem := ?m\<rparr> = t'\<lparr>filesystem := ?m\<rparr> \<and> s\<lparr>filesystem := ?m\<rparr> = s'\<lparr>filesystem := ?m\<rparr>"
  proof (cases "uses_files f (session_at srv j)")
    case False
    have "react f (session_at srv1 j) = map_option (refile (filesystem s)) (react f (session_at srv j))"
      unfolding at_j by (rule react_refile [OF False])
    with t(4) obtain t' where t': "react f (session_at srv j) = Some (Inr t')" "t = t'\<lparr>filesystem := filesystem s\<rparr>"
      by (auto simp: refile_eq_Inr)
    moreover have "filesystem t' = ?m" using react_keeps_files [OF False t'(1)] m by simp
    ultimately show ?thesis using s(5) by (intro exI [of _ s] exI [of _ t']) simp
  next
    case True
    with s(4) t(3) at_j assms(4) have e: "\<not> uses_files e (session_at srv i)" by simp
    have "filesystem s = ?m" by (rule react_keeps_files [OF e s(5)])
    then have "session_at srv1 j = session_at srv j" using at_j m by simp
    moreover have "react e ((session_at srv i)\<lparr>filesystem := filesystem t\<rparr>) = Some (Inr (s\<lparr>filesystem := filesystem t\<rparr>))"
      using react_refile [OF e] s(5) by simp
    ultimately show ?thesis using t(4) by (intro exI [of _ "s\<lparr>filesystem := filesystem t\<rparr>"] exI [of _ t]) simp
  qed
  then obtain s' t' where st: "react f (session_at srv j) = Some (Inr t')"
      "react e ((session_at srv i)\<lparr>filesystem := filesystem t'\<rparr>) = Some (Inr s')"
      "filesystem t = filesystem s'" "t\<lparr>filesystem := ?m\<rparr> = t'\<lparr>filesystem := ?m\<rparr>"
      "s\<lparr>filesystem := ?m\<rparr> = s'\<lparr>filesystem := ?m\<rparr>" by blast
  let ?srv3 = "put_session j t' srv"
  have "client_step b srv = Some ?srv3"
    using t(1,3) s(2) j st(1) at_j by (simp add: client_step_iff)
  moreover have at_i: "session_at ?srv3 i = (session_at srv i)\<lparr>filesystem := filesystem t'\<rparr>"
    using ij s(3) by (simp add: session_at_put)
  have "client_step a ?srv3 = Some (put_session i s' ?srv3)"
    using s(1-4) st(2) by (simp add: client_step_iff at_i) (simp add: up_def put_session_def)
  moreover have "as_seen srv2 = as_seen (put_session i s' ?srv3)"
    unfolding t(5) s(6) by (rule put_sessions_swap [OF ij st(3-5)])
  ultimately show ?thesis by blast
qed

lemma client_step_seen:
  assumes "as_seen srv = as_seen srv'" "client_step l srv = Some srv1"
  shows "\<exists>srv2. client_step l srv' = Some srv2 \<and> as_seen srv1 = as_seen srv2"
proof -
  obtain i e s where s: "fst l = At i e" "up srv" "i < length (sessions srv)"
      "uses_files e (session_at srv i) \<longrightarrow> snd l" "react e (session_at srv i) = Some (Inr s)" "srv1 = put_session i s srv"
    using assms(2) by (auto simp: client_step_iff)
  have "running srv' = running srv" "srv_workers srv' = srv_workers srv" "length (sessions srv') = length (sessions srv)"
    using arg_cong [OF assms(1), of running] arg_cong [OF assms(1), of srv_workers]
      arg_cong [OF assms(1), of "\<lambda>x. length (sessions x)"] by simp_all
  moreover from this have "session_at srv' i = session_at srv i"
    using s(3) assms(1) session_at_seen by metis
  ultimately have "client_step l srv' = Some (put_session i s srv')"
    using s by (simp add: client_step_iff up_def)
  moreover have "as_seen srv1 = as_seen (put_session i s srv')"
    unfolding s(6) by (metis as_seen_put assms(1))
  ultimately show ?thesis by blast
qed

interpretation clients: commuting_steps client_step "\<lambda>l. client_of (fst l)" snd "\<lambda>srv srv'. as_seen srv = as_seen srv'"
  by unfold_locales (rule refl, erule (1) trans, erule (1) client_step_seen, erule (3) client_steps_swap)

lemma interleaved_clients:
  assumes "server_run es srv = Some (Inr srv')" "list_all client_event es"
    and "interleaves (\<lambda>l. client_of (fst l)) snd (mark_events es srv) ls"
  shows "\<exists>srv''. server_run (map fst ls) srv = Some (Inr srv'') \<and> as_seen srv'' = as_seen srv'"
  using clients.interleaved_run [OF conjunct1 [OF run_marked [OF assms(1,2)]] assms(3)] run_unmarked by metis

end
