(* ===== verification/Session_Delivery.thy ===== *)
theory Session_Delivery
  imports Session_Files
begin

text \<open>
  Writing out the replies is apart from everything else a session does: the tasks that queue
  a message and the ends of its writes change nothing but the queues, and no request can tell
  how far they have come.
\<close>

definition offline :: "session \<Rightarrow> session" where
  "offline s = s\<lparr>serializer := [], output_queue := [], writes := [], wire := []\<rparr>"

abbreviation offline_result :: "session result \<Rightarrow> session result" where
  "offline_result \<equiv> map_sum id offline"

section \<open>Deliveries\<close>

text \<open>All tasks that wait are messages, and the queues hold what has been sent.\<close>

definition delivering :: "session \<Rightarrow> bool" where
  "delivering s \<longleftrightarrow> reply_inv s \<and> ReceiveMessage \<notin> set (serializer s)"

lemma not_receive_task: "ReceiveMessage \<noteq> t \<longleftrightarrow> (\<exists>m. t = EnqueueMessage m)"
  by (cases t) auto

lemma delivery_apart:
  assumes "delivering s" "is_control_event e" "react e s = Some r"
  obtains s' where "r = Inr s'" "offline s' = offline s"
proof (cases e)
  case RunTask
  then obtain m ts where "serializer s = EnqueueMessage m # ts"
    using assms by (cases "serializer s") (auto simp: delivering_def not_receive_task split: list.splits)
  with RunTask assms(3) that show thesis
    by (auto simp: completion_defs offline_def split: if_splits)
next
  case (MessageWritten m ok)
  with assms that show thesis
    by (auto simp: delivering_def reply_inv_def completion_defs offline_def split: if_splits list.splits)
qed (use assms(2) in \<open>simp_all add: is_control_event_def\<close>)

interpretation delivering: session_invariant delivering
proof
  fix s e s'
  assume step: "session_step s e (Inr s')" and inv: "delivering s"
  then have "reply_inv s'" using replies.preserved by (auto simp: delivering_def)
  moreover have "ReceiveMessage \<notin> set (serializer s')"
  proof (cases "is_control_event e")
    case False
    with step obtain ms where "sends ms s s'" using step_sends by blast
    with inv show ?thesis by (auto simp: sends_def delivering_def)
  next
    case True
    with step inv show ?thesis
      by (cases rule: session_stepE)
        (auto simp: is_control_event_def delivering_def not_receive_task completion_defs
          split: list.splits if_splits)
  qed
  ultimately show "delivering s'" by (simp add: delivering_def)
qed

section \<open>Requests\<close>

text \<open>What arrives, and what is done with it.\<close>

fun is_request_event :: "event \<Rightarrow> bool" where
  "is_request_event (Arrive x) = True"
| "is_request_event (MessageReceived env) = True"
| "is_request_event (BodyRead b) = True"
| "is_request_event _ = False"

lemma offline_simps [simp]:
  "offline (offline s) = offline s" "serializer (offline s) = []"
  "user_database (offline s) = user_database s" "authenticate (offline s) = authenticate s"
  "filesystem (offline s) = filesystem s" "local_address (offline s) = local_address s"
  "receives (offline s) = receives s" "input_stream (offline s) = input_stream s"
  "socket_rx (offline s) = socket_rx s" "socket_eof (offline s) = socket_eof s"
  "body_reads (offline s) = body_reads s" "sent_log (offline s) = sent_log s"
  by (simp_all add: offline_def)

lemma offline_update [simp]:
  "offline (s\<lparr>serializer := a\<rparr>) = offline s"
  "offline (s\<lparr>filesystem := m\<rparr>) = (offline s)\<lparr>filesystem := m\<rparr>"
  "offline (s\<lparr>receives := r\<rparr>) = (offline s)\<lparr>receives := r\<rparr>"
  "offline (s\<lparr>input_stream := x\<rparr>) = (offline s)\<lparr>input_stream := x\<rparr>"
  "offline (s\<lparr>socket_rx := xs\<rparr>) = (offline s)\<lparr>socket_rx := xs\<rparr>"
  "offline (s\<lparr>body_reads := bs\<rparr>) = (offline s)\<lparr>body_reads := bs\<rparr>"
  by (simp_all add: offline_def)

lemma offline_then: "offline_result (and_then r f) = and_then r (\<lambda>x. offline_result (f x))"
  by (cases r) simp_all

lemma offline_if: "offline_result (if b then x else y) = (if b then offline_result x else offline_result y)"
  by simp

text \<open>\<open>unaware f\<close>: what \<open>f\<close> does to a session does not depend on how far the deliveries have come.\<close>

definition unaware :: "(session \<Rightarrow> session result) \<Rightarrow> bool" where
  "unaware f \<longleftrightarrow> (\<forall>s. offline_result (f (offline s)) = offline_result (f s))"

lemma unawareD: "unaware f \<Longrightarrow> offline s = offline t \<Longrightarrow> offline_result (f s) = offline_result (f t)"
  unfolding unaware_def by metis

lemma unaware_then:
  assumes "unaware f" "unaware g"
  shows "unaware (\<lambda>s. and_then (f s) g)"
  unfolding unaware_def
proof
  fix s
  have f: "offline_result (f (offline s)) = offline_result (f s)" using assms(1) by (simp add: unaware_def)
  show "offline_result (and_then (f (offline s)) g) = offline_result (and_then (f s) g)"
  proof (cases "f s")
    case (Inl x)
    with f show ?thesis by (cases "f (offline s)") auto
  next
    case (Inr a)
    with f obtain b where "f (offline s) = Inr b" "offline b = offline a" by (cases "f (offline s)") auto
    with Inr unawareD [OF assms(2), of b a] show ?thesis by simp
  qed
qed

lemmas unaware_defs = unaware_def handler_defs ftp_reply_to_def sendMessage_def token_def Let_def offline_then
  offline_if offline_def

lemma ftp_handlers_unaware:
  "unaware (handleFtpUser p)" "unaware (handleFtpPass p)" "unaware (handleFtpList p)"
  "unaware (handleFtpStor p)" "unaware (handleFtpType p)" "unaware (handleFtpQuit p)" "unaware (handleFtpCwd p)"
  by (simp_all add: unaware_defs split: and_then_split)

lemma handleFtpRetr_unaware: "unaware (handleFtpRetr p)"
  by (auto simp: unaware_defs split: and_then_split option.splits Status.splits prod.splits)

lemma handleFtpDele_unaware: "unaware (handleFtpDele p)"
  by (auto simp: unaware_defs split: and_then_split Status.splits prod.splits)

lemma handleFtpPasv_unaware: "unaware (handleFtpPasv env p)"
  by (auto simp: unaware_defs split: option.splits acceptor.splits)

lemma http_handlers_unaware:
  "unaware (handleHttpGet p)" "unaware (handleHttpPut p)" "unaware (handleHttpDelete p)"
  by (auto simp: unaware_defs split: and_then_split option.splits Status.splits prod.splits)

lemma ftp_dispatch_unaware: "ftp_handlers env c = Some handle \<Longrightarrow> unaware (handle p)"
  by (cases c)
    (auto simp: ftp_handlers_def ftp_handlers_unaware handleFtpRetr_unaware handleFtpDele_unaware handleFtpPasv_unaware)

lemma http_dispatch_unaware: "http_handlers c = Some handle \<Longrightarrow> unaware (handle p)"
  by (cases c) (auto simp: http_handlers_def http_handlers_unaware)

lemma update_unaware:
  "unaware (\<lambda>s. Inr (receiveMessage s))" "unaware (\<lambda>s. Inr (s\<lparr>last_ftp_command := c\<rparr>))"
  "unaware (\<lambda>s. Inr (sendMessage m s))" "unaware (\<lambda>s. Inl x)"
  by (simp_all add: unaware_defs)

lemma handleFtp_unaware: "unaware (handleFtp env packet)"
proof (cases "parse_ftp packet")
  case (Inr p)
  have "unaware (\<lambda>s. if ftp_valid p then
      (case ftp_handlers env (ftp_command p) of
         None \<Rightarrow> Inl (Terminate Out_Of_Range)
       | Some handler \<Rightarrow> and_then (handler p s) (\<lambda>s1. Inr (s1\<lparr>last_ftp_command := ftp_command p\<rparr>)))
     else Inr (sendMessage (ftp_serialise (FtpResponse1 SYNTAX_ERROR_UNRECOGNIZED_COMMAND)) s))"
    by (cases "ftp_valid p"; cases "ftp_handlers env (ftp_command p)")
      (simp_all add: update_unaware unaware_then ftp_dispatch_unaware)
  from unaware_then [OF this update_unaware(1)] Inr show ?thesis
    by (simp add: handleFtp_def [abs_def])
qed (simp add: handleFtp_def [abs_def] update_unaware)

lemma answerHttp_unaware: "unaware (answerHttp head)"
proof (cases "parse_http head")
  case (Inr p)
  have auth: "authHttpUser p (offline s) = authHttpUser p s" for s by (simp add: authHttpUser_def)
  show ?thesis unfolding unaware_def
  proof
    fix s
    have handled: "offline_result (handle p (offline s)) = offline_result (handle p s)"
      if "http_handlers (http_method p) = Some handle" for handle
      using http_dispatch_unaware [OF that, of p] by (simp add: unaware_def)
    have sent: "offline (http_reply_to r (offline s)) = offline (http_reply_to r s)" for r
      by (simp add: http_reply_to_def sendMessage_def offline_def)
    show "offline_result (answerHttp head (offline s)) = offline_result (answerHttp head s)"
      using Inr by (auto simp: answerHttp_def auth sent handled split: and_then_split option.split)
  qed
qed (simp add: answerHttp_def [abs_def] update_unaware)

lemma message_received_unaware: "unaware (message_received env)"
  unfolding unaware_def
proof
  fix s
  show "offline_result (message_received env (offline s)) = offline_result (message_received env s)"
  proof (cases "read_until crlf (input_stream s) (socket_rx s)")
    case (Some r)
    obtain n buf rx where r: "r = (n, buf, rx)" by (cases r)
    let ?read = "\<lambda>s. s\<lparr>receives := receives s - 1, input_stream := drop n buf, socket_rx := rx\<rparr>"
    have read: "offline (?read (offline s)) = offline (?read s)" by simp
    have ftp: "offline_result (handleFtp env (take n buf) (?read (offline s)))
        = offline_result (handleFtp env (take n buf) (?read s))"
      by (rule unawareD [OF handleFtp_unaware read])
    have http: "offline_result (handleHttp (take n buf) (?read (offline s)))
        = offline_result (handleHttp (take n buf) (?read s))"
    proof (cases "read_until (crlf @ crlf) (drop n buf) rx")
      case (Some h)
      obtain k buf' rx' where h: "h = (k, buf', rx')" by (cases h)
      have "offline ((?read (offline s))\<lparr>input_stream := drop k buf', socket_rx := rx'\<rparr>)
          = offline ((?read s)\<lparr>input_stream := drop k buf', socket_rx := rx'\<rparr>)" by simp
      from unawareD [OF answerHttp_unaware this] Some h show ?thesis by (simp add: handleHttp_def)
    qed (simp add: handleHttp_def)
    from Some r ftp http show ?thesis
      by (auto simp: message_received_def Let_def split: and_then_split AppLayerProtocol.split)
  qed (simp add: message_received_def)
qed

lemma body_read_offline: "offline (body_read b file (offline s)) = offline (body_read b file s)"
  by (auto simp: body_read_def http_reply_to_def sendMessage_def receiveMessage_def offline_def Let_def
      split: option.splits prod.splits Status.splits)

lemma request_apart:
  assumes "is_request_event e"
  shows "map_option offline_result (react e (offline s)) = map_option offline_result (react e s)"
proof (cases e)
  case (MessageReceived env)
  then show ?thesis using message_received_unaware [of env] by (simp add: unaware_def)
next
  case (BodyRead b)
  have "offline (body_read b f ((offline s)\<lparr>body_reads := bs, socket_rx := rx\<rparr>))
      = offline (body_read b f (s\<lparr>body_reads := bs, socket_rx := rx\<rparr>))" for f bs rx
    using body_read_offline [of b f "(offline s)\<lparr>body_reads := bs, socket_rx := rx\<rparr>"]
      body_read_offline [of b f "s\<lparr>body_reads := bs, socket_rx := rx\<rparr>"] by simp
  with BodyRead show ?thesis by (cases "read_exactly (fst b) (socket_rx s)") auto
qed (use assms in simp_all)

lemma request_apart_same:
  assumes "is_request_event e" "offline s = offline t" "react e s = Some (Inr s')"
  obtains t' where "react e t = Some (Inr t')" "offline t' = offline s'"
proof -
  have "map_option offline_result (react e t) = Some (Inr (offline s'))"
    using request_apart [OF assms(1), of s] request_apart [OF assms(1), of t] assms(2,3) by simp
  then obtain r where r: "react e t = Some r" "offline_result r = Inr (offline s')" by auto
  then obtain t' where "r = Inr t'" "offline t' = offline s'" by (cases r) auto
  with r(1) that show thesis by blast
qed

end
