(* ===== verification/Server_Delivery.thy ===== *)
theory Server_Delivery
  imports Server_Interleaving Session_Delivery
begin

text \<open>
  A server that writes its replies while it handles requests: however far the writing has come,
  requests are handled as if nothing had been written.
\<close>

section \<open>A server but for its reply queues\<close>

definition without_queues :: "ObjectStorage \<Rightarrow> ObjectStorage" where
  "without_queues srv = srv\<lparr>sessions := map (\<lambda>s. offline (with_shared srv s)) (sessions srv)\<rparr>"

lemma without_queues_simps [simp]:
  "srv_users (without_queues srv) = srv_users srv" "srv_filesystem (without_queues srv) = srv_filesystem srv"
  "running (without_queues srv) = running srv" "srv_workers (without_queues srv) = srv_workers srv"
  "length (sessions (without_queues srv)) = length (sessions srv)"
  by (simp_all add: without_queues_def)

lemma without_queues_at:
  "i < length (sessions srv) \<Longrightarrow> sessions (without_queues srv) ! i = offline (session_at srv i)"
  by (simp add: without_queues_def session_at_def)

lemma without_queuesD:
  assumes "without_queues srv = without_queues t"
  shows "srv_users srv = srv_users t" "srv_filesystem srv = srv_filesystem t" "up srv \<longleftrightarrow> up t"
    "length (sessions srv) = length (sessions t)"
    "i < length (sessions srv) \<Longrightarrow> offline (session_at srv i) = offline (session_at t i)"
proof -
  show "srv_users srv = srv_users t" using arg_cong [OF assms, of srv_users] by simp
  show "srv_filesystem srv = srv_filesystem t" using arg_cong [OF assms, of srv_filesystem] by simp
  show "up srv \<longleftrightarrow> up t"
    using arg_cong [OF assms, of running] arg_cong [OF assms, of srv_workers] by (simp add: up_def)
  show len: "length (sessions srv) = length (sessions t)"
    using arg_cong [OF assms, of "\<lambda>x. length (sessions x)"] by simp
  show "offline (session_at srv i) = offline (session_at t i)" if "i < length (sessions srv)"
    using that len without_queues_at [of i srv] without_queues_at [of i t] assms by simp
qed

lemma offline_shared: "offline (with_shared srv s) = with_shared srv (offline s)"
  by (simp add: offline_def with_shared_def)

lemma without_queues_put:
  assumes "without_queues srv = without_queues t" "offline s = offline s'"
  shows "without_queues (put_session i s srv) = without_queues (put_session i s' t)"
proof -
  note d = without_queuesD [OF assms(1)]
  let ?srv = "put_session i s srv" and ?t = "put_session i s' t"
  have fs: "filesystem s = filesystem s'" using arg_cong [OF assms(2), of filesystem] by simp
  have shared: "with_shared ?srv = with_shared ?t"
    using d(1) fs by (intro ext) (simp add: with_shared_def put_session_def)
  have l: "sessions ?srv = (sessions srv)[i := s]" "sessions ?t = (sessions t)[i := s']"
    by (simp_all add: put_session_def)
  have "sessions (without_queues ?srv) = sessions (without_queues ?t)"
  proof (rule nth_equalityI)
    fix j
    assume "j < length (sessions (without_queues ?srv))"
    then have j: "j < length (sessions srv)" "j < length (sessions t)" using d(4) by (simp_all add: put_session_def)
    show "sessions (without_queues ?srv) ! j = sessions (without_queues ?t) ! j"
    proof (cases "j = i")
      case True
      with j assms(2) show ?thesis
        by (simp add: without_queues_def offline_shared shared l)
    next
      case False
      have "with_shared ?t (offline (session_at srv j)) = with_shared ?t (offline (session_at t j))"
        using d(5) [OF j(1)] by simp
      with False j show ?thesis
        by (simp add: without_queues_def offline_shared shared session_at_def l)
    qed
  qed (simp add: d(4) put_session_def)
  moreover have "srv\<lparr>srv_filesystem := m, sessions := M\<rparr> = t\<lparr>srv_filesystem := m, sessions := M\<rparr>" for M m
  proof -
    have eq: "srv\<lparr>sessions := M\<rparr> = t\<lparr>sessions := M\<rparr>"
      using arg_cong [OF assms(1), of "sessions_update (\<lambda>_. M)"] by (simp add: without_queues_def)
    have swap: "x\<lparr>srv_filesystem := m, sessions := M\<rparr> = x\<lparr>sessions := M, srv_filesystem := m\<rparr>" for x :: ObjectStorage
      by simp
    show ?thesis unfolding swap eq ..
  qed
  ultimately show ?thesis using fs by (simp add: without_queues_def put_session_def)
qed

lemma accounts_without_queues:
  assumes "without_queues srv = without_queues t"
  shows "accounts srv = accounts t"
proof (rule nth_equalityI)
  have same: "account_of s = account_of (offline s)" for s
    by (simp add: account_of_def login_of_def offline_def split: option.split)
  fix i
  assume "i < length (accounts srv)"
  then have "i < length (sessions srv)" "i < length (sessions t)" using without_queuesD(4) [OF assms] by simp_all
  then show "accounts srv ! i = accounts t ! i"
    using without_queuesD(5) [OF assms] same by (metis accounts_nth)
qed (simp add: without_queuesD(4) [OF assms])

section \<open>Runs with deliveries\<close>

fun is_delivery :: "server_event \<Rightarrow> bool" where
  "is_delivery (At i e) = is_control_event e"
| "is_delivery _ = False"

fun is_request :: "server_event \<Rightarrow> bool" where
  "is_request (At i e) = is_request_event e"
| "is_request _ = False"

text \<open>No task is run that was not posted, and no write ends that was not started.\<close>

fun deliverable :: "server_event list \<Rightarrow> ObjectStorage \<Rightarrow> bool" where
  "deliverable [] srv = True"
| "deliverable (e # es) srv =
     (case server_react e srv of
        None \<Rightarrow> \<not> is_delivery e
      | Some (Inl x) \<Rightarrow> True
      | Some (Inr srv') \<Rightarrow> deliverable es srv')"

lemma server_react_at:
  "server_react (At i e) srv =
     (if up srv \<and> i < length (sessions srv)
      then map_option (\<lambda>r. and_then r (\<lambda>s. Inr (put_session i s srv))) (react e (session_at srv i)) else None)"
  by (auto simp: up_def session_at_def)

lemma delivering_shared [simp]: "delivering (with_shared srv s) = delivering s"
  by (simp add: delivering_def reply_inv_def with_shared_def)

lemma delivering_step:
  assumes "server_react (At i e) srv = Some (Inr srv')" "list_all delivering (sessions srv)"
  shows "list_all delivering (sessions srv')"
proof -
  obtain s where s: "i < length (sessions srv)" "react e (session_at srv i) = Some (Inr s)" "srv' = put_session i s srv"
    using assms(1) by (auto simp: server_react_at and_then_eq_Inr simp del: server_react.simps split: if_splits)
  have "delivering (session_at srv i)" using assms(2) s(1) by (simp add: list_all_length session_at_def)
  then have "delivering s" using s(2) delivering.preserved by (metis session_step_iff)
  with assms(2) s(1,3) show ?thesis by (simp add: put_session_def list_all_length nth_list_update_if)
qed

lemma delivery_unseen:
  assumes "server_react e srv = Some r" "is_delivery e" "list_all delivering (sessions srv)"
  obtains srv' where "r = Inr srv'" "without_queues srv' = without_queues srv" "list_all delivering (sessions srv')"
proof -
  obtain i f where e: "e = At i f" "is_control_event f" using assms(2) by (cases e) auto
  obtain q where q: "up srv" "i < length (sessions srv)" "react f (session_at srv i) = Some q"
      "r = and_then q (\<lambda>s. Inr (put_session i s srv))"
    using assms(1) e(1) by (auto simp: server_react_at simp del: server_react.simps split: if_splits)
  have "delivering (session_at srv i)" using assms(3) q(2) by (simp add: list_all_length session_at_def)
  from delivery_apart [OF this e(2) q(3)] obtain s where s: "q = Inr s" "offline s = offline (session_at srv i)" .
  have "without_queues (put_session i s srv) = without_queues (put_session i (session_at srv i) srv)"
    by (rule without_queues_put [OF refl s(2)])
  also have "\<dots> = without_queues srv"
  proof -
    have "put_session i (session_at srv i) srv = srv\<lparr>sessions := (sessions srv)[i := session_at srv i]\<rparr>"
      by (simp add: put_session_def session_at_def with_shared_def)
    moreover have "map (\<lambda>s. offline (with_shared srv s)) ((sessions srv)[i := session_at srv i])
        = map (\<lambda>s. offline (with_shared srv s)) (sessions srv)"
      using q(2) by (intro nth_equalityI) (auto simp: nth_list_update_if session_at_def)
    ultimately show ?thesis by (simp add: without_queues_def with_shared_def)
  qed
  finally show thesis
    using that q(4) s(1) delivering_step [of i f srv] assms(1,3) e(1) by simp
qed

lemma request_unaware:
  assumes "without_queues srv = without_queues t" "is_request e" "server_react e t = Some (Inr t')"
  obtains srv' where "server_react e srv = Some (Inr srv')" "without_queues srv' = without_queues t'"
proof -
  obtain i f where e: "e = At i f" "is_request_event f" using assms(2) by (cases e) auto
  obtain s where s: "up t" "i < length (sessions t)" "react f (session_at t i) = Some (Inr s)" "t' = put_session i s t"
    using assms(3) e(1) by (auto simp: server_react_at and_then_eq_Inr simp del: server_react.simps split: if_splits)
  note d = without_queuesD [OF assms(1)]
  have "offline (session_at t i) = offline (session_at srv i)" using d(5) [of i] d(4) s(2) by simp
  from request_apart_same [OF e(2) this s(3)] obtain u where
    u: "react f (session_at srv i) = Some (Inr u)" "offline u = offline s" .
  then have "server_react e srv = Some (Inr (put_session i u srv))"
    using e(1) s(1,2) d(3,4) by (simp add: server_react_at del: server_react.simps)
  moreover have "without_queues (put_session i u srv) = without_queues t'"
    unfolding s(4) by (rule without_queues_put [OF assms(1) u(2)])
  ultimately show thesis using that by blast
qed

lemma deliveries_between:
  assumes "list_all (\<lambda>e. is_request e \<or> is_delivery e) es" "deliverable es srv"
    and "list_all delivering (sessions srv)" "without_queues srv = without_queues t"
    and "server_run (filter is_request es) t = Some (Inr t')"
  shows "\<exists>srv'. server_run es srv = Some (Inr srv') \<and> without_queues srv' = without_queues t'"
  using assms
proof (induction es arbitrary: srv t)
  case (Cons e es)
  show ?case
  proof (cases "is_request e")
    case True
    then obtain t1 where t1: "server_react e t = Some (Inr t1)" "server_run (filter is_request es) t1 = Some (Inr t')"
      using Cons.prems(5) by (auto split: option.splits sum.splits if_splits)
    from request_unaware [OF Cons.prems(4) True t1(1)] obtain srv1 where
      srv1: "server_react e srv = Some (Inr srv1)" "without_queues srv1 = without_queues t1" .
    obtain i f where "e = At i f" using True by (cases e) auto
    with srv1(1) Cons.prems(3) have "list_all delivering (sessions srv1)" using delivering_step by blast
    with Cons.IH [of srv1 t1] Cons.prems(1,2) srv1 t1(2) show ?thesis by simp
  next
    case False
    then have d: "is_delivery e" using Cons.prems(1) by simp
    then obtain r where r: "server_react e srv = Some r"
      using Cons.prems(2) by (cases "server_react e srv") auto
    from delivery_unseen [OF r d Cons.prems(3)] obtain srv1 where
      srv1: "r = Inr srv1" "without_queues srv1 = without_queues srv" "list_all delivering (sessions srv1)" .
    with Cons.IH [of srv1 t] Cons.prems r False show ?thesis by simp
  qed
qed simp

end
