(* ===== verification/Overlapping_Requests.thy ===== *)
theory Overlapping_Requests
  imports Server_Delivery
begin

text \<open>
  Clients that send requests at the same time: the server serves them as if it had served one
  request after the other, in an order that keeps the order of every client and respects time.
  The requests are those of HTTP and the FTP commands that move no data.
\<close>

section \<open>Requests\<close>

text \<open>All but LIST, RETR and STOR.\<close>

fun quick :: "request \<Rightarrow> bool" where
  "quick (Web r) = True"
| "quick (Line c) = (kCommandMap (toUpperCase (hd (cmd_words c))) \<notin> {Some FtpCommand.List, Some Retr, Some Stor})"

fun quick_events :: "acceptor_env \<Rightarrow> request \<Rightarrow> event list" where
  "quick_events env (Web r) = request_events env r"
| "quick_events env (Line c) = map Arrive (cmd_pieces c) @ [MessageReceived (cmd_env c)]"

lemma quick_moves_nothing:
  assumes "command_answer env listing c args a = (reply, a1, t)"
    and "c \<notin> {Some FtpCommand.List, Some Retr, Some Stor}"
  shows "t = No_Transfer"
  using assms
  by (auto simp: command_answer_def known_command_def user_command_def pass_command_def Let_def
      split: option.splits FtpCommand.splits login.splits if_splits acceptor.splits list.splits)

lemma quick_line_served:
  assumes "ftp_idle s" "sound_command c" "quick (Line c)"
  shows "\<exists>s' as. run_events (quick_events env (Line c)) s = Some (Inr s') \<and> ftp_idle s' \<and> same_client s s'
    \<and> sent_log s' = sent_log s @ map ftp_serialise as \<and> ftp_service c (account_of s) as (account_of s')"
proof -
  obtain reply a t where c: "command_answer (cmd_env c) (directory_listing (filesystem s))
      (kCommandMap (toUpperCase (hd (cmd_words c)))) (tl (cmd_words c)) (account_of s) = (reply, a, t)"
    by (metis prod_cases3)
  obtain s1 where s1: "run_events (map Arrive (cmd_pieces c) @ [MessageReceived (cmd_env c)]) s = Some (Inr s1)"
      "sent_log s1 = sent_log s @ [ftp_serialise reply]" "account_of s1 = a" "ftp_idle s1" "same_client s s1"
    using command_replied [OF assms(1,2) c] by metis
  have "t = No_Transfer" using quick_moves_nothing [OF c] assms(3) by simp
  then have "transfer_answer (cmd_abort c) (concat (cmd_chunks c) @ cmd_last c) t a = ([], account_of s1)"
    using s1(3) by (simp add: transfer_answer_def)
  moreover have "is_listing (acc_files (account_of s)) (directory_listing (filesystem s))"
    using assms(1) directory_listing_lists by (simp add: ftp_idle_def calm_def ready_def)
  ultimately have "ftp_service c (account_of s) [reply] (account_of s1)"
    using ftp_service.served [OF _ c] by blast
  with s1 show ?thesis by (intro exI [of _ s1] exI [of _ "[reply]"]) simp
qed

lemma quick_served:
  assumes "ftp_idle s" "mixed_sound s q" "quick q"
  shows "\<exists>s' as. run_events (quick_events env q) s = Some (Inr s') \<and> ftp_idle s' \<and> same_client s s'
    \<and> sent_log s' = sent_log s @ map serialise as \<and> mixed_service q (account_of s) as (account_of s')"
proof (cases q)
  case (Web r)
  with assms obtain s' as where "run_events (request_events env r) s = Some (Inr s')" "ftp_idle s'"
      "same_client s s'" "sent_log s' = sent_log s @ map http_serialise as"
      "mixed_service (Web r) (account_of s) (map Inr as) (account_of s')"
    using web_answered [of s r env] by auto
  with Web show ?thesis by (intro exI [of _ s'] exI [of _ "map Inr as"]) simp
next
  case (Line c)
  with assms obtain s' as where "run_events (quick_events env (Line c)) s = Some (Inr s')" "ftp_idle s'"
      "same_client s s'" "sent_log s' = sent_log s @ map ftp_serialise as"
      "ftp_service c (account_of s) as (account_of s')"
    using quick_line_served [of s c env] by auto
  with Line show ?thesis
    by (intro exI [of _ s'] exI [of _ "map Inl as"]) (simp add: mixed_service.line)
qed

section \<open>The event in which a request uses the files\<close>

text \<open>Of a PUT it is the end of its body, of all others the message itself.\<close>

fun using_event :: "acceptor_env \<Rightarrow> request \<Rightarrow> event" where
  "using_event env (Web r) =
     (if req_method r = ''PUT'' then BodyRead (length (req_body r), req_uri r) else MessageReceived env)"
| "using_event env (Line c) = MessageReceived (cmd_env c)"

definition request_marks :: "acceptor_env \<Rightarrow> request \<Rightarrow> (event \<times> bool) list" where
  "request_marks env q = map (\<lambda>e. (e, e = using_event env q)) (quick_events env q)"

lemma map_fst_request_marks [simp]: "map fst (request_marks env q) = quick_events env q"
  by (simp add: request_marks_def comp_def)

lemma request_used_once: "filter snd (request_marks env q) = [(using_event env q, True)]"
  by (cases q) (auto simp: request_marks_def request_events_def filter_map comp_def filter_empty_conv)

lemma head_uses_files:
  assumes "pending s = head_of r @ rest" "sound_head s r" "kMethodMap (req_method r) = Some meth"
  shows "message_uses_files s \<longleftrightarrow> meth \<in> {Get, Delete}"
proof -
  let ?l = "request_line (req_method r) (req_uri r) (req_version r)"
  have r: "plain_request (req_method r) (req_uri r) (req_version r) (req_headers r)"
    using assms(2) by (simp add: sound_head_def)
  then have f: "no_cr ?l" "occurs ''HTTP'' ?l" "map header_text (req_headers r) \<noteq> []"
      "\<forall>l \<in> set (map header_text (req_headers r)). no_cr l \<and> l \<noteq> []"
    using request_line_no_cr [of "req_method r" "req_uri r" "req_version r"] request_line_http [of "req_version r"]
    by (auto simp: plain_request_def list_all_iff plain_header_def header_text_def)
  have h: "head_of r = raw_head ?l (map header_text (req_headers r))"
    by (simp add: head_of_def raw_head_def request_head_def)
  obtain p where "parse_http (head_of r) = Inr p" "http_method p = meth"
    using plain_request_parses [OF r assms(3)] by (metis head_of_def parses_to_def)
  then have "method_uses_files (head_of r) \<longleftrightarrow> meth \<in> {Get, Delete}" by (simp add: method_uses_files_def)
  moreover obtain n buf rx k buf2 rx2 where
    "read_until crlf (input_stream s) (socket_rx s) = Some (n, buf, rx)" "detectProtocol (take n buf) = Inr Http"
    "read_until (crlf @ crlf) (drop n buf) rx = Some (k, buf2, rx2)" "take n buf @ take k buf2 = head_of r"
    using lines_read [OF assms(1) [unfolded h] f] h by metis
  ultimately show ?thesis by (simp add: message_uses_files_def)
qed

text \<open>The marks cover a run if every event in it that uses the files has one.\<close>

fun covers :: "(event \<times> bool) list \<Rightarrow> session \<Rightarrow> bool" where
  "covers [] s = True"
| "covers (l # ls) s =
     ((uses_files (fst l) s \<longrightarrow> snd l)
      \<and> (case react (fst l) s of Some (Inr s') \<Rightarrow> covers ls s' | _ \<Rightarrow> True))"

lemma covers_append:
  "run_events (map fst ls) s = Some (Inr s') \<Longrightarrow> covers (ls @ ms) s \<longleftrightarrow> covers ls s \<and> covers ms s'"
  by (induction ls arbitrary: s) (auto split: option.splits sum.splits if_splits)

fun arrives :: "event \<Rightarrow> bool" where
  "arrives (Arrive x) = True"
| "arrives _ = False"

lemma covers_arrivals: "list_all (\<lambda>l. arrives (fst l) \<or> snd l) ls \<Longrightarrow> covers ls s"
proof (induction ls arbitrary: s)
  case (Cons l ls)
  have "uses_files (fst l) s \<longrightarrow> snd l" for s using Cons.prems by (cases "fst l") auto
  with Cons show ?case by (auto split: option.split sum.split)
qed simp

lemma request_covered:
  assumes "ftp_idle s" "mixed_sound s q"
  shows "covers (request_marks env q) s"
proof (cases "\<exists>r. q = Web r \<and> req_method r = ''PUT''")
  case False
  then have "list_all (\<lambda>l. arrives (fst l) \<or> snd l) (request_marks env q)"
    by (cases q) (auto simp: list_all_iff request_marks_def request_events_def)
  then show ?thesis by (rule covers_arrivals)
next
  case True
  then obtain r where r: "q = Web r" "req_method r = ''PUT''" by blast
  have s: "http_idle s" "sound_request s r"
    using assms r by (simp_all add: ftp_idle_def calm_def http_idle_def)
  let ?s1 = "s\<lparr>socket_rx := socket_rx s @ head_pieces r\<rparr>"
  let ?mark = "\<lambda>e. (e, e = using_event env q)"
  have marks: "request_marks env q = map ?mark (map Arrive (head_pieces r)) @ ?mark (MessageReceived env)
      # map ?mark (map Arrive (body_pieces r) @ [BodyRead (length (req_body r), req_uri r)])"
    using r by (simp add: request_marks_def request_events_def)
  have head: "run_events (map fst (map ?mark (map Arrive (head_pieces r)))) s = Some (Inr ?s1)"
    using request_arrives(1) [OF s, of "[]"] by (simp add: comp_def)
  have "sound_head ?s1 r"
    using s(2) request_arrives(7) [OF s] by (simp add: sound_request_def sound_head_def)
  then have "\<not> message_uses_files ?s1"
    using head_uses_files [of ?s1 r "[]" Put] request_arrives(3) [OF s] r(2) by (simp add: kMethodMap_def)
  moreover have "covers (map ?mark (map Arrive (body_pieces r) @ [BodyRead (length (req_body r), req_uri r)])) s2" for s2
    by (rule covers_arrivals) (use r in \<open>auto simp: list_all_iff\<close>)
  moreover have "covers (map ?mark (map Arrive (head_pieces r))) s"
    by (rule covers_arrivals) (auto simp: list_all_iff)
  ultimately show ?thesis
    unfolding marks covers_append [OF head] by (auto split: option.split sum.split)
qed

section \<open>One request after the other\<close>

definition client_label :: "nat \<Rightarrow> event \<times> bool \<Rightarrow> server_event \<times> bool" where
  "client_label i l = (At i (fst l), snd l)"

lemma run_labels_session:
  assumes "up srv" "i < length (sessions srv)" "ls \<noteq> []" "covers ls (session_at srv i)"
    and "run_events (map fst ls) (session_at srv i) = Some (Inr s')"
  shows "run_labels client_step (map (client_label i) ls @ ms) srv = run_labels client_step ms (put_session i s' srv)"
  using assms
proof (induction ls arbitrary: srv)
  case (Cons l ls)
  then obtain s1 where s1: "react (fst l) (session_at srv i) = Some (Inr s1)" "run_events (map fst ls) s1 = Some (Inr s')"
    by (auto split: option.splits sum.splits if_splits)
  let ?srv = "put_session i s1 srv"
  have "client_step (client_label i l) srv = Some ?srv"
    using Cons.prems s1(1) by (simp add: client_step_iff client_label_def)
  then have run: "run_labels client_step (map (client_label i) (l # ls) @ ms) srv
      = run_labels client_step (map (client_label i) ls @ ms) ?srv" by simp
  show ?case
  proof (cases "ls = []")
    case True
    with run s1(2) show ?thesis by simp
  next
    case False
    have "user_database s1 = srv_users srv"
      using s1(1) step_users [of "session_at srv i" "fst l" s1]
      by (simp add: session_step_iff session_at_def with_shared_def)
    then have "session_at ?srv i = s1" using Cons.prems(2) by (intro session_at_own)
    moreover have "up ?srv" "i < length (sessions ?srv)"
      using Cons.prems(1,2) by (simp_all add: up_def put_session_def)
    ultimately show ?thesis using Cons.IH [of ?srv] Cons.prems(4) False run s1 by (simp add: put_session_twice)
  qed
qed simp

definition turn_marks :: "acceptor_env \<Rightarrow> nat \<Rightarrow> request \<Rightarrow> (server_event \<times> bool) list" where
  "turn_marks env i q = map (client_label i) (request_marks env q)"

lemma quick_turn:
  assumes "all_idle srv" "sound_turn srv (i, q)" "quick q"
  shows "\<exists>srv' ms. (\<forall>ls. run_labels client_step (turn_marks env i q @ ls) srv = run_labels client_step ls srv')
    \<and> turn_done (i, q) srv ms srv'"
proof -
  have i: "i < length (sessions srv)" "mixed_sound (session_at srv i) q" "ftp_idle (session_at srv i)" "up srv"
    using assms by (auto simp: sound_turn_def all_idle_def)
  obtain s' as where s': "run_events (quick_events env q) (session_at srv i) = Some (Inr s')" "ftp_idle s'"
      "same_client (session_at srv i) s'" "sent_log s' = sent_log (session_at srv i) @ map serialise as"
      "mixed_service q (account_of (session_at srv i)) as (account_of s')"
    using quick_served [OF i(3,2) assms(3), of env] by blast
  have "request_marks env q \<noteq> []" using request_used_once [of env q] by auto
  then have "run_labels client_step (turn_marks env i q @ ls) srv = run_labels client_step ls (put_session i s' srv)" for ls
    unfolding turn_marks_def
    using run_labels_session [OF i(4,1) _ request_covered [OF i(3,2)]] s'(1) by simp
  with turn_put [OF assms(1) i(1) s'(2-5)] show ?thesis by blast
qed

lemma quick_turns:
  assumes "all_idle srv" "list_all (sound_turn srv) qs" "list_all (\<lambda>q. quick (snd q)) qs"
  shows "\<exists>srv' ms. run_labels client_step (concat (map (\<lambda>(i, q). turn_marks env i q) qs)) srv = Some srv'
    \<and> turns_done qs srv ms srv'"
  using assms
proof (induction qs arbitrary: srv)
  case Nil
  show ?case by (rule exI [of _ srv], rule exI [of _ "[]"]) (simp add: turns_done_Nil)
next
  case (Cons p qs)
  obtain i q where p: "p = (i, q)" by (cases p)
  obtain srv1 ms where t: "run_labels client_step (turn_marks env i q @ ls) srv = run_labels client_step ls srv1"
      "turn_done (i, q) srv ms srv1" for ls
    using quick_turn [OF Cons.prems(1), of i q env] Cons.prems(2,3) p by auto
  have "all_idle srv1" using t(2) by (simp add: turn_done_def)
  moreover have "list_all (sound_turn srv1) qs" using sound_turns_kept [OF t(2)] Cons.prems(2) by simp
  ultimately obtain srv2 ns where
    u: "run_labels client_step (concat (map (\<lambda>(i, q). turn_marks env i q) qs)) srv1 = Some srv2" "turns_done qs srv1 ns srv2"
    using Cons.IH [of srv1] Cons.prems(3) by auto
  with turns_done_Cons [OF t(2) u(2)] t(1) p show ?case
    by (intro exI [of _ srv2] exI [of _ "ms @ ns"]) simp
qed

text \<open>The marks of a run are there at most where the labels have them.\<close>

lemma marks_below:
  "run_labels client_step ls srv = Some srv' \<Longrightarrow>
     list_all2 (\<lambda>m l. fst m = fst l \<and> (snd m \<longrightarrow> snd l)) (mark_events (map fst ls) srv) ls"
  by (induction ls arbitrary: srv) (auto simp: client_step_def split: option.splits sum.splits if_splits)

section \<open>All of them together\<close>

text \<open>
  \<open>rss\<close> holds the requests of every client. The clients may overlap: of \<open>es\<close> we only know that
  the events of each client are those of its requests, in their order.
\<close>

definition requests_overlap :: "acceptor_env \<Rightarrow> request list list \<Rightarrow> server_event list \<Rightarrow> bool" where
  "requests_overlap env rss es \<longleftrightarrow>
     list_all (\<lambda>e. client_event e \<and> client_of e < length rss) es
     \<and> list_all (\<lambda>i. filter (\<lambda>e. client_of e = i) es = map (At i) (concat (map (quick_events env) (rss ! i))))
         [0..<length rss]"

definition requests_of :: "nat \<Rightarrow> (nat \<times> request) list \<Rightarrow> request list" where
  "requests_of i qs = map snd (filter (\<lambda>q. fst q = i) qs)"

text \<open>
  The order \<open>qs\<close> of the requests respects time: whenever the run is cut, some first requests of
  \<open>qs\<close> have been served, those of each client among them have begun and no other has ended.
\<close>

definition respects_time :: "acceptor_env \<Rightarrow> request list list \<Rightarrow> server_event list \<Rightarrow> (nat \<times> request) list \<Rightarrow> bool" where
  "respects_time env rss es qs \<longleftrightarrow>
     list_all (\<lambda>n. list_ex (\<lambda>k. list_all (\<lambda>i.
         in_time (quick_events env) (rss ! i) (length (requests_of i (take k qs)))
           (length (filter (\<lambda>e. client_of e = i) (take n es))))
       [0..<length rss]) [0..<Suc (length qs)]) [0..<Suc (length es)]"

lemma respects_timeD:
  assumes "respects_time env rss es qs" "n \<le> length es"
  shows "list_ex (\<lambda>k. list_all (\<lambda>i.
         in_time (quick_events env) (rss ! i) (length (requests_of i (take k qs)))
           (length (filter (\<lambda>e. client_of e = i) (take n es))))
       [0..<length rss]) [0..<Suc (length qs)]"
  using assms unfolding respects_time_def list_all_iff by (auto simp del: upt_Suc)

lemma served_in_time:
  assumes qs: "interleaves (\<lambda>l. client_of (fst l)) snd (concat (map (\<lambda>(i, r). turn_marks env i r) qs)) ls"
    and once: "\<And>i r. filter snd (turn_marks env i r) = [client_label i (using_event env r, True)]"
    and own: "\<And>i. i < length rss \<Longrightarrow>
      filter (\<lambda>l. client_of (fst l) = i) ls = concat (map (turn_marks env i) (rss ! i))"
  shows "respects_time env rss (map fst ls) qs"
proof -
  let ?mark = "\<lambda>(i, r). client_label i (using_event env r, True)"
  have "map (filter snd \<circ> (\<lambda>(i, r). turn_marks env i r)) qs = map (\<lambda>q. [?mark q]) qs"
    by (simp add: once case_prod_unfold)
  then have "filter snd (concat (map (\<lambda>(i, r). turn_marks env i r) qs)) = concat (map (\<lambda>q. [?mark q]) qs)"
    by (simp only: filter_concat map_map)
  then have marks: "filter snd ls = map ?mark qs" using qs by (simp add: interleaves_iff)
  have "\<exists>k \<le> length qs. \<forall>i < length rss.
      in_time (quick_events env) (rss ! i) (length (requests_of i (take k qs)))
        (length (filter (\<lambda>e. client_of e = i) (take n (map fst ls))))" for n
  proof (intro exI conjI allI impI)
    let ?k = "length (filter snd (take n ls))"
    show "?k \<le> length qs"
      by (metis marks filter_take length_map length_take min.cobounded1)
    fix i
    assume i: "i < length rss"
    let ?own = "filter (\<lambda>l. client_of (fst l) = i)"
    have "length (requests_of i (take ?k qs)) = length (?own (take ?k (map ?mark qs)))"
      by (simp add: requests_of_def take_map filter_map comp_def client_label_def case_prod_unfold)
    also have "\<dots> = length (?own (filter snd (take n ls)))"
      using filter_take [of snd n ls] marks by simp
    also have "\<dots> = length (filter snd (?own (take n ls)))" by (simp add: conj_commute)
    also have "?own (take n ls) = take (length (?own (take n ls))) (concat (map (turn_marks env i) (rss ! i)))"
      using filter_take [of "\<lambda>l. client_of (fst l) = i" n ls] own [OF i] by simp
    finally have "in_time (turn_marks env i) (rss ! i) (length (requests_of i (take ?k qs))) (length (?own (take n ls)))"
      using turns_in_time [of "rss ! i" snd "turn_marks env i"] once by simp
    then show "in_time (quick_events env) (rss ! i) (length (requests_of i (take ?k qs)))
        (length (filter (\<lambda>e. client_of e = i) (take n (map fst ls))))"
      by (simp add: take_map filter_map comp_def turn_marks_def request_marks_def
          in_time_length [of "turn_marks env i" "quick_events env"])
  qed
  then show ?thesis unfolding respects_time_def list_all_iff list_ex_iff
    by (metis atLeastLessThan_upt atLeastLessThan_iff le0 less_Suc_eq_le)
qed

text \<open>\<open>qs\<close> is an order of all requests, with those of each client in the order it sent them.\<close>

definition order_of :: "request list list \<Rightarrow> (nat \<times> request) list \<Rightarrow> bool" where
  "order_of rss qs \<longleftrightarrow>
     list_all (\<lambda>q. fst q < length rss) qs \<and> map (\<lambda>i. requests_of i qs) [0..<length rss] = rss"

lemma client_labels:
  "map fst (concat (map (turn_marks env i) rs)) = map (At i) (concat (map (quick_events env) rs))"
proof (induction rs)
  case (Cons r rs)
  have "map fst (turn_marks env i r) = map (At i) (map fst (request_marks env r))"
    by (simp add: turn_marks_def client_label_def comp_def del: map_fst_request_marks)
  with Cons show ?case by simp
qed simp


lemma requests_serialised:
  assumes "length rss = length (sessions srv)"
    and sound: "\<And>i q. i < length rss \<Longrightarrow> q \<in> set (rss ! i) \<Longrightarrow> mixed_sound (session_at srv i) q \<and> quick q"
    and es: "requests_overlap env rss es"
  obtains qs ls where "order_of rss qs" "list_all (sound_turn srv) qs" "list_all (\<lambda>q. quick (snd q)) qs"
    "respects_time env rss es qs" "map fst ls = es"
    "interleaves (\<lambda>l. client_of (fst l)) snd (concat (map (\<lambda>(i, q). turn_marks env i q) qs)) ls"
proof -
  define queue where "queue i = (if i < length rss then rss ! i else [])" for i
  have "filter (\<lambda>e. client_of e = i) es = map fst (concat (map (turn_marks env i) (queue i)))" for i
  proof (cases "i < length rss")
    case True
    then show ?thesis using es by (simp add: queue_def client_labels requests_overlap_def list_all_iff)
  next
    case False
    then have "filter (\<lambda>e. client_of e = i) es = []"
      using es by (auto simp: filter_empty_conv requests_overlap_def list_all_iff)
    with False show ?thesis by (simp add: queue_def)
  qed
  from label_steps [of client_of es, OF this] obtain ls where ls: "map fst ls = es"
      "\<And>i. filter (\<lambda>l. client_of (fst l) = i) ls = concat (map (turn_marks env i) (queue i))" by blast
  have own: "client_of (fst l) = i" if "l \<in> set (turn_marks env i q)" for i q l
    using that by (auto simp: turn_marks_def client_label_def)
  have once: "filter snd (turn_marks env i q) = [client_label i (using_event env q, True)]" for i q
    using request_used_once [of env q] by (simp add: turn_marks_def filter_map comp_def client_label_def)
  have "\<exists>qs. (\<forall>i. map snd (filter (\<lambda>q. fst q = i) qs) = queue i)
      \<and> interleaves (\<lambda>l. client_of (fst l)) snd (concat (map (\<lambda>(i, q). turn_marks env i q) qs)) ls"
    by (rule overlapping_turns) (rule ls(2), erule own, rule once)
  then obtain qs where
    q: "\<And>i. map snd (filter (\<lambda>q. fst q = i) qs) = queue i" and
    i: "interleaves (\<lambda>l. client_of (fst l)) snd (concat (map (\<lambda>(i, q). turn_marks env i q) qs)) ls"
    by blast
  have each: "fst p < length rss \<and> snd p \<in> set (rss ! fst p)" if "p \<in> set qs" for p
  proof -
    have "snd p \<in> set (map snd (filter (\<lambda>q. fst q = fst p) qs))" using that by auto
    then have "snd p \<in> set (queue (fst p))" by (simp only: q)
    then show ?thesis by (auto simp: queue_def split: if_splits)
  qed
  have "map (\<lambda>i. requests_of i qs) [0..<length rss] = rss"
    by (rule nth_equalityI) (simp_all add: requests_of_def q queue_def)
  then have "order_of rss qs" using each by (simp add: order_of_def list_all_iff)
  moreover have "list_all (sound_turn srv) qs" "list_all (\<lambda>q. quick (snd q)) qs"
    using each sound assms(1) by (auto simp: list_all_iff sound_turn_def)
  moreover have "respects_time env rss es qs"
    using served_in_time [OF i once, of rss] ls by (simp add: queue_def)
  ultimately show thesis using i ls(1) by (intro that)
qed

lemma service_run_accounts: "service_run clients_service qs accs ms accs' \<Longrightarrow> length accs' = length accs"
  by (induction rule: service_run.induct) (auto simp: clients_service.simps)

lemma turns_done_seen:
  assumes "turns_done qs srv ms srv1" "as_seen srv' = as_seen srv1"
  shows "turns_done qs srv ms srv'"
proof -
  have "accounts srv' = accounts srv1" by (metis accounts_seen assms(2))
  moreover have "session_at srv' j = session_at srv1 j" if "j < length (sessions srv)" for j
    using that assms session_at_seen service_run_accounts length_accounts as_seen_simps(5)
    by (metis turns_done_def)
  ultimately show ?thesis using assms(1) by (simp add: turns_done_def)
qed

lemma requests_served:
  assumes "all_idle srv" "length rss = length (sessions srv)"
    and "\<And>i q. i < length rss \<Longrightarrow> q \<in> set (rss ! i) \<Longrightarrow> mixed_sound (session_at srv i) q \<and> quick q"
    and "requests_overlap env rss es"
  shows "\<exists>qs srv' ms. server_run es srv = Some (Inr srv') \<and> order_of rss qs \<and> respects_time env rss es qs
    \<and> turns_done qs srv ms srv'"
proof -
  from requests_serialised [OF assms(2-4)] obtain qs ls where
    qs: "order_of rss qs" "list_all (sound_turn srv) qs" "list_all (\<lambda>q. quick (snd q)) qs" "respects_time env rss es qs" and
    ls: "map fst ls = es"
      "interleaves (\<lambda>l. client_of (fst l)) snd (concat (map (\<lambda>(i, q). turn_marks env i q) qs)) ls" .
  from quick_turns [OF assms(1) qs(2,3), of env] obtain srv1 ms where
    s: "run_labels client_step (concat (map (\<lambda>(i, q). turn_marks env i q) qs)) srv = Some srv1" "turns_done qs srv ms srv1"
    by blast
  from clients.interleaved_run [OF s(1) ls(2)] obtain srv' where
    srv': "run_labels client_step ls srv = Some srv'" "as_seen srv' = as_seen srv1" by metis
  have "server_run es srv = Some (Inr srv')" using run_unmarked [OF srv'(1)] ls(1) by simp
  with qs turns_done_seen [OF s(2) srv'(2)] show ?thesis by blast
qed

section \<open>Properties\<close>

text \<open>
  C3. A run of a server may be interleaved anew: as long as the events of each client keep their
  order, and so do the events that read or change the files, the run is possible as well and
  leads to the same server, with the same files and the same sessions.
\<close>

theorem interleavings_agree:
  assumes "server_run es srv = Some (Inr srv')" "list_all client_event es"
    and "interleaves (\<lambda>l. client_of (fst l)) snd (mark_events es srv) ls"
  shows "\<exists>srv''. server_run (map fst ls) srv = Some (Inr srv'') \<and> as_seen srv'' = as_seen srv'"
  using assms by (rule interleaved_clients)

text \<open>An upload of client 0 and then a request of client 1; the request may as well come in between.\<close>

definition sample_serial :: "server_event list" where
  "sample_serial =
     [At 0 (Arrive (hd (head_pieces sample_put))), At 0 (MessageReceived sample_env), At 0 (Arrive ''he''),
      At 0 (Arrive ''llo''), At 0 (BodyRead (5, ''/a'')),
      At 1 (Arrive (hd (head_pieces sample_get))), At 1 (MessageReceived sample_env)]"

definition sample_mixed :: "server_event list" where
  "sample_mixed =
     [At 1 (Arrive (hd (head_pieces sample_get))), At 0 (Arrive (hd (head_pieces sample_put))),
      At 0 (MessageReceived sample_env), At 0 (Arrive ''he''), At 0 (Arrive ''llo''),
      At 0 (BodyRead (5, ''/a'')), At 1 (MessageReceived sample_env)]"

lemma sample_request_events:
  "request_events sample_env sample_put = [Arrive (hd (head_pieces sample_put)), MessageReceived sample_env,
     Arrive ''he'', Arrive ''llo'', BodyRead (5, ''/a'')]"
  "request_events sample_env sample_get = [Arrive (hd (head_pieces sample_get)), MessageReceived sample_env]"
  by (simp_all add: request_events_def sample_put_def sample_get_def req_body_def)

lemma two_clients_idle: "all_idle two_clients"
  using ftp_idle_start by (simp add: all_idle_def two_clients_simps less_Suc_eq numeral_2_eq_2)

lemma sample_serial_sound: "list_all (sound_turn two_clients) [(0, Web sample_put), (1, Web sample_get)]"
  using sample_sound(3) by (simp add: sound_turn_def two_clients_simps)

definition sample_serial_marks :: "bool \<Rightarrow> bool \<Rightarrow> (server_event \<times> bool) list" where
  "sample_serial_marks b c = zip sample_serial [False, False, False, False, b, False, c]"

definition sample_mixed_marks :: "bool \<Rightarrow> bool \<Rightarrow> (server_event \<times> bool) list" where
  "sample_mixed_marks b c = zip sample_mixed [False, False, False, False, False, b, c]"

lemma map_fst_sample_marks [simp]:
  "map fst (sample_serial_marks b c) = sample_serial" "map fst (sample_mixed_marks b c) = sample_mixed"
  by (simp_all add: sample_serial_marks_def sample_mixed_marks_def sample_serial_def sample_mixed_def)

lemma sample_marks_interleave:
  "interleaves (\<lambda>l. client_of (fst l)) snd (sample_serial_marks b c) (sample_mixed_marks b c)"
  by (simp add: interleaves_def sample_serial_marks_def sample_mixed_marks_def sample_serial_def sample_mixed_def)

lemma sample_turn_marks:
  "concat (map (\<lambda>(i, q). turn_marks sample_env i q) [(0, Web sample_put), (1, Web sample_get)])
     = sample_serial_marks True True"
  by (simp add: turn_marks_def client_label_def request_marks_def sample_request_events sample_serial_def
      sample_serial_marks_def)
    (simp add: sample_put_def sample_get_def req_body_def)

lemma marks_below_sample:
  assumes "list_all2 (\<lambda>m l. fst m = fst l \<and> (snd m \<longrightarrow> snd l)) ms (sample_serial_marks True True)"
  shows "\<exists>b c. ms = sample_serial_marks b c"
  using assms by (auto simp: sample_serial_marks_def sample_serial_def list_all2_Cons2)

lemma interleavings_agree_witness:
  "\<exists>srv' srv''. server_run sample_serial two_clients = Some (Inr srv')
    \<and> server_run sample_mixed two_clients = Some (Inr srv'') \<and> as_seen srv'' = as_seen srv'"
proof -
  obtain srv' where r: "run_labels client_step (sample_serial_marks True True) two_clients = Some srv'"
    using quick_turns [OF two_clients_idle sample_serial_sound, of sample_env] unfolding sample_turn_marks by auto
  have run: "server_run sample_serial two_clients = Some (Inr srv')" using run_unmarked [OF r] by simp
  obtain b c where marks: "mark_events sample_serial two_clients = sample_serial_marks b c"
    using marks_below_sample [OF marks_below [OF r]] by auto
  have "list_all client_event sample_serial" by (simp add: sample_serial_def)
  from interleavings_agree [OF run this sample_marks_interleave [of b c, folded marks]] run
  show ?thesis by auto
qed

text \<open>
  C2. Clients that send HTTP requests and FTP commands (all but those that move data) at the same
  time are served as if one request had been served after the other: however the bytes and the
  steps of their requests overlap, and however far the server has come in writing its replies
  meanwhile, it handles all requests, and there is an order of them in which the specification
  gives the same answers to each client, the same files and the same logins and directories. The
  order is one in which each client sent its requests, and it respects time: a request that has
  been served before another begins comes before it. The body of a PUT comes, here too,
  after its head has been read.
\<close>

theorem overlapping_requests_served:
  assumes "all_idle srv" "list_all delivering (sessions srv)"
    and "list_all2 (\<lambda>i rs. list_all (\<lambda>q. mixed_sound (session_at srv i) q \<and> quick q) rs) [0..<length (sessions srv)] rss"
    and "list_all (\<lambda>e. is_request e \<or> is_delivery e) es" "deliverable es srv"
    and "requests_overlap env rss (filter is_request es)"
  shows "\<exists>qs srv' ms. server_run es srv = Some (Inr srv') \<and> order_of rss qs
    \<and> respects_time env rss (filter is_request es) qs
    \<and> service_run clients_service qs (accounts srv) ms (accounts srv')
    \<and> map (\<lambda>j. sent_log (session_at srv' j)) [0..<length rss]
      = map (\<lambda>j. sent_log (session_at srv j) @ map serialise (answers_to j ms)) [0..<length rss]"
proof -
  have len: "length rss = length (sessions srv)" using list_all2_lengthD [OF assms(3)] by simp
  have "mixed_sound (session_at srv i) q \<and> quick q" if "i < length rss" "q \<in> set (rss ! i)" for i q
    using list_all2_nthD2 [OF assms(3) that(1)] that len by (simp add: list_all_iff)
  from requests_served [OF assms(1) len this assms(6)] obtain qs srv1 ms where
    s: "server_run (filter is_request es) srv = Some (Inr srv1)" "order_of rss qs"
      "respects_time env rss (filter is_request es) qs" "turns_done qs srv ms srv1"
    by blast
  obtain srv' where srv': "server_run es srv = Some (Inr srv')" "without_queues srv' = without_queues srv1"
    using deliveries_between [OF assms(4,5,2) refl s(1)] by blast
  have "length (accounts srv1) = length (accounts srv)"
    using s(4) service_run_accounts [of qs "accounts srv" ms "accounts srv1"] by (simp add: turns_done_def)
  then have "sent_log (session_at srv' j) = sent_log (session_at srv1 j)" if "j < length rss" for j
    using that len without_queuesD(4,5) [OF srv'(2)] by (metis length_accounts offline_simps(12))
  then show ?thesis using srv' s accounts_without_queues [OF srv'(2)] len
    by (intro exI [of _ qs] exI [of _ srv'] exI [of _ ms]) (simp add: turns_done_def)
qed

text \<open>
  Client 0, which is still to be greeted, uploads a file in pieces; client 1 begins to log in
  meanwhile and asks for the file afterwards.
\<close>

definition greeted_clients :: ObjectStorage where
  "greeted_clients = sample_server\<lparr>sessions := [sendMessage welcome_message (http_session []), http_session []]\<rparr>"

definition sample_user :: request where
  "sample_user = Line (sample_command [''USER'', ''Nord''])"

definition sample_rss :: "request list list" where
  "sample_rss = [[Web sample_put], [sample_user, Web sample_get]]"

definition sample_overlap :: "server_event list" where
  "sample_overlap =
     [At 0 (Arrive (hd (head_pieces sample_put))), At 1 (Arrive (''USER Nord'' @ crlf)),
      At 0 (MessageReceived sample_env), At 0 (Arrive ''he''), At 1 (MessageReceived sample_env),
      At 0 (Arrive ''llo''), At 0 (BodyRead (5, ''/a'')),
      At 1 (Arrive (hd (head_pieces sample_get))), At 1 (MessageReceived sample_env)]"

definition sample_deliveries :: "server_event list" where
  "sample_deliveries =
     hd sample_overlap # [At 0 RunTask, At 0 (MessageWritten welcome_message True)] @ tl sample_overlap"

lemma sample_user_events: "quick_events env sample_user = [Arrive (''USER Nord'' @ crlf), MessageReceived sample_env]"
  by (simp add: sample_user_def sample_command_def)

lemma sample_overlaps: "requests_overlap sample_env sample_rss sample_overlap"
  by (simp add: requests_overlap_def sample_rss_def sample_overlap_def sample_request_events sample_user_events upt_rec)

lemma greeted_clients_simps:
  "up greeted_clients" "length (sessions greeted_clients) = 2"
  "session_at greeted_clients 0 = sendMessage welcome_message (http_session [])"
  "session_at greeted_clients (Suc 0) = http_session []"
  by (simp_all add: up_def session_at_def with_shared_def greeted_clients_def sample_server_def sendMessage_def
      idle_server_def new_server_def http_session_def sample_session_def new_session_def)

lemma greeted_accounts: "accounts greeted_clients = [sample_account, sample_account]"
proof -
  have "account_of (sendMessage welcome_message (http_session [])) = account_of (http_session [])"
    by (simp add: account_of_def login_of_def sendMessage_def split: option.split)
  then show ?thesis
    by (intro nth_equalityI)
      (auto simp: accounts_nth greeted_clients_simps sample_account_start less_Suc_eq numeral_2_eq_2)
qed

lemma greeted_idle: "all_idle greeted_clients"
proof -
  have "ftp_idle (sendMessage m s) = ftp_idle s" for m s
    by (simp add: ftp_idle_def calm_def ready_def pending_def data_idle_def login_inv_def sendMessage_def)
  then show ?thesis
    using ftp_idle_start by (simp add: all_idle_def greeted_clients_simps less_Suc_eq numeral_2_eq_2)
qed

lemma greeted_delivering: "list_all delivering (sessions greeted_clients)"
  by (simp add: greeted_clients_def delivering_def reply_inv_def sendMessage_def http_session_def sample_session_def
      new_session_def is_reply_def welcome_message_def)

lemma no_deliveries: "list_all is_request es \<Longrightarrow> deliverable es srv"
proof (induction es arbitrary: srv)
  case (Cons e es)
  then show ?case by (cases e) (auto simp: is_control_event_def split: option.split sum.split event.splits)
qed simp

lemma sample_deliverable: "deliverable sample_deliveries greeted_clients"
proof -
  let ?srv = "\<lambda>s. put_session 0 s greeted_clients"
  let ?s = "(sendMessage welcome_message (http_session []))\<lparr>socket_rx := [hd (head_pieces sample_put)]\<rparr>"
  let ?s1 = "?s\<lparr>serializer := [], output_queue := [welcome_message], writes := [welcome_message]\<rparr>"
  let ?s2 = "?s1\<lparr>writes := [], output_queue := [], wire := [welcome_message]\<rparr>"
  have up: "up (?srv s)" "0 < length (sessions (?srv s))" for s
    using greeted_clients_simps(1,2) by (simp_all add: up_def put_session_def)
  have at: "session_at (?srv s) 0 = s" if "user_database s = sample_users" for s
    using that by (intro session_at_own) (simp_all add: greeted_clients_simps, simp add: greeted_clients_def
        sample_server_def idle_server_def new_server_def)
  have put: "put_session 0 s (?srv s') = ?srv s" for s s' by (rule put_session_twice)
  have start: "user_database (http_session []) = sample_users" "serializer (http_session []) = []"
      "output_queue (http_session []) = []" "writes (http_session []) = []" "wire (http_session []) = []"
      "socket_rx (http_session []) = []" "\<not> socket_eof (http_session [])"
    by (simp_all add: http_session_def sample_session_def new_session_def)
  have "deliverable (tl sample_overlap) (?srv ?s2)" by (rule no_deliveries) (simp add: sample_overlap_def)
  moreover have "server_react (At 0 (MessageWritten welcome_message True)) (?srv ?s1) = Some (Inr (?srv ?s2))"
    using up by (simp add: server_react_at at put start completion_defs del: server_react.simps)
  moreover have "server_react (At 0 RunTask) (?srv ?s) = Some (Inr (?srv ?s1))"
    using up by (simp add: server_react_at at put start completion_defs del: server_react.simps)
  moreover have "server_react (hd sample_overlap) greeted_clients = Some (Inr (?srv ?s))"
    by (simp add: server_react_at sample_overlap_def greeted_clients_simps start sendMessage_def sample_put_def
        request_head_def request_line_def del: server_react.simps)
  ultimately show ?thesis by (simp add: sample_deliveries_def del: server_react.simps)
qed

lemma requests_of_simps [simp]:
  "requests_of i [] = []"
  "requests_of i (q # qs) = (if fst q = i then snd q # requests_of i qs else requests_of i qs)"
  by (simp_all add: requests_of_def)

lemma one_client_left:
  "list_all (\<lambda>q. fst q < 2) qs \<Longrightarrow> requests_of 0 qs = [] \<Longrightarrow> qs = map (Pair 1) (requests_of 1 qs)"
  "list_all (\<lambda>q. fst q < 2) qs \<Longrightarrow> requests_of 1 qs = [] \<Longrightarrow> qs = map (Pair 0) (requests_of 0 qs)"
  by (induction qs) (auto split: if_splits)

lemma orders_of_three:
  assumes "order_of [[a], [b, c]] qs"
  shows "qs \<in> {[(0, a), (1, b), (1, c)], [(1, b), (0, a), (1, c)], [(1, b), (1, c), (0, a)]}"
proof -
  have o: "list_all (\<lambda>q. fst q < 2) qs" "requests_of 0 qs = [a]" "requests_of 1 qs = [b, c]"
    using assms by (simp_all add: order_of_def upt_rec numeral_2_eq_2)
  then obtain j r q1 where q: "qs = (j, r) # q1" by (cases qs) auto
  show ?thesis
  proof (cases "j = 0")
    case True
    with o q one_client_left(1) [of q1] show ?thesis by simp
  next
    case False
    with o q have q1: "j = 1" "r = b" "list_all (\<lambda>q. fst q < 2) q1" "requests_of 0 q1 = [a]" "requests_of 1 q1 = [c]"
      by (auto split: if_splits)
    then obtain j' r' q2 where q': "q1 = (j', r') # q2" by (cases q1) auto
    show ?thesis
    proof (cases "j' = 0")
      case True
      with q q1 q' one_client_left(1) [of q2] show ?thesis by simp
    next
      case False
      with q1 q' have "j' = 1" "r' = c" "requests_of 1 q2 = []" "requests_of 0 q2 = [a]" "list_all (\<lambda>q. fst q < 2) q2"
        by (auto split: if_splits)
      with q q1 q' one_client_left(2) [of q2] show ?thesis by simp
    qed
  qed
qed

lemma sample_late:
  "\<not> respects_time sample_env sample_rss sample_overlap [(1, sample_user), (1, Web sample_get), (0, Web sample_put)]"
proof
  assume "respects_time sample_env sample_rss sample_overlap [(1, sample_user), (1, Web sample_get), (0, Web sample_put)]"
  from respects_timeD [OF this, of 7] show False
    by (simp add: in_time_def sample_rss_def sample_overlap_def sample_request_events sample_user_events upt_rec)
qed

lemma sample_answers:
  assumes "order_of sample_rss qs" "respects_time sample_env sample_rss sample_overlap qs"
    and "service_run clients_service qs [sample_account, sample_account] ms accs"
  shows "answers_to 1 ms = [Inl (FtpResponse2 USER_NAME_OK ''Please provide password''), Inr (HttpResponse_resource Ok ''hello'')]"
proof -
  have no_expect: "\<not> expects_continue put_headers" by code_simp
  have "qs = [(0, Web sample_put), (1, sample_user), (1, Web sample_get)]
      \<or> qs = [(1, sample_user), (0, Web sample_put), (1, Web sample_get)]"
    using orders_of_three [OF assms(1) [unfolded sample_rss_def]] assms(2) sample_late by auto
  then show ?thesis
    using assms(3) unfolding sample_user_def
    by (auto simp: no_expect clients_service_iff mixed_service_iff web_service_iff evaluate_machine
        sample_put_def sample_get_def req_body_def answers_to_def)
qed

lemma overlapping_requests_served_witness:
  "\<exists>srv'. server_run sample_deliveries greeted_clients = Some (Inr srv')
    \<and> sent_log (session_at srv' 1) = [ftp_serialise (FtpResponse2 USER_NAME_OK ''Please provide password''),
         http_serialise (HttpResponse_resource Ok ''hello'')]"
proof -
  have flt: "filter is_request sample_deliveries = sample_overlap"
    by (simp add: sample_deliveries_def sample_overlap_def)
  then have overlap: "requests_overlap sample_env sample_rss (filter is_request sample_deliveries)"
    using sample_overlaps by simp
  have kinds: "list_all (\<lambda>e. is_request e \<or> is_delivery e) sample_deliveries"
    by (simp add: sample_deliveries_def sample_overlap_def is_control_event_def)
  have "same_client (http_session []) (sendMessage welcome_message (http_session []))"
    by (simp add: same_client_def)
  then have put: "sound_request (sendMessage welcome_message (http_session [])) sample_put"
    using sound_request_client [of "http_session []" _ sample_put] sample_sound(3) by simp
  have "sound_words [''USER'', ''Nord'']" by code_simp
  then have user: "sound_command (sample_command [''USER'', ''Nord''])" "quick (Line (sample_command [''USER'', ''Nord'']))"
    by (simp_all add: sample_command_def sound_command_def receive_buffer_size_def crlf_def sample_words)
  have sound: "list_all2 (\<lambda>i rs. list_all (\<lambda>q. mixed_sound (session_at greeted_clients i) q \<and> quick q) rs)
      [0..<length (sessions greeted_clients)] sample_rss"
    using sample_sound(3) put user
    by (simp add: greeted_clients_simps sample_rss_def sample_user_def upt_rec del: quick.simps(2))
  from overlapping_requests_served [OF greeted_idle greeted_delivering sound kinds sample_deliverable overlap]
  obtain qs srv' ms where
    r: "server_run sample_deliveries greeted_clients = Some (Inr srv')" and
    qs: "order_of sample_rss qs" "respects_time sample_env sample_rss sample_overlap qs"
      "service_run clients_service qs (accounts greeted_clients) ms (accounts srv')" and
    log: "map (\<lambda>j. sent_log (session_at srv' j)) [0..<length sample_rss]
      = map (\<lambda>j. sent_log (session_at greeted_clients j) @ map serialise (answers_to j ms)) [0..<length sample_rss]"
    unfolding flt by blast
  have "sent_log (session_at greeted_clients 1) = []"
    by (simp add: greeted_clients_simps http_session_def sample_session_def new_session_def)
  then have "sent_log (session_at srv' 1) = map serialise (answers_to 1 ms)"
    using log by (simp add: sample_rss_def upt_rec)
  with sample_answers [OF qs(1,2) qs(3) [unfolded greeted_accounts]] r show ?thesis by auto
qed

end
