(* ===== verification/Http_Refusals.thy ===== *)
theory Http_Refusals
  imports Session_Transfer
begin

text \<open>
  Request heads for which the code has no answer: header lines without a colon or without a
  value, and credentials that cannot be read. The parser reads a token or a character that is
  not there.
\<close>

section \<open>Errors stay undefined behaviour\<close>

lemma and_then_eq_Inl: "and_then m f = Inl e \<longleftrightarrow> m = Inl e \<or> (\<exists>x. m = Inr x \<and> f x = Inl e)"
  by (cases m) simp_all

lemma vector_at_error: "vector_at xs i = Inl e \<Longrightarrow> e = Undefined_Behaviour"
  by (simp add: vector_at_def split: if_splits)

lemma sextet_error: "sextet input i = Inl e \<Longrightarrow> e = Undefined_Behaviour"
  by (auto simp: sextet_def sextet_of_def and_then_eq_Inl split: if_splits dest: vector_at_error)

lemma decode_loop_error: "decode_loop input i jo = Inl e \<Longrightarrow> e = Undefined_Behaviour"
proof (induction "length input - i" arbitrary: i jo rule: less_induct)
  case less
  show ?case
  proof (cases "i < length input")
    case False
    with less.prems show ?thesis by (simp add: decode_loop.simps [of input i jo])
  next
    case True
    with less.prems have "e = Undefined_Behaviour \<or> (\<exists>jo'. decode_loop input (i + 4) jo' = Inl e)"
      by (auto simp: decode_loop.simps [of input i jo] and_then_eq_Inl Let_def
          simp del: split_paired_Ex dest: sextet_error)
    with less.hyps [of "i + 4"] True show ?thesis by auto
  qed
qed

lemma decode_base64_error: "decode_base64 text = Inl e \<Longrightarrow> e = Undefined_Behaviour"
  by (auto simp: decode_base64_def Let_def and_then_eq_Inl split: if_splits dest: decode_loop_error)

section \<open>Header lines\<close>

text \<open>No colon, or nothing but spaces between the first colon and the second one or the end.\<close>

definition after_colon :: "string \<Rightarrow> string" where
  "after_colon line = before_colon (tl (dropWhile (\<lambda>c. c \<noteq> CHR '':'') line))"

definition bad_line :: "string \<Rightarrow> bool" where
  "bad_line line \<longleftrightarrow> CHR '':'' \<notin> set line \<or> list_all (\<lambda>c. c = CHR '' '') (after_colon line)"

lemma skip_spaces_blank: "list_all (\<lambda>c. c = CHR '' '') (sv_chars v) \<Longrightarrow> skip_spaces v = Inl Undefined_Behaviour"
  by (simp add: skip_spaces_def list_all_iff)

lemma parseHeaderField_bad:
  assumes "bad_line (sv_chars l)"
  shows "parseHeaderField hf l = Inl Undefined_Behaviour"
proof (cases "CHR '':'' \<in> set (sv_chars l)")
  case False
  then have "map sv_chars (tokens_of '':'' l) = [sv_chars l]"
    by (intro tokens_of_join_view) (auto simp: clean_single)
  then obtain t where "tokens_of '':'' l = [t]" by (auto simp: map_eq_Cons_conv)
  then show ?thesis by (simp add: parseHeaderField_def vector_at_def)
next
  case True
  then obtain n x where l: "sv_chars l = n @ CHR '':'' # x" "CHR '':'' \<notin> set n"
    using split_list_first by metis
  have d: "dropWhile (\<lambda>c. c \<noteq> CHR '':'') (n @ CHR '':'' # x) = CHR '':'' # x"
    using l(2) by (induction n) auto
  obtain u q qs where t: "tokens_of '':'' l = u # q # qs" "sv_chars q = before_colon x"
    using tokens_of_colon [OF l(2), of l x] l(1) by auto
  then have "skip_spaces q = Inl Undefined_Behaviour"
    using assms True by (intro skip_spaces_blank) (simp add: bad_line_def after_colon_def l(1) d)
  with l(1) t(1) show ?thesis by (simp add: parseHeaderField_def)
qed

lemma parseHeaderField_error: "parseHeaderField hf l = Inl e \<Longrightarrow> e = Undefined_Behaviour"
  by (auto simp: parseHeaderField_def and_then_eq_Inl skip_spaces_def Let_def split: if_splits
      dest: vector_at_error)

lemma parseHeaderLines_bad:
  "\<exists>l \<in> set ls. bad_line (sv_chars l) \<Longrightarrow> parseHeaderLines hf ls = Inl Undefined_Behaviour"
proof (induction ls arbitrary: hf)
  case (Cons l ls)
  show ?case
  proof (cases "parseHeaderField hf l")
    case (Inl e)
    then show ?thesis using parseHeaderField_error by auto
  next
    case (Inr hf')
    then have "\<not> bad_line (sv_chars l)" using parseHeaderField_bad by fastforce
    with Cons Inr show ?thesis by auto
  qed
qed simp

lemma parse_http_bad_line:
  assumes "wf_word m" "wf_word uri" "wf_word version" "kMethodMap m = Some meth"
    and "\<forall>l \<in> set ls. no_cr l" "\<exists>l \<in> set ls. bad_line l"
  shows "parse_http (raw_head (request_line m uri version) ls) = Inl Undefined_Behaviour"
proof -
  let ?ls = "request_line m uri version # ls"
  let ?b = "raw_head (request_line m uri version) ls"
  have b: "?b = join crlf (?ls @ [[], []])" by (simp only: join_crlf_lines raw_head_def)
  have "\<forall>l \<in> set (?ls @ [[], []]). clean crlf l"
    using assms(1-3,5) request_line_no_crlf no_cr_no_crlf by (auto simp: clean_crlf)
  then have "map sv_chars (tokens_of crlf (view_of ?b)) = ?ls @ [[], []]"
    by (intro tokens_of_join_view) (simp_all add: b)
  then obtain l vs e1 e2 where t: "tokens_of crlf (view_of ?b) = l # vs @ [e1, e2]"
      and c: "sv_chars l = request_line m uri version" "map sv_chars vs = ls"
    by (auto simp: map_eq_append_conv map_eq_Cons_conv)
  obtain u where u: "parseRequestLine (l # vs @ [e1, e2]) = Inr (Some (meth, u))"
    using parseRequestLine_line [OF c(1) assms(1-4)] by blast
  have "vs \<noteq> []" using assms(6) c(2) by auto
  moreover have "parseHeaderLines Map.empty vs = Inl Undefined_Behaviour"
    using assms(6) c(2) by (intro parseHeaderLines_bad) auto
  ultimately have "parseHeaderFields (l # vs @ [e1, e2]) = Inl Undefined_Behaviour"
    by (simp add: parseHeaderFields_def)
  moreover have "?b \<noteq> []" by (simp add: raw_head_def)
  ultimately show ?thesis using t u by (simp add: parse_http_def)
qed

section \<open>Credentials\<close>

text \<open>The word behind the first space, and whether it decodes to a text with a colon in it.\<close>

definition second_word :: "string \<Rightarrow> string" where
  "second_word v = takeWhile (\<lambda>c. c \<noteq> CHR '' '') (tl (dropWhile (\<lambda>c. c \<noteq> CHR '' '') v))"

definition readable_credentials :: "string option \<Rightarrow> bool" where
  "readable_credentials field \<longleftrightarrow>
     (case field of
        None \<Rightarrow> False
      | Some v \<Rightarrow> CHR '' '' \<in> set v
          \<and> (case decode_base64 (second_word v) of
               Inr (Some text) \<Rightarrow> CHR '':'' \<in> set text
             | _ \<Rightarrow> False))"

lemma tokens_of_second_word:
  assumes "CHR '' '' \<in> set (sv_chars v)"
  obtains a b rest where "tokens_of '' '' v = a # b # rest" "sv_chars b = second_word (sv_chars v)"
proof -
  obtain n x where v: "sv_chars v = n @ CHR '' '' # x" "CHR '' '' \<notin> set n"
    using assms split_list_first by metis
  have d: "dropWhile (\<lambda>c. c \<noteq> CHR '' '') (n @ CHR '' '' # x) = CHR '' '' # x"
    using v(2) by (induction n) auto
  let ?w = "substr v (length n + 1) (length (sv_chars v))"
  have "search '' '' (sv_chars v) 0 = Some (length n)"
    using v clean_single [of "CHR '' ''" n] by (simp add: clean_def)
  moreover have w: "sv_chars ?w = x" by (simp add: substr_def v(1))
  ultimately have t: "tokens_of '' '' v = substr v 0 (length n) # tokens_of '' '' ?w"
    by (simp add: tokens_of_Some)
  show thesis
  proof (cases "CHR '' '' \<in> set x")
    case True
    then obtain h r where x: "x = h @ CHR '' '' # r" "CHR '' '' \<notin> set h"
      using split_list_first by metis
    then have "search '' '' (sv_chars ?w) 0 = Some (length h)"
      using w clean_single [of "CHR '' ''" h] by (simp add: clean_def)
    then have "tokens_of '' '' ?w = substr ?w 0 (length h) #
        tokens_of '' '' (substr ?w (length h + 1) (length (sv_chars ?w)))"
      by (simp add: tokens_of_Some)
    moreover have "takeWhile (\<lambda>c. c \<noteq> CHR '' '') x = h"
      using x by (auto simp: takeWhile_tail)
    then have "sv_chars (substr ?w 0 (length h)) = second_word (sv_chars v)"
      using x(1) d by (simp add: substr_def v(1) second_word_def)
    ultimately show thesis using that t by simp
  next
    case False
    then have "map sv_chars (tokens_of '' '' ?w) = [x]"
      using w by (intro tokens_of_join_view) (auto simp: clean_single)
    then obtain b where "tokens_of '' '' ?w = [b]" "sv_chars b = x" by (auto simp: map_eq_Cons_conv)
    moreover have "second_word (sv_chars v) = x"
      using False d by (auto simp: second_word_def v(1))
    ultimately show thesis using that t by simp
  qed
qed

lemma getAuthInfo_unreadable:
  assumes "view_chars (header_fields p) = F" "\<not> readable_credentials (F kAuthenticationKey)"
  shows "getAuthInfo p \<in> {Inr None, Inl Undefined_Behaviour}"
proof (cases "header_field p kAuthenticationKey")
  case None
  then show ?thesis by (simp add: getAuthInfo_missing)
next
  case (Some w)
  then have f: "\<not> readable_credentials (Some (sv_chars w))"
    using header_field_chars [OF assms(1), of kAuthenticationKey] assms(2) by simp
  show ?thesis
  proof (cases "CHR '' '' \<in> set (sv_chars w)")
    case False
    then have "map sv_chars (tokens_of '' '' w) = [sv_chars w]"
      by (intro tokens_of_join_view) (auto simp: clean_single)
    then obtain t where "tokens_of '' '' w = [t]" by (auto simp: map_eq_Cons_conv)
    with Some show ?thesis by (simp add: getAuthInfo_def vector_at_def)
  next
    case True
    then obtain a b rest where t: "tokens_of '' '' w = a # b # rest" "sv_chars b = second_word (sv_chars w)"
      by (rule tokens_of_second_word)
    have "sv_chars w \<noteq> []" using True by auto
    note parts = Some t this
    show ?thesis
    proof (cases "decode_base64 (second_word (sv_chars w))")
      case (Inl e)
      with parts decode_base64_error [OF Inl] show ?thesis by (simp add: getAuthInfo_def)
    next
      case (Inr d)
      show ?thesis
      proof (cases d)
        case None
        with parts Inr show ?thesis by (simp add: getAuthInfo_def)
      next
        case (Some clear)
        then have "CHR '':'' \<notin> set clear" using f Inr True by (simp add: readable_credentials_def)
        then have "map sv_chars (tokens_of '':'' (view_of clear)) = [clear]"
          by (intro tokens_of_join_view) (auto simp: clean_single)
        then obtain u where "tokens_of '':'' (view_of clear) = [u]" by (auto simp: map_eq_Cons_conv)
        with parts Inr Some show ?thesis by (simp add: getAuthInfo_def vector_at_def)
      qed
    qed
  qed
qed

section \<open>Properties\<close>

text \<open>
  C36. A request head with a header line that has no colon, or no value behind it, has no defined
  outcome, whoever sends it and whatever else is in it: the parser reads a token that is not
  there, or cuts more off the value than there is.
\<close>

theorem malformed_header_undefined:
  assumes "wf_word m" "wf_word uri" "wf_word version" "occurs ''HTTP'' version" "kMethodMap m = Some meth"
    and "\<forall>l \<in> set ls. no_cr l \<and> l \<noteq> []" "l \<in> set ls" "bad_line l"
    and "pending s = raw_head (request_line m uri version) ls @ rest"
  shows "message_received env s = Inl Undefined_Behaviour"
proof -
  have "ls \<noteq> []" using assms(7) by auto
  then obtain b rx where "message_received env s
      = answerHttp (raw_head (request_line m uri version) ls) (after_read s b rx)"
    using receive_lines [OF assms(9) request_line_no_cr [OF assms(1-3)] request_line_http [OF assms(4)] _ assms(6)]
    by blast
  moreover have "parse_http (raw_head (request_line m uri version) ls) = Inl Undefined_Behaviour"
    using assms(6-8) by (intro parse_http_bad_line [OF assms(1-3,5)]) auto
  ultimately show ?thesis by (simp add: answerHttp_def)
qed

lemma malformed_header_undefined_witness:
  "message_received sample_env (http_session [''GET / HTTP/1.1'' @ crlf @ ''Host: a'' @ crlf, ''Accept:'' @ crlf @ crlf])
    = Inl Undefined_Behaviour"
proof (rule malformed_header_undefined [of "''GET''" "''/''" "''HTTP/1.1''" Get "[''Host: a'', ''Accept:'']" "''Accept:''"])
  show "occurs ''HTTP'' ''HTTP/1.1''" by (rule sample_plain)
  show "kMethodMap ''GET'' = Some Get" by (simp add: kMethodMap_def)
  show "bad_line ''Accept:''" by code_simp
  show "pending (http_session [''GET / HTTP/1.1'' @ crlf @ ''Host: a'' @ crlf, ''Accept:'' @ crlf @ crlf])
      = raw_head (request_line ''GET'' ''/'' ''HTTP/1.1'') [''Host: a'', ''Accept:''] @ []"
    by (simp add: sample_pending raw_head_def request_line_def)
qed (simp_all add: wf_word_def)

text \<open>
  C37. Where credentials are asked for, a request without readable ones is not refused: without
  an \<open>Authorization\<close> field, with one that has no second word, or with one whose second word
  does not decode to a text with a colon, the session reads an empty \<^verbatim>\<open>std::optional\<close> or a
  token that is not there, which has no defined outcome.
\<close>

theorem unreadable_credentials_undefined:
  assumes "plain_request m uri version hs" "kMethodMap m = Some meth"
    and "authenticate s" "\<not> readable_credentials (fields_of hs kAuthenticationKey)"
    and "pending s = request_head m uri version hs @ rest"
  shows "message_received env s = Inl Undefined_Behaviour"
proof -
  obtain b rx where m: "message_received env s = answerHttp (request_head m uri version hs) (after_read s b rx)"
    using receive_head [OF assms(5), where env = env] assms(1) by (auto simp: plain_request_def)
  obtain p where p: "parse_http (request_head m uri version hs) = Inr p" "parses_to p meth uri hs"
    using plain_request_parses [OF assms(1,2)] .
  then have "getAuthInfo p \<in> {Inr None, Inl Undefined_Behaviour}"
    using getAuthInfo_unreadable [where F = "fields_of hs"] assms(4) by (simp add: parses_to_def)
  then have "authHttpUser p (after_read s b rx) = Inl Undefined_Behaviour"
    using assms(3) by (auto simp: authHttpUser_def after_read_def)
  with m p show ?thesis by (simp add: answerHttp_def parses_to_def)
qed

lemma unreadable_credentials_undefined_witness:
  "message_received sample_env (http_session [request_head ''GET'' ''/a'' ''HTTP/1.1'' [(''Authorization'', 1, ''Basic Tm9yZA=='')]])
    = Inl Undefined_Behaviour"
proof (rule unreadable_credentials_undefined [where meth = Get and rest = "[]"])
  have f: "fields_of [(''Authorization'', 1, ''Basic Tm9yZA=='')] kContentLengthKey = None"
    "fields_of [(''Authorization'', 1, ''Basic Tm9yZA=='')] kAuthenticationKey = Some ''Basic Tm9yZA==''"
    "\<not> readable_credentials (Some ''Basic Tm9yZA=='')"
    "list_all plain_header [(''Authorization'', 1, ''Basic Tm9yZA=='')]"
    by code_simp+
  then show "\<not> readable_credentials (fields_of [(''Authorization'', 1, ''Basic Tm9yZA=='')] kAuthenticationKey)"
    by (simp del: fun_upd_apply)
  show "plain_request ''GET'' ''/a'' ''HTTP/1.1'' [(''Authorization'', 1, ''Basic Tm9yZA=='')]"
    using f sample_plain(5) by (simp add: plain_request_def wf_word_def size_field_ok_def)
  show "kMethodMap ''GET'' = Some Get" by (simp add: kMethodMap_def)
qed (simp_all add: sample_pending, simp add: http_session_def sample_session_def new_session_def)

end
