(* ===== verification/Example_App.thy ===== *)
theory Example_App
  imports Server
begin

text \<open>
  \<^verbatim>\<open>example_app.cpp\<close>: the program's arguments, and the server it makes of them.
\<close>

record arguments =
  arg_address :: string
  arg_port :: port
  arg_threads :: int
  arg_authenticate :: bool
  arg_ftp_ports :: PortRange

text \<open>\<^verbatim>\<open>argv[1]\<close> to \<^verbatim>\<open>argv[5]\<close>. The port numbers are cut to 16 bits.\<close>

definition parse_arguments :: "string list \<Rightarrow> arguments option result" where
  "parse_arguments args =
     (case args of
        [address, port_text, threads, auth, ports] \<Rightarrow>
          and_then (atoi port_text) (\<lambda>p.
          and_then (atoi threads) (\<lambda>n.
          and_then (run_split (view_of ports) ''-'') (\<lambda>ftp_port_range.
          and_then (vector_at ftp_port_range 0) (\<lambda>v0.
          and_then (atoi (sv_data v0)) (\<lambda>lo.
          and_then (vector_at ftp_port_range 1) (\<lambda>v1.
          and_then (atoi (sv_data v1)) (\<lambda>hi.
            Inr (Some \<lparr>arg_address = address, arg_port = word_of_int p, arg_threads = n,
              arg_authenticate = (auth = ''auth''),
              arg_ftp_ports = \<lparr>min_port = word_of_int lo, max_port = word_of_int hi\<rparr>\<rparr>))))))))
      | _ \<Rightarrow> Inr None)"

text \<open>\<^verbatim>\<open>std::size_t\<close> makes of the number of threads what it is modulo \<open>2 ^ 64\<close>.\<close>

definition main_server :: "hash_order \<Rightarrow> listen_env \<Rightarrow> arguments \<Rightarrow> bool \<times> ObjectStorage" where
  "main_server order env a =
     (let srv = new_server order (arg_address a) (arg_port a) Info (arg_authenticate a) (arg_ftp_ports a);
          srv1 = snd (addUser ''Nord'' ''VPN'' srv)
      in server_start env (unat (word_of_int (arg_threads a) :: 64 word)) srv1)"

lemma atoi_to_string: "n < 2 ^ 31 \<Longrightarrow> atoi (to_string n) = Inr (int n)"
  using atoi_number [of n "[]"] by simp

lemma to_string_no_dash: "CHR ''-'' \<notin> set (to_string n)"
  using to_string_digits [of n] by (auto simp: list_all_iff is_digit_def)

lemma split_port_range:
  "\<exists>u v. tokens_of ''-'' (view_of (to_string lo @ ''-'' @ to_string hi)) = [u, v]
     \<and> sv_chars u = to_string lo \<and> sv_chars v = to_string hi
     \<and> (\<forall>c r. sv_after u = c # r \<longrightarrow> \<not> is_digit c) \<and> (\<forall>c r. sv_after v = c # r \<longrightarrow> \<not> is_digit c)"
proof -
  let ?w = "view_of (to_string lo @ ''-'' @ to_string hi)"
  have "map sv_chars (tokens_of ''-'' ?w) = [to_string lo, to_string hi]"
    by (intro tokens_of_join_view) (auto simp: clean_single to_string_no_dash)
  then obtain u v where t: "tokens_of ''-'' ?w = [u, v]" "sv_chars u = to_string lo" "sv_chars v = to_string hi"
    by (auto simp: map_eq_Cons_conv)
  have "\<not> is_digit c" if "x \<in> set (tokens_of ''-'' ?w)" "sv_after x = c # r" for x c r
    using tokens_of_after [OF that(1)] that(2) by (auto simp: is_digit_def)
  with t show ?thesis by auto
qed

lemma parse_arguments_numbers:
  assumes "p < 2 ^ 31" "n < 2 ^ 31" "lo < 2 ^ 31" "hi < 2 ^ 31"
  shows "parse_arguments [address, to_string p, to_string n, auth, to_string lo @ ''-'' @ to_string hi]
    = Inr (Some \<lparr>arg_address = address, arg_port = of_nat p, arg_threads = int n,
        arg_authenticate = (auth = ''auth''),
        arg_ftp_ports = \<lparr>min_port = of_nat lo, max_port = of_nat hi\<rparr>\<rparr>)"
proof -
  obtain u v where t: "tokens_of ''-'' (view_of (to_string lo @ ''-'' @ to_string hi)) = [u, v]"
      "sv_chars u = to_string lo" "sv_chars v = to_string hi"
      "\<forall>c r. sv_after u = c # r \<longrightarrow> \<not> is_digit c" "\<forall>c r. sv_after v = c # r \<longrightarrow> \<not> is_digit c"
    using split_port_range by blast
  have "atoi (sv_data u) = Inr (int lo)" "atoi (sv_data v) = Inr (int hi)"
    using atoi_number [OF assms(3) t(4)] atoi_number [OF assms(4) t(5)] t(2,3)
    by (simp_all add: sv_data_def)
  with t(1) assms(1,2) show ?thesis by (simp add: parse_arguments_def atoi_to_string)
qed

section \<open>Properties\<close>

text \<open>
  C28. Called with an address, the port, the number of threads, the word \<open>auth\<close> or another and
  the two ends of the port range, all numbers below \<open>2 ^ 31\<close>, the program reads each of them back
  (the ports cut to 16 bits) and makes a server of them whose only user is \<open>Nord\<close>. It starts
  exactly when there is a thread, the range is not empty, the address is one and the system can
  listen; then it listens on the port, with an accept outstanding and that many workers.
\<close>

theorem program_starts:
  assumes "p < 2 ^ 31" "n < 2 ^ 31" "lo < 2 ^ 31" "hi < 2 ^ 31"
  shows "\<exists>a started srv.
    parse_arguments [address, to_string p, to_string n, auth, to_string lo @ ''-'' @ to_string hi] = Inr (Some a)
    \<and> arg_address a = address \<and> arg_port a = of_nat p \<and> arg_threads a = int n
    \<and> arg_authenticate a = (auth = ''auth'') \<and> arg_ftp_ports a = \<lparr>min_port = of_nat lo, max_port = of_nat hi\<rparr>
    \<and> main_server order env a = (started, srv) \<and> srv_users srv = [''Nord'' \<mapsto> ''VPN'']
    \<and> getAddress srv = address \<and> getPort srv = of_nat p \<and> srv_authenticate srv = (auth = ''auth'')
    \<and> srv_ftp_port_range srv = arg_ftp_ports a
    \<and> (started \<longleftrightarrow> 0 < n \<and> lo mod 2 ^ 16 < hi mod 2 ^ 16
        \<and> address_ok env address \<and> srv_open_ok env \<and> reuse_ok env \<and> srv_bind_ok env \<and> srv_listen_ok env)
    \<and> (if started then listener srv = Listening (of_nat p) \<and> accepting srv \<and> srv_workers srv = n
        else \<not> accepting srv \<and> srv_workers srv = 0)"
proof -
  let ?ports = "\<lparr>min_port = of_nat lo, max_port = of_nat hi :: port\<rparr>"
  let ?srv = "snd (addUser ''Nord'' ''VPN'' (new_server order address (of_nat p) Info (auth = ''auth'') ?ports))"
  let ?a = "\<lparr>arg_address = address, arg_port = of_nat p, arg_threads = int n,
      arg_authenticate = (auth = ''auth''), arg_ftp_ports = ?ports\<rparr>"
  have n: "unat (of_nat n :: 64 word) = n" using assms(2) by (simp add: unat_of_nat)
  have m: "main_server order env ?a = server_start env n ?srv"
    by (simp add: main_server_def n)
  have srv: "srv_users ?srv = [''Nord'' \<mapsto> ''VPN'']" "listener ?srv = Closed" "\<not> accepting ?srv"
      "srv_workers ?srv = 0" "srv_ftp_port_range ?srv = ?ports" "srv_port ?srv = of_nat p"
      "srv_authenticate ?srv = (auth = ''auth'')" "srv_address ?srv = address"
    by (simp_all add: addUser_def new_server_def db_add_def requirePassword_def kUsersWithoutPassword_def)
  have range: "(of_nat lo :: port) < of_nat hi \<longleftrightarrow> lo mod 2 ^ 16 < hi mod 2 ^ 16"
    by (simp add: word_less_nat_alt unat_of_nat)
  obtain started srv where s: "server_start env n ?srv = (started, srv)"
    by (cases "server_start env n ?srv")
  have "started \<longleftrightarrow> 0 < n \<and> lo mod 2 ^ 16 < hi mod 2 ^ 16
      \<and> address_ok env address \<and> srv_open_ok env \<and> reuse_ok env \<and> srv_bind_ok env \<and> srv_listen_ok env"
    using server_start_iff [of env n ?srv] range by (auto simp: can_listen_def srv s)
  moreover have "if started then listener srv = Listening (of_nat p) \<and> accepting srv \<and> srv_workers srv = n
      else \<not> accepting srv \<and> srv_workers srv = 0"
    using server_start_listens [of env n ?srv] server_start_refused [of env n ?srv] by (simp add: srv s)
  moreover have "srv_users srv = [''Nord'' \<mapsto> ''VPN'']" "getAddress srv = address" "getPort srv = of_nat p"
      "srv_ftp_port_range srv = ?ports" "srv_authenticate srv = (auth = ''auth'')"
    using server_start_frame(3-6) [of env n ?srv] server_start_authenticate [of env n ?srv]
    by (simp_all add: srv s getAddress_def getPort_def)
  ultimately show ?thesis
    using parse_arguments_numbers [OF assms] m [unfolded s]
    by (intro exI [of _ ?a] exI [of _ started] exI [of _ srv]) simp
qed

lemma program_starts_witness:
  "\<exists>a started srv.
    parse_arguments [''127.0.0.1'', to_string 1670, to_string 4, ''auth'', to_string 2000 @ ''-'' @ to_string 3000]
      = Inr (Some a)
    \<and> arg_address a = ''127.0.0.1'' \<and> arg_ftp_ports a = \<lparr>min_port = 2000, max_port = 3000\<rparr>
    \<and> main_server front_order \<lparr>address_ok = (\<lambda>a. a = ''127.0.0.1''), srv_open_ok = True, reuse_ok = True,
         srv_bind_ok = True, srv_listen_ok = True\<rparr> a = (started, srv)
    \<and> started \<and> getAddress srv = ''127.0.0.1'' \<and> listener srv = Listening 1670 \<and> srv_workers srv = 4"
  using program_starts [of 1670 4 2000 3000 "''127.0.0.1''" "''auth''" front_order
      "\<lparr>address_ok = (\<lambda>a. a = ''127.0.0.1''), srv_open_ok = True, reuse_ok = True, srv_bind_ok = True,
        srv_listen_ok = True\<rparr>"]
  by auto

end
