(* ===== verification/Spec2Isabelle.thy ===== *)
theory Spec2Isabelle
  imports Memory_Ref Overlapping_Requests Http_Refusals Example_App
begin

text \<open>
  InMemoryObjectStorage: a server that keeps files in memory and speaks FTP and HTTP/1.1 on
  one port (\<^verbatim>\<open>src/README.md\<close>). This development models the program from the parsers of its
  requests up to the server with all its clients' sessions, and proves what makes it correct,
  and where it is not.

  \<^bold>\<open>The program.\<close> \<^verbatim>\<open>ObjectStorage\<close> (\<^verbatim>\<open>server/object_storage/src/object_storage.cpp\<close>) owns the
  users and the files, listens, and makes a \<^verbatim>\<open>Session\<close> for every connection. A session
  (\<^verbatim>\<open>session.cpp\<close>) reads up to a line end, asks \<^verbatim>\<open>detectProtocol\<close> which protocol the line
  belongs to, and hands it to \<^verbatim>\<open>handleFtp\<close> (\<^verbatim>\<open>ftp_command_handlers.cpp\<close>) or \<^verbatim>\<open>handleHttp\<close>
  (\<^verbatim>\<open>http_method_handlers.cpp\<close>); the handlers use the parsers, the user database and the store,
  and send replies through a queue. FTP data travel over connections of their own, which the
  client opens to the port that PASV has told it.

  \<^bold>\<open>The theories\<close>, in the order of import.

  \<^item> \<open>Storage_Prelude\<close>: the result type. \<open>Inl\<close> is a way to stop: undefined behaviour, an
    exception that ends the process, a call that blocks; \<open>Inr\<close> is a value. Checked accesses of
    containers, decimal numbers, and the interfaces \<open>codec\<close> and \<open>stream_codec\<close> of printers with
    their readers.
  \<^item> \<open>Utils\<close> (\<^verbatim>\<open>utils.cpp\<close>): string views with what lies behind them, \<open>split\<close>, case conversion.
    \<open>Base64\<close>: \<open>decode_base64\<close>, on 32-bit words, against the encoder of RFC 4648
    and a reference decoder on numbers.
  \<^item> \<open>Detector\<close>, \<open>Ftp_Request\<close>, \<open>Ftp_Reply\<close>, \<open>Http_Request\<close>, \<open>Http_Reply\<close> (\<^verbatim>\<open>protocol\<close>): the two
    parsers, the two kinds of reply, and readers for the streams of replies. \<open>Http_Request\<close> has
    \<^verbatim>\<open>std::atoi\<close>, which here reads beyond the end of a view as it does in the code.
  \<^item> \<open>User_Database\<close> and \<open>Memory_Fs\<close> (\<^verbatim>\<open>user\<close>, \<^verbatim>\<open>filesystem\<close>): each a locale with the laws of its
    interface and the interpretation of it on the model of the code. \<open>abstract_step\<close> is the
    specification of the store: a map from paths to contents. \<open>Memory_Ref\<close> gives the entries of
    the table an identity, to say how long the reference that \<open>get\<close> hands out can be read.
  \<^item> \<open>Session_State\<close>, \<open>Session_Ftp\<close>, \<open>Session_Http\<close>, \<open>Session_Step\<close>: the record \<open>session\<close> with the
    members of the class, one definition per member function, per posted task and per completion
    handler, under the names of the code where it has names; \<open>session_step\<close> says what can happen
    next, and \<open>react\<close> computes it.
  \<^item> \<open>Session_Contract\<close>: what every command and method handler keeps to, as locales
    (\<open>ftp_handler\<close>, \<open>guarded_handler\<close>, \<open>http_handler\<close>) interpreted on all of them.
    \<open>Session_Invariants\<close>, \<open>Session_Data\<close>, \<open>Session_Files\<close>, \<open>Session_Sockets\<close>: the locale
    \<open>session_invariant\<close> and its interpretations: the reply queue, the reads, the data queue, logins,
    the store, and the typing of data sockets. \<open>session_op\<close> reads off an event the one operation of
    the store that the session does in it. \<open>Session_Liveness\<close>: what has been sent can be written.
  \<^item> \<open>Session_Transfer\<close>, \<open>Ftp_Transfer\<close>, \<open>Ftp_Login\<close>, \<open>Ftp_Dialogue\<close>: whole exchanges, from the
    bytes a client sends, cut in any way, to the store and the replies: GET, PUT, DELETE, RETR,
    STOR, PASV, USER and PASS, and a whole FTP session from the login to the file that comes
    back. \<open>Http_Refusals\<close>: the request heads for which the code has no answer.
  \<^item> \<open>Session_Dialogue\<close>: the locale \<open>dialogue\<close>: if a session serves each single request as a
    specification says, it serves every list of them so. It is interpreted on the HTTP requests
    (\<open>Http_Dialogue\<close>; the specification is \<open>web_service\<close>, on a map of files), on the FTP commands
    (\<open>Ftp_Machine\<close>; an automaton over an \<open>account\<close>, with \<open>account_of\<close> as the abstraction of a
    session) and on both mixed (\<open>Mixed_Dialogue\<close>).
  \<^item> \<open>Server\<close>, \<open>Server_Transfer\<close>: the record \<open>ObjectStorage\<close>, start, users, acceptance, and the
    sessions side by side on the same users and files; \<open>server_wide\<close> lifts an invariant of
    sessions to all sessions of a server. \<open>Reply_Stream\<close>: the properties of what is written.
    \<open>Server_Dialogue\<close>: many clients that take turns, on one store. \<open>Example_App\<close>
    (\<^verbatim>\<open>example_app.cpp\<close>): the arguments and the start.
  \<^item> \<open>Interleaving\<close>: the locale \<open>commuting_steps\<close>, in which runs of several clients can be reordered
    if single steps can; no server in it. \<open>Session_Independence\<close>: which events of a session look at
    the files (\<open>uses_files\<close>), and that all others do the same on other files. \<open>Server_Interleaving\<close>
    interprets the locale on the events of a server. \<open>Session_Delivery\<close>, \<open>Server_Delivery\<close>: no request
    can tell how far the replies have been written. \<open>Overlapping_Requests\<close>: clients whose
    requests overlap in any way are served as if one at a time. The requests are those of HTTP and
    the FTP commands that move no data (\<open>quick\<close>, all but LIST, RETR and STOR). Each uses the files
    in at most one of its events (\<open>using_event\<close>), and the order of these events is the order of the
    requests. For the commands that move data \<open>clients_served\<close> and \<open>interleavings_agree\<close> together
    say it of the overlaps that keep the order of the events that use the files.
  \<^item> This theory: what clients see of each other's files, and what holds in every state of a server.

  \<^bold>\<open>Asynchronous code.\<close> The strands \<^verbatim>\<open>serializer_\<close> and \<^verbatim>\<open>ftp_data_serializer_\<close> are queues of
  tasks, run one at a time and in the order of posting. A call that starts an operation
  (\<^verbatim>\<open>async_read\<close>, \<^verbatim>\<open>async_write\<close>, \<^verbatim>\<open>async_accept\<close>) puts it, with what its completion handler
  captures, on a list of the session; a step takes any of them and applies the handler. Any
  order of such steps, of arrivals of bytes and of tasks of either strand is a run, and the steps
  of all sessions interleave. Steps are atomic although the worker threads run both strands of a
  session at once: the control strand alone touches the data acceptor and the login, the data
  strand alone the data socket and its queue, and they share only posted tasks, and the store
  and the users behind their locks. What the system answers is an argument (\<open>acceptor_env\<close>,
  \<open>listen_env\<close>, the parameters of an event). The store and the user database are behind a lock in
  the code, so each of their operations is one step. A session with nothing outstanding is
  destroyed, as its last pointer is gone.

  \<^bold>\<open>Numbers and bounds.\<close> Ports are 16-bit words, the decoder's are 32-bit, a body size is the
  64-bit word that the conversion of \<^verbatim>\<open>int\<close> makes of it. There is no fuel: the loop of \<open>split\<close> is
  a partial function, whose value \<open>None\<close> is a loop that does not end, and both sides of that are
  proved; all other recursion is structural or has a measure. \<open>flush\<close> is given the number of
  steps it may take, and \<open>backlog\<close> is proved to be enough.

  \<^bold>\<open>Assumptions.\<close> The text of an error code, which the system supplies, is a single line. The
  order in which the hash table lists its entries is a parameter, any arrangement is allowed. A
  write of \<^verbatim>\<open>async_write\<close> is whole or fails. An outstanding accept may succeed or fail at any
  time, also after its acceptor was closed, since its connection may have been there before. In a
  dialogue the body of a PUT arrives after its head has been read, because the code loses what it
  reads together with the head. A dialogue is served by a schedule: the client's bytes
  arrive, and the ends of the operations that they start come in an order that leads to the next
  request; that such a schedule exists is part of what is proved.

  \<^bold>\<open>Not modelled.\<close> What a session does while \<^verbatim>\<open>handleHttp\<close> waits in its blocking read for the
  rest of a request head: that wait is the result \<open>Would_Block\<close>, which ends a run. Logging and the socket option TCP_NODELAY; the console of the example; the
  three interface headers without behaviour; \<^verbatim>\<open>boost::asio\<close> itself, beyond what is said above;
  running out of memory. \<^verbatim>\<open>MemoryFs::get\<close> hands out a reference that the lock no longer
  protects; sessions are modelled with the value it had under the lock, and \<open>Memory_Ref\<close> says
  when that is what they read.
\<close>

section \<open>A shared store\<close>

definition shared_server :: "string \<Rightarrow> string \<Rightarrow> ObjectStorage" where
  "shared_server line0 head1 = sample_server\<lparr>sessions :=
     [passive_session (fs_empty front_order) line0, http_session [head1]]\<rparr>"

lemma shared_server_up: "up (shared_server x y)" "length (sessions (shared_server x y)) = 2"
  by (simp_all add: up_def shared_server_def sample_server_def idle_server_def new_server_def)

lemma shared_server_at:
  "session_at (shared_server x y) 0 = passive_session (fs_empty front_order) x"
  "session_at (shared_server x y) (Suc 0) = http_session [y]"
  "srv_filesystem (shared_server x y) = fs_empty front_order"
  by (simp_all add: session_at_def with_shared_def shared_server_def sample_server_def idle_server_def
      new_server_def passive_session_def http_session_def sample_session_def new_session_def)

text \<open>
  C4. What one client stores over FTP, another client gets over HTTP: after STOR in one session
  has been carried out, a GET request for the path in another session of the same server is
  answered with status 200 and exactly the bytes that were sent.
\<close>

theorem stored_by_ftp_served_by_http:
  assumes "up srv" "i < length (sessions srv)" "j < length (sessions srv)" "i \<noteq> j"
    and "passive_mode (session_at srv i) p" "pending (session_at srv i) = command_line ''STOR'' name @ crlf"
      "plain_argument ''STOR'' name"
    and "\<forall>c \<in> set cs. length c = receive_buffer_size" "length last_chunk \<le> receive_buffer_size"
    and "uri = current_working_dir (session_at srv i) @ name" "uri \<noteq> ''/''"
      "fs_map (srv_filesystem srv) uri = None"
    and "ready (session_at srv j)" "pending (session_at srv j) = request_head ''GET'' uri version hs"
      "plain_request ''GET'' uri version hs" "let_in hs scheme user (session_at srv j)"
  shows "\<exists>srv'. server_run (map (At i) (stor_events env (session_at srv i) name cs last_chunk)
        @ [At j (MessageReceived env)]) srv = Some (Inr srv')
    \<and> read_response (last (sent_log (sessions srv' ! j)))
        = Some (HttpResponse_resource Ok (concat cs @ last_chunk), [])"
proof -
  let ?s = "session_at srv i"
  let ?es = "stor_events env ?s name cs last_chunk"
  obtain s' where s': "run_events (?es @ []) ?s = run_events [] s'"
      "filesystem s' = snd (fs_add (filesystem ?s) uri (concat cs @ last_chunk))" "ready s'"
    unfolding assms(10) using assms(5-9) by (rule stor_run [where env = env and es = "[]"])
  have fs: "filesystem ?s = srv_filesystem srv" by (simp add: session_at_def with_shared_def)
  have inv: "fs_inv (filesystem ?s)" using assms(5) by (simp add: passive_mode_def ready_def)
  have "?es \<noteq> []" by (simp add: stor_events_def Let_def)
  moreover have "run_events ?es ?s = Some (Inr s')" using s'(1) by simp
  moreover have "fs_inv (filesystem s')" using s'(3) by (simp add: ready_def)
  ultimately obtain srv' where "server_run (map (At i) ?es @ [At j (MessageReceived env)]) srv = Some (Inr srv')"
      "sent_log (sessions srv' ! j) = sent_log (sessions srv ! j) @ [http_serialise (get_answer (filesystem s') uri)]"
    using get_after_change [OF assms(1-4) _ _ _ assms(13-16), where env = env] by metis
  moreover have "get_answer (filesystem s') uri = HttpResponse_resource Ok (concat cs @ last_chunk)"
    using assms(11,12) memfs.add_abs [OF inv] fs by (simp add: get_answer_def s'(2) domIff)
  ultimately show ?thesis using read_response_serialise [of _ "[]"] by auto
qed

lemma stored_by_ftp_served_by_http_witness:
  "\<exists>srv'. server_run (map (At 0) (stor_events sample_env
          (session_at (shared_server (command_line ''STOR'' ''a'' @ crlf)
             (request_head ''GET'' ''/a'' ''HTTP/1.1'' get_headers)) 0)
          ''a'' [replicate receive_buffer_size (CHR ''x'')] ''yz'')
        @ [At 1 (MessageReceived sample_env)])
      (shared_server (command_line ''STOR'' ''a'' @ crlf) (request_head ''GET'' ''/a'' ''HTTP/1.1'' get_headers))
      = Some (Inr srv')
    \<and> read_response (last (sent_log (sessions srv' ! 1)))
        = Some (HttpResponse_resource Ok (concat [replicate receive_buffer_size (CHR ''x'')] @ ''yz''), [])"
proof (rule stored_by_ftp_served_by_http [where uri = "''/a''" and p = 50123 and i = 0 and j = 1
      and scheme = "''Basic''" and user = nord and hs = get_headers and version = "''HTTP/1.1''"])
  show "plain_argument ''STOR'' ''a''" by code_simp
  show "plain_request ''GET'' ''/a'' ''HTTP/1.1'' get_headers" by (rule sample_requests)
  show "passive_mode (session_at (shared_server (command_line ''STOR'' ''a'' @ crlf)
      (request_head ''GET'' ''/a'' ''HTTP/1.1'' get_headers)) 0) 50123"
    by (simp add: shared_server_at passive_session_mode)
qed (simp_all add: shared_server_up shared_server_at sample_ready sample_pending sample_let_in
    receive_buffer_size_def)

text \<open>
  What one client stores with PUT, another client gets: after the request and its body have
  come in over one session, a GET request in another session of the same server is answered
  with status 200 and exactly the bytes of the body.
\<close>

theorem stored_by_put_served_to_others:
  assumes "up srv" "i < length (sessions srv)" "j < length (sessions srv)" "i \<noteq> j"
    and "ready (session_at srv i)" "pending (session_at srv i) = request_head ''PUT'' uri version1 hs1"
      "plain_request ''PUT'' uri version1 hs1" "let_in hs1 scheme1 user1 (session_at srv i)"
    and "size_of_request hs1 = length body" "concat xs = body" "[] \<notin> set xs"
    and "uri \<noteq> ''/''" "fs_map (srv_filesystem srv) uri = None"
    and "ready (session_at srv j)" "pending (session_at srv j) = request_head ''GET'' uri version hs"
      "plain_request ''GET'' uri version hs" "let_in hs scheme user (session_at srv j)"
  shows "\<exists>srv'. server_run (map (At i) (MessageReceived env # map Arrive xs @ [BodyRead (length body, uri)])
        @ [At j (MessageReceived env)]) srv = Some (Inr srv')
    \<and> read_response (last (sent_log (sessions srv' ! j))) = Some (HttpResponse_resource Ok body, [])"
proof -
  let ?s = "session_at srv i"
  let ?es = "MessageReceived env # map Arrive xs @ [BodyRead (length body, uri)]"
  obtain s' where s': "run_events (MessageReceived env # map Arrive xs @ BodyRead (length body, uri) # []) ?s
        = run_events [] s'" "filesystem s' = snd (fs_add (filesystem ?s) uri body)" "ready s'"
    using assms(5-11) by (rule put_run [where env = env and es = "[]"])
  have fs: "filesystem ?s = srv_filesystem srv" by (simp add: session_at_def with_shared_def)
  have inv: "fs_inv (filesystem ?s)" using assms(5) by (simp add: ready_def)
  have "run_events ?es ?s = Some (Inr s')" using s'(1) by simp
  moreover have "fs_inv (filesystem s')" using s'(3) by (simp add: ready_def)
  ultimately obtain srv' where "server_run (map (At i) ?es @ [At j (MessageReceived env)]) srv = Some (Inr srv')"
      "sent_log (sessions srv' ! j) = sent_log (sessions srv ! j) @ [http_serialise (get_answer (filesystem s') uri)]"
    using get_after_change [OF assms(1-4) _ _ _ assms(14-17), where env = env and es = ?es] by blast
  moreover have "get_answer (filesystem s') uri = HttpResponse_resource Ok body"
    using assms(12,13) memfs.add_abs [OF inv] fs by (simp add: get_answer_def s'(2) domIff)
  ultimately show ?thesis using read_response_serialise [of _ "[]"] by auto
qed

definition two_http_clients :: "string \<Rightarrow> string \<Rightarrow> ObjectStorage" where
  "two_http_clients x y = sample_server\<lparr>sessions := [http_session [x], http_session [y]]\<rparr>"

lemma two_http_clients_simps:
  "up (two_http_clients x y)" "length (sessions (two_http_clients x y)) = 2"
  "session_at (two_http_clients x y) 0 = http_session [x]"
  "session_at (two_http_clients x y) (Suc 0) = http_session [y]"
  "srv_filesystem (two_http_clients x y) = fs_empty front_order"
  by (simp_all add: up_def session_at_def with_shared_def two_http_clients_def sample_server_def
      idle_server_def new_server_def http_session_def sample_session_def new_session_def)

lemma stored_by_put_served_to_others_witness:
  "\<exists>srv'. server_run (map (At 0) (MessageReceived sample_env # map Arrive [''he'', ''llo'']
          @ [BodyRead (length ''hello'', ''/a'')]) @ [At 1 (MessageReceived sample_env)])
      (two_http_clients (request_head ''PUT'' ''/a'' ''HTTP/1.1'' put_headers)
        (request_head ''GET'' ''/a'' ''HTTP/1.1'' get_headers)) = Some (Inr srv')
    \<and> read_response (last (sent_log (sessions srv' ! 1))) = Some (HttpResponse_resource Ok ''hello'', [])"
proof (rule stored_by_put_served_to_others [where ?version1.0 = "''HTTP/1.1''" and ?hs1.0 = put_headers
      and version = "''HTTP/1.1''" and hs = get_headers and scheme = "''Basic''" and user = nord
      and ?scheme1.0 = "''Basic''" and ?user1.0 = nord])
  show "plain_request ''PUT'' ''/a'' ''HTTP/1.1'' put_headers" "plain_request ''GET'' ''/a'' ''HTTP/1.1'' get_headers"
    by (rule sample_requests)+
  have "read_dec ''5'' = 5" by code_simp
  then show "size_of_request put_headers = length ''hello''"
    by (simp add: size_of_request_def sample_fields)
qed (simp_all add: two_http_clients_simps sample_ready sample_pending sample_let_in)

section \<open>Every state of a server\<close>

text \<open>A client of the sample server that stores a file and asks to delete it again.\<close>

lemma sample_delete_asked:
  "\<exists>es s1 s2. run_events es greeted_session = Some (Inr s1) \<and> react (MessageReceived sample_env) s1 = Some (Inr s2)
    \<and> fs_map (filesystem s1) = [''/a'' \<mapsto> ''hello''] \<and> fs_map (filesystem s2) = Map.empty
    \<and> user_database s1 = sample_users"
proof -
  let ?s = greeted_session
  have idle: "http_idle ?s" using greeted_session_idle by (simp add: ftp_idle_def calm_def http_idle_def)
  have start: "stored_files ?s = Map.empty" "user_database ?s = sample_users"
    by (simp_all add: stored_files_def greeted_session_defs)
  have no_expect: "\<not> expects_continue put_headers" by code_simp
  have sound: "sound_request ?s sample_put" "sound_request ?s sample_delete" using greeted_session_sound by simp_all
  obtain s as where s: "run_events (request_events sample_env sample_put) ?s = Some (Inr s)" "http_idle s"
      "same_client ?s s" "web_service sample_put (stored_files ?s) as (stored_files s)"
    using request_answered [OF idle sound(1)] by blast
  have put: "stored_files s = [''/a'' \<mapsto> ''hello'']"
    using s(4) start by (auto simp: no_expect web_service_iff sample_put_def req_body_def)
  have del: "sound_request s sample_delete" by (rule sound_request_client [OF s(3) sound(2)])
  let ?s1 = "s\<lparr>socket_rx := socket_rx s @ head_pieces sample_delete\<rparr>"
  note arrives = request_arrives [OF s(2) del]
  have es: "request_events sample_env sample_delete = map Arrive (head_pieces sample_delete) @ [MessageReceived sample_env]"
    by (simp add: request_events_def sample_delete_def)
  obtain s2 bs where s2: "run_events (request_events sample_env sample_delete) s = Some (Inr s2)"
      "web_service sample_delete (stored_files s) bs (stored_files s2)"
    using request_answered [OF s(2) del] by blast
  have "stored_files s2 = Map.empty"
    using s2(2) put by (auto simp: web_service_iff sample_delete_def)
  moreover have "react (MessageReceived sample_env) ?s1 = Some (Inr s2)"
    using s2(1) unfolding es arrives(1) by (simp del: react.simps split: option.splits sum.splits)
  moreover have "run_events (request_events sample_env sample_put @ map Arrive (head_pieces sample_delete) @ []) ?s
      = Some (Inr ?s1)"
    unfolding run_events_append [OF s(1)] arrives(1) by simp
  moreover have "user_database ?s1 = sample_users" using s(3) start(2) by (simp add: same_client_def)
  ultimately show ?thesis using put unfolding stored_files_def by fastforce
qed

text \<open>
  C8. A running server implements the abstract store: whatever happens to it, to any of its
  sessions, changes the files as the one operation of the abstract store does that
  \<open>server_op\<close> reads off the event, and not at all if there is none. That operation is: of a message received,
  the removal of the path that a DELE command names, if someone is logged in, or of the URI of a
  DELETE request that is let in; of the task that saves an upload, and of a PUT body that has been
  read, the addition of just these bytes under just that path; of all other events none.
\<close>

theorem server_implements_store:
  assumes "reachable_server (new_server order address p level auth ports) srv"
    and "server_react e srv = Some (Inr srv')"
  shows "fs_inv (srv_filesystem srv') \<and> fs_map (srv_filesystem srv') =
    (case server_op e srv of
       None \<Rightarrow> fs_map (srv_filesystem srv)
     | Some x \<Rightarrow> snd (abstract_step x (fs_map (srv_filesystem srv))))"
proof -
  have "server_inv srv" using server_inv_reachable [OF assms(1) server_inv_new] .
  then show ?thesis using server_step_op [OF assms(2)] by (simp add: server_inv_def store_after_abstract)
qed

lemma server_implements_store_witness:
  "\<exists>(srv :: ObjectStorage) srv'. server_react (At 0 (MessageReceived sample_env)) srv = Some (Inr srv')
    \<and> fs_map (srv_filesystem srv) = [''/a'' \<mapsto> ''hello''] \<and> fs_map (srv_filesystem srv') = Map.empty
    \<and> server_op (At 0 (MessageReceived sample_env)) srv = Some (FsRemove ''/a'') \<and> fs_inv (srv_filesystem srv')"
proof -
  obtain es s1 s2 where s: "run_events es greeted_session = Some (Inr s1)" "user_database s1 = sample_users"
      "react (MessageReceived sample_env) s1 = Some (Inr s2)"
      "fs_map (filesystem s1) = [''/a'' \<mapsto> ''hello'']" "fs_map (filesystem s2) = Map.empty"
    using sample_delete_asked by blast
  let ?e = "At 0 (MessageReceived sample_env)" and ?srv = "put_session 0 s1 sample_server"
  have at: "with_shared ?srv (sessions ?srv ! 0) = s1"
    using with_shared_put [of s1 sample_server 0] s(2)
    by (simp add: put_session_def sample_server_def)
  have files: "srv_filesystem ?srv = filesystem s1" "srv_filesystem (put_session 0 s2 ?srv) = filesystem s2"
    by (simp_all add: put_session_def)
  have "up ?srv" "0 < length (sessions ?srv)"
    by (simp_all add: up_def put_session_def sample_server_def idle_server_def new_server_def)
  then have step: "server_react ?e ?srv = Some (Inr (put_session 0 s2 ?srv))"
    using s(3) at by (simp add: up_def del: react.simps)
  from server_implements_store [OF greeted_session_reached(1) [OF s(1), unfolded idle_server_def] step]
  have spec: "fs_inv (filesystem s2)" "fs_map (filesystem s2) = (case server_op ?e ?srv of None \<Rightarrow> fs_map (filesystem s1)
      | Some x \<Rightarrow> snd (abstract_step x (fs_map (filesystem s1))))"
    unfolding files by blast+
  have changed: "fs_map (filesystem s1) ''/a'' = Some ''hello''" "fs_map (filesystem s2) ''/a'' = None"
    using s(4,5) by simp_all
  with spec(2) obtain x where x: "session_op (MessageReceived sample_env) s1 = Some x"
    using at by (cases "session_op (MessageReceived sample_env) s1") auto
  then have "x = FsRemove ''/a''"
  proof (cases rule: session_op_cases)
    case (remove env path)
    with spec(2) x at changed show ?thesis by (cases "path = ''/a''") (simp_all split: if_splits)
  next
    case (add path f)
    with spec(2) x at changed show ?thesis by (cases "path = ''/a''") (auto split: if_splits)
  qed
  with x at have "server_op ?e ?srv = Some (FsRemove ''/a'')" by simp
  with step spec(1) s(4,5) show ?thesis
    by (intro exI [of _ ?srv] exI [of _ "put_session 0 s2 ?srv"]) (simp only: files)
qed

text \<open>
  C9. Whoever is logged in at a server, in whatever way the server has come to its present
  state, is \<open>anonymous\<close> or a registered user with the password registered for him; and the
  working directory of every session, whether somebody is logged in or not, starts and ends with a
  slash.
\<close>

theorem logged_in_users_are_known:
  assumes "reachable_server (new_server order address p level auth ports) srv" "s \<in> set (sessions srv)"
  shows "cwd_ok (current_working_dir s)
    \<and> (case logged_in_user s of
         None \<Rightarrow> True
       | Some u \<Rightarrow> username u = ''anonymous'' \<or> srv_users srv (username u) = Some (password u))"
proof -
  have "server_inv srv" using server_inv_reachable [OF assms(1) server_inv_new] .
  with assms(2) show ?thesis
    by (auto simp: server_inv_def access_inv_with_shared db_verify_iff requirePassword_def
        kUsersWithoutPassword_def split: option.split)
qed

text \<open>A client of the sample server that has logged in and gone to a directory.\<close>

lemma sample_client_logs_in:
  "\<exists>es s. run_events es greeted_session = Some (Inr s) \<and> logged_in_user s = Some nord
    \<and> current_working_dir s = ''/d/''"
proof -
  let ?cs = "map sample_command [[''USER'', ''Nord''], [''PASS'', ''VPN''], [''CWD'', ''d'']]"
  have "list_all sound_words [[''USER'', ''Nord''], [''PASS'', ''VPN''], [''CWD'', ''d'']]" by code_simp
  then have "list_all sound_command ?cs"
    by (simp add: sample_command_def sound_command_def receive_buffer_size_def crlf_def)
  from ftp.all_answered [OF greeted_session_idle this] obtain ess s ms where
    s: "run_events (concat ess) greeted_session = Some (Inr s)"
      "service_run ftp_service ?cs sample_account ms (account_of s)"
    unfolding greeted_session_account by blast
  have "account_of s = sample_account\<lparr>acc_login := Known nord, acc_dir := ''/d/''\<rparr>"
    using s(2) by (auto simp: evaluate_machine nord_def)
  then have "logged_in_user s = Some nord" "current_working_dir s = ''/d/''"
    by (auto simp: account_of_def login_of_def sample_account_def split: option.splits if_splits)
  with s(1) show ?thesis by blast
qed

lemma logged_in_users_are_known_witness:
  "\<exists>(srv :: ObjectStorage) s. s \<in> set (sessions srv) \<and> logged_in_user s = Some nord
    \<and> current_working_dir s = ''/d/'' \<and> cwd_ok ''/d/'' \<and> srv_users srv ''Nord'' = Some ''VPN''"
proof -
  obtain es s where s: "run_events es greeted_session = Some (Inr s)" "logged_in_user s = Some nord"
      "current_working_dir s = ''/d/''"
    using sample_client_logs_in by blast
  note srv = greeted_session_reached [OF s(1)]
  from logged_in_users_are_known [OF srv(1) [unfolded idle_server_def] srv(2)] s(2,3) srv(2) show ?thesis
    by (auto simp: nord_def)
qed

end
